(* ===== verification/Prelude.thy ===== *)
theory Prelude
  imports Main "HOL-Library.Word" "HOL-Library.Sublist"
begin

text \<open>
  Shared vocabulary of the development: instants and durations of Go's package time, signed
  64-bit wrap-around, the outcome of a call over a network link, and the generic lemmas on
  lists and maps that the component theories use.

  An instant (\<open>time.Time\<close>) is the number of nanoseconds since the Unix epoch, unbounded as
  the years 0 to 9999 that the API accepts do not fit 64 bits. A \<open>time.Duration\<close> is an
  \<open>int64\<close> of nanoseconds: an \<open>int\<close> whose operations below wrap or saturate as Go's do.
\<close>

type_synonym time = int
type_synonym duration = int

named_theorems key_simps \<open>injectivity and disjointness of Redis keys\<close>
named_theorems row_simps \<open>lookups in a table after an insert or an update\<close>

section \<open>64-bit arithmetic and time\<close>

definition wrap64 :: "int \<Rightarrow> int" where
  "wrap64 x = (x + 2 ^ 63) mod 2 ^ 64 - 2 ^ 63"

definition in64 :: "int \<Rightarrow> bool" where
  "in64 x \<longleftrightarrow> - (2 ^ 63) \<le> x \<and> x < 2 ^ 63"

lemma wrap64_id: "in64 x \<Longrightarrow> wrap64 x = x"
  by (simp add: wrap64_def in64_def)

lemma wrap64_high:
  assumes "2 ^ 63 \<le> x" and "x < 2 ^ 64"
  shows "wrap64 x = x - 2 ^ 64"
proof -
  have "(x + 2 ^ 63) mod 2 ^ 64 = (x - 2 ^ 63 + 2 ^ 64) mod 2 ^ 64"
    by (rule arg_cong [where f = "\<lambda>y. y mod 2 ^ 64"]) simp
  also have "\<dots> = x - 2 ^ 63" using assms by (simp only: mod_add_self2) simp
  finally show ?thesis by (simp add: wrap64_def)
qed

lemma in64_wrap64: "in64 (wrap64 x)"
proof -
  have "0 \<le> (x + 2 ^ 63) mod 2 ^ 64" and "(x + 2 ^ 63) mod 2 ^ 64 < (2 ^ 64 :: int)"
    by (rule pos_mod_sign, simp) (rule pos_mod_bound, simp)
  then show ?thesis by (simp add: wrap64_def in64_def)
qed

text \<open>The same wrap-around, read off a 64-bit word.\<close>

lemma wrap64_word: "wrap64 x = sint (word_of_int x :: 64 word)"
proof -
  have "sint (word_of_int x :: 64 word) = signed_take_bit 63 x"
    by transfer simp
  also have "\<dots> = take_bit 64 (x + 2 ^ 63) - 2 ^ 63"
    using signed_take_bit_eq_take_bit_shift [of 63 x] by simp
  finally show ?thesis by (simp add: wrap64_def take_bit_eq_mod)
qed

definition max_duration :: duration where "max_duration = 2 ^ 63 - 1"
definition min_duration :: duration where "min_duration = - (2 ^ 63)"

definition Nanosecond :: duration where "Nanosecond = 1"
definition Microsecond :: duration where "Microsecond = 1000"
definition Millisecond :: duration where "Millisecond = 1000000"
definition Second :: duration where "Second = 1000000000"
definition Minute :: duration where "Minute = 60 * Second"
definition Hour :: duration where "Hour = 60 * Minute"

lemmas duration_unit_defs =
  Nanosecond_def Microsecond_def Millisecond_def Second_def Minute_def Hour_def

text \<open>\<open>t.Sub(u)\<close> saturates; the sum of two durations wraps; \<open>t.Truncate(d)\<close> rounds down to a
  multiple of \<open>d\<close> since year 1, which for a divisor of a second is a multiple since 1970.\<close>

definition time_sub :: "time \<Rightarrow> time \<Rightarrow> duration" where
  "time_sub t u =
     (if t - u < min_duration then min_duration
      else if t - u > max_duration then max_duration else t - u)"

definition dur_add :: "duration \<Rightarrow> duration \<Rightarrow> duration" where
  "dur_add a b = wrap64 (a + b)"

definition truncate :: "time \<Rightarrow> duration \<Rightarrow> time" where
  "truncate t d = t - t mod d"

lemma in64_time_sub: "in64 (time_sub t u)"
  by (simp add: time_sub_def in64_def min_duration_def max_duration_def)

lemma time_sub_exact: "in64 (t - u) \<Longrightarrow> time_sub t u = t - u"
  by (simp add: time_sub_def in64_def min_duration_def max_duration_def)

lemma dur_add_exact: "in64 (a + b) \<Longrightarrow> dur_add a b = a + b"
  by (simp add: dur_add_def wrap64_id)

lemma truncate_idem: "0 < d \<Longrightarrow> truncate (truncate t d) d = truncate t d"
  by (simp add: truncate_def minus_mod_eq_mult_div)

lemma truncate_le: "0 < d \<Longrightarrow> truncate t d \<le> t"
  by (simp add: truncate_def)

lemma truncate_mono: "0 < d \<Longrightarrow> t \<le> u \<Longrightarrow> truncate t d \<le> truncate u d"
  by (simp add: truncate_def minus_mod_eq_mult_div zdiv_mono1)

section \<open>Calls over a link\<close>

text \<open>
  A call to a database or to Redis succeeds, is lost before the server runs it, or is run by
  the server with its reply lost: Go sees an error in the last two.
\<close>

datatype outcome = Done | Lost | ReplyLost

section \<open>Lists and maps\<close>

lemma find_map_update:
  assumes "\<And>r. k (f r) = k r"
  shows "find (\<lambda>r. k r = x) (map f rs) = map_option f (find (\<lambda>r. k r = x) rs)"
  using assms by (induction rs) auto

lemma find_Some_mem: "find P xs = Some x \<Longrightarrow> x \<in> set xs \<and> P x"
  by (induction xs) (auto split: if_splits)

lemma find_eq_None: "find P xs = None \<longleftrightarrow> (\<forall>x \<in> set xs. \<not> P x)"
  by (induction xs) auto

lemma find_append: "find P (xs @ ys) = (case find P xs of None \<Rightarrow> find P ys | Some x \<Rightarrow> Some x)"
  by (induction xs) auto

lemma find_distinct_key:
  "distinct (map k xs) \<Longrightarrow> x \<in> set xs \<Longrightarrow> find (\<lambda>y. k y = k x) xs = Some x"
  by (induction xs) (auto simp: image_iff)

lemma filter_key_distinct:
  "distinct (map k xs) \<Longrightarrow> x \<in> set xs \<Longrightarrow> filter (\<lambda>y. k y = k x) xs = [x]"
proof (induction xs)
  case Nil
  then show ?case by simp
next
  case (Cons y ys)
  show ?case
  proof (cases "y = x")
    case True
    with Cons.prems have "filter (\<lambda>z. k z = k x) ys = []"
      by (auto simp: filter_empty_conv image_iff)
    with True show ?thesis by simp
  next
    case False
    with Cons.prems have "k y \<noteq> k x" and "x \<in> set ys" and "distinct (map k ys)"
      by (auto simp: image_iff)
    with Cons.IH show ?thesis by simp
  qed
qed

text \<open>Splitting at the last occurrence of a separator is unambiguous.\<close>

lemma append_sep_inject:
  assumes "c \<notin> set ys" and "c \<notin> set ys'"
  shows "xs @ c # ys = xs' @ c # ys' \<longleftrightarrow> xs = xs' \<and> ys = ys'"
  using assms
  by (auto simp: append_eq_Cons_conv Cons_eq_append_conv append_eq_append_conv2)

end
