(* ===== verification/Go_Strings.thy ===== *)
theory Go_Strings
  imports Prelude "HOL-Library.Char_ord" "HOL-Library.List_Lexorder"
begin

text \<open>
  What the source uses of Go's packages strings, strconv, unicode/utf8 and encoding/hex. A Go
  string is a sequence of bytes: a HOL \<open>string\<close>, each \<open>char\<close> being one byte.
\<close>

abbreviation byte_val :: "char \<Rightarrow> nat" where
  "byte_val c \<equiv> of_char c"

section \<open>Package strings, on ASCII separators\<close>

definition has_prefix :: "string \<Rightarrow> string \<Rightarrow> bool" where
  "has_prefix s p \<longleftrightarrow> take (length p) s = p"

definition has_suffix :: "string \<Rightarrow> string \<Rightarrow> bool" where
  "has_suffix s p \<longleftrightarrow> length p \<le> length s \<and> drop (length s - length p) s = p"

definition trim_prefix :: "string \<Rightarrow> string \<Rightarrow> string" where
  "trim_prefix s p = (if has_prefix s p then drop (length p) s else s)"

text \<open>\<open>strings.Split(s, sep)\<close> for a separator of one byte: never empty.\<close>

fun split :: "char \<Rightarrow> string \<Rightarrow> string list" where
  "split c [] = [[]]"
| "split c (x # xs) =
     (if x = c then [] # split c xs
      else (case split c xs of [] \<Rightarrow> [[x]] | y # ys \<Rightarrow> (x # y) # ys))"

text \<open>\<open>strings.ReplaceAll(s, c, "")\<close> for one byte \<open>c\<close>.\<close>

definition remove_byte :: "char \<Rightarrow> string \<Rightarrow> string" where
  "remove_byte c s = filter (\<lambda>x. x \<noteq> c) s"

lemma has_prefix_append [simp]: "has_prefix (p @ s) p"
  by (simp add: has_prefix_def)

lemma has_prefix_iff: "has_prefix s p \<longleftrightarrow> (\<exists>t. s = p @ t)"
  by (metis append_eq_conv_conj append_take_drop_id has_prefix_def)

lemma has_suffix_iff: "has_suffix s p \<longleftrightarrow> (\<exists>t. s = t @ p)"
  by (metis append_take_drop_id append_eq_append_conv diff_diff_cancel diff_le_self has_suffix_def
      length_append length_drop le_add2 append_eq_conv_conj)

lemma trim_prefix_append [simp]: "trim_prefix (p @ s) p = s"
  by (simp add: trim_prefix_def)

lemma split_not_Nil [simp]: "split c s \<noteq> []"
  by (induction s) (auto split: list.splits)

lemma split_no_sep: "c \<notin> set s \<Longrightarrow> split c s = [s]"
  by (induction s) auto

lemma split_append_sep: "c \<notin> set s \<Longrightarrow> split c (s @ c # t) = s # split c t"
  by (induction s) auto

lemma split_parts_no_sep: "p \<in> set (split c s) \<Longrightarrow> c \<notin> set p"
  by (induction s arbitrary: p) (auto split: list.splits if_splits)

fun join :: "char \<Rightarrow> string list \<Rightarrow> string" where
  "join c [] = []"
| "join c [p] = p"
| "join c (p # q # ps) = p @ c # join c (q # ps)"

lemma join_split [simp]: "join c (split c s) = s"
proof (induction s)
  case Nil
  then show ?case by simp
next
  case (Cons x xs)
  obtain y ys where y: "split c xs = y # ys"
    by (cases "split c xs") auto
  with Cons show ?case by (cases ys) auto
qed

section \<open>UTF-8\<close>

text \<open>
  \<open>utf8.DecodeRuneInString\<close>: the first rune and its width; an invalid sequence is
  \<open>RuneError\<close> of width 1.
\<close>

definition RuneError :: nat where "RuneError = 65533"

definition cont :: "char \<Rightarrow> bool" where
  "cont c \<longleftrightarrow> 128 \<le> byte_val c \<and> byte_val c \<le> 191"

definition second_ok :: "nat \<Rightarrow> char \<Rightarrow> bool" where
  "second_ok b0 c \<longleftrightarrow>
     (if b0 = 224 then 160 \<le> byte_val c \<and> byte_val c \<le> 191
      else if b0 = 237 then 128 \<le> byte_val c \<and> byte_val c \<le> 159
      else if b0 = 240 then 144 \<le> byte_val c \<and> byte_val c \<le> 191
      else if b0 = 244 then 128 \<le> byte_val c \<and> byte_val c \<le> 143
      else cont c)"

definition decode_rune :: "string \<Rightarrow> nat \<times> nat" where
  "decode_rune s =
    (case s of [] \<Rightarrow> (RuneError, 0)
     | c0 # cs \<Rightarrow>
       let b0 = byte_val c0 in
       if b0 < 128 then (b0, 1)
       else if 194 \<le> b0 \<and> b0 \<le> 223 then
         (case cs of c1 # _ \<Rightarrow>
            if cont c1 then ((b0 - 192) * 64 + (byte_val c1 - 128), 2) else (RuneError, 1)
          | _ \<Rightarrow> (RuneError, 1))
       else if 224 \<le> b0 \<and> b0 \<le> 239 then
         (case cs of c1 # c2 # _ \<Rightarrow>
            if second_ok b0 c1 \<and> cont c2
            then ((b0 - 224) * 4096 + (byte_val c1 - 128) * 64 + (byte_val c2 - 128), 3)
            else (RuneError, 1)
          | _ \<Rightarrow> (RuneError, 1))
       else if 240 \<le> b0 \<and> b0 \<le> 244 then
         (case cs of c1 # c2 # c3 # _ \<Rightarrow>
            if second_ok b0 c1 \<and> cont c2 \<and> cont c3
            then ((b0 - 240) * 262144 + (byte_val c1 - 128) * 4096
                   + (byte_val c2 - 128) * 64 + (byte_val c3 - 128), 4)
            else (RuneError, 1)
          | _ \<Rightarrow> (RuneError, 1))
       else (RuneError, 1))"

lemma decode_rune_width: "s \<noteq> [] \<Longrightarrow> 1 \<le> snd (decode_rune s) \<and> snd (decode_rune s) \<le> length s"
  by (auto simp: decode_rune_def Let_def split: list.splits)

lemma decode_rune_ascii [simp]: "byte_val c < 128 \<Longrightarrow> decode_rune (c # cs) = (byte_val c, 1)"
  by (simp add: decode_rune_def)

text \<open>\<open>utf8.RuneCountInString\<close>.\<close>

function rune_count :: "string \<Rightarrow> nat" where
  "rune_count s = (if s = [] then 0 else Suc (rune_count (drop (snd (decode_rune s)) s)))"
  by pat_completeness auto
termination
proof (relation "measure length")
  show "wf (measure length)" by simp
next
  fix s :: string
  assume "s \<noteq> []"
  with decode_rune_width [of s] show "(drop (snd (decode_rune s)) s, s) \<in> measure length"
    by simp
qed

declare rune_count.simps [simp del]

lemma rune_count_Nil [simp]: "rune_count [] = 0"
  by (simp add: rune_count.simps)

lemma rune_count_pos: "s \<noteq> [] \<Longrightarrow> 0 < rune_count s"
  by (simp add: rune_count.simps [of s])

lemma rune_count_le_length: "rune_count s \<le> length s"
proof (induction s rule: rune_count.induct)
  case (1 s)
  show ?case
  proof (cases "s = []")
    case True
    then show ?thesis by simp
  next
    case False
    then have "Suc (rune_count (drop (snd (decode_rune s)) s)) \<le> length s"
      using "1.IH" decode_rune_width [of s] by auto
    with False show ?thesis by (simp add: rune_count.simps [of s])
  qed
qed

lemma rune_count_ascii: "\<forall>c \<in> set s. byte_val c < 128 \<Longrightarrow> rune_count s = length s"
  by (induction s) (simp_all add: rune_count.simps)

text \<open>\<open>utf8.DecodeLastRuneInString\<close>: back over at most three continuation bytes to a start byte.\<close>

definition rune_start :: "char \<Rightarrow> bool" where
  "rune_start c \<longleftrightarrow> \<not> cont c"

definition decode_last_rune :: "string \<Rightarrow> nat \<times> nat" where
  "decode_last_rune s =
    (let n = length s in
     if n = 0 then (RuneError, 0)
     else if byte_val (s ! (n - 1)) < 128 then (byte_val (s ! (n - 1)), 1)
     else (case find (\<lambda>k. k \<le> n \<and> rune_start (s ! (n - k))) [2, 3, 4] of
             None \<Rightarrow> (RuneError, 1)
           | Some k \<Rightarrow> let (r, w) = decode_rune (drop (n - k) s)
                      in if w = k then (r, w) else (RuneError, 1)))"

lemma decode_last_rune_width:
  "s \<noteq> [] \<Longrightarrow> 1 \<le> snd (decode_last_rune s) \<and> snd (decode_last_rune s) \<le> length s"
proof -
  assume "s \<noteq> []"
  then have n: "1 \<le> length s" by (simp add: Suc_leI)
  show ?thesis
  proof (cases "find (\<lambda>k. k \<le> length s \<and> rune_start (s ! (length s - k))) [2, 3, 4]")
    case None
    with \<open>s \<noteq> []\<close> n show ?thesis
      by (simp add: decode_last_rune_def Let_def del: find.simps)
  next
    case (Some k)
    from find_Some_mem [OF this] have "k \<le> length s" and "2 \<le> k" by auto
    with \<open>s \<noteq> []\<close> n Some show ?thesis
      by (simp add: decode_last_rune_def Let_def del: find.simps split: prod.split)
  qed
qed

text \<open>\<open>unicode.IsSpace\<close>.\<close>

definition is_space :: "nat \<Rightarrow> bool" where
  "is_space r \<longleftrightarrow> (9 \<le> r \<and> r \<le> 13) \<or> r = 32 \<or> r = 133 \<or> r = 160 \<or> r = 5760 \<or>
     (8192 \<le> r \<and> r \<le> 8202) \<or> r = 8232 \<or> r = 8233 \<or> r = 8239 \<or> r = 8287 \<or> r = 12288"

function trim_left :: "string \<Rightarrow> string" where
  "trim_left s =
     (if s \<noteq> [] \<and> is_space (fst (decode_rune s))
      then trim_left (drop (snd (decode_rune s)) s) else s)"
  by pat_completeness auto
termination
proof (relation "measure length")
  show "wf (measure length)" by simp
next
  fix s :: string
  assume "s \<noteq> [] \<and> is_space (fst (decode_rune s))"
  with decode_rune_width [of s] show "(drop (snd (decode_rune s)) s, s) \<in> measure length"
    by simp
qed

function trim_right :: "string \<Rightarrow> string" where
  "trim_right s =
     (if s \<noteq> [] \<and> is_space (fst (decode_last_rune s))
      then trim_right (take (length s - snd (decode_last_rune s)) s) else s)"
  by pat_completeness auto
termination
proof (relation "measure length")
  show "wf (measure length)" by simp
next
  fix s :: string
  assume "s \<noteq> [] \<and> is_space (fst (decode_last_rune s))"
  with decode_last_rune_width [of s]
  show "(take (length s - snd (decode_last_rune s)) s, s) \<in> measure length"
    by auto
qed

declare trim_left.simps [simp del] trim_right.simps [simp del]

text \<open>\<open>strings.TrimSpace\<close>.\<close>

definition trim_space :: "string \<Rightarrow> string" where
  "trim_space s = trim_right (trim_left s)"

lemma trim_left_suffix: "suffix (trim_left s) s"
proof (induction s rule: trim_left.induct)
  case (1 s)
  then show ?case
    by (subst trim_left.simps) (auto intro: suffix_order.trans suffix_drop)
qed

lemma trim_right_prefix: "prefix (trim_right s) s"
proof (induction s rule: trim_right.induct)
  case (1 s)
  then show ?case
    by (subst trim_right.simps) (auto intro: prefix_order.trans take_is_prefix)
qed

lemma trim_space_sublist: "sublist (trim_space s) s"
  unfolding trim_space_def
  by (rule sublist_order.order.trans [OF prefix_imp_sublist [OF trim_right_prefix]
      suffix_imp_sublist [OF trim_left_suffix]])

lemma trim_right_last_not_space:
  "trim_right s \<noteq> [] \<Longrightarrow> \<not> is_space (fst (decode_last_rune (trim_right s)))"
proof (induction s rule: trim_right.induct)
  case (1 s)
  show ?case
  proof (cases "s \<noteq> [] \<and> is_space (fst (decode_last_rune s))")
    case True
    then have "trim_right s = trim_right (take (length s - snd (decode_last_rune s)) s)"
      by (simp add: trim_right.simps [of s])
    with "1.IH" [OF True] "1.prems" show ?thesis by simp
  next
    case False
    then have "trim_right s = s" by (subst trim_right.simps) auto
    with False "1.prems" show ?thesis by simp
  qed
qed

text \<open>A text that begins and ends with an ASCII character other than a space stays as it is.\<close>

lemma trim_space_plain:
  assumes "s \<noteq> []" and "byte_val (hd s) < 128" and "\<not> is_space (byte_val (hd s))"
    and "byte_val (last s) < 128" and "\<not> is_space (byte_val (last s))"
  shows "trim_space s = s"
proof -
  have "trim_left s = s"
    using assms(1-3) by (subst trim_left.simps) (cases s, auto)
  moreover have "trim_right s = s"
    using assms(1,4,5) by (subst trim_right.simps) (simp add: decode_last_rune_def last_conv_nth)
  ultimately show ?thesis by (simp add: trim_space_def)
qed

end
