(* ===== verification/Go_Encoding.thy ===== *)
theory Go_Encoding
  imports Go_Strings
begin

text \<open>
  What the source uses of Go's packages strconv (decimal numbers), encoding/hex and
  encoding/base64 (\<open>RawURLEncoding\<close>). A \<open>[]byte\<close> is a list of 8-bit words.
\<close>

type_synonym byte = "8 word"

definition bytes_of :: "string \<Rightarrow> byte list" where
  "bytes_of s = map (\<lambda>c. word_of_nat (byte_val c)) s"

lemma length_bytes_of [simp]: "length (bytes_of s) = length s"
  by (simp add: bytes_of_def)

lemma bytes_of_append: "bytes_of (s @ t) = bytes_of s @ bytes_of t"
  by (simp add: bytes_of_def)

lemma unat_byte_less: "unat (b :: byte) < 256"
  using unsigned_less [of b] by simp

section \<open>Decimal numbers\<close>

definition digit_char :: "nat \<Rightarrow> char" where
  "digit_char d = char_of (48 + d)"

definition is_digit :: "char \<Rightarrow> bool" where
  "is_digit c \<longleftrightarrow> 48 \<le> byte_val c \<and> byte_val c \<le> 57"

fun itoa_nat :: "nat \<Rightarrow> string" where
  "itoa_nat n =
     (if n < 10 then [digit_char n] else itoa_nat (n div 10) @ [digit_char (n mod 10)])"

declare itoa_nat.simps [simp del]

text \<open>\<open>strconv.Itoa\<close> and \<open>strconv.FormatInt(n, 10)\<close>.\<close>

definition itoa :: "int \<Rightarrow> string" where
  "itoa n = (if n < 0 then CHR ''-'' # itoa_nat (nat (- n)) else itoa_nat (nat n))"

fun dec_val :: "nat \<Rightarrow> string \<Rightarrow> nat option" where
  "dec_val acc [] = Some acc"
| "dec_val acc (c # cs) =
     (if is_digit c then dec_val (acc * 10 + (byte_val c - 48)) cs else None)"

text \<open>
  \<open>strconv.ParseInt(s, 10, 64)\<close>, which is also \<open>strconv.Atoi\<close> on a 64-bit machine: an
  optional sign, at least one digit, nothing else, and a value of 64 bits.
\<close>

definition parse_int64 :: "string \<Rightarrow> int option" where
  "parse_int64 s =
    (let (neg, body) = (case s of [] \<Rightarrow> (False, [])
                        | c # cs \<Rightarrow> if c = CHR ''-'' then (True, cs)
                                    else if c = CHR ''+'' then (False, cs) else (False, s))
     in if body = [] then None
        else case dec_val 0 body of None \<Rightarrow> None
             | Some u \<Rightarrow> if neg then (if u \<le> 2 ^ 63 then Some (- int u) else None)
                         else if u < 2 ^ 63 then Some (int u) else None)"

lemma byte_val_digit [simp]: "d < 10 \<Longrightarrow> byte_val (digit_char d) = 48 + d"
  by (simp add: digit_char_def)

lemma is_digit_digit_char [simp]: "d < 10 \<Longrightarrow> is_digit (digit_char d)"
  by (simp add: is_digit_def)

lemma itoa_nat_digits: "c \<in> set (itoa_nat n) \<Longrightarrow> is_digit c"
  by (induction n rule: itoa_nat.induct)
     (subst (asm) (2) itoa_nat.simps, auto split: if_splits)

lemma itoa_nat_not_Nil [simp]: "itoa_nat n \<noteq> []"
  by (subst itoa_nat.simps) simp

lemma dec_val_append:
  "dec_val a (xs @ ys) = (case dec_val a xs of None \<Rightarrow> None | Some b \<Rightarrow> dec_val b ys)"
  by (induction xs arbitrary: a) auto

lemma dec_val_itoa_nat: "dec_val 0 (itoa_nat n) = Some n"
proof (induction n rule: itoa_nat.induct)
  case (1 n)
  then show ?case
    by (subst itoa_nat.simps) (simp add: dec_val_append)
qed

lemma dec_val_digits: "dec_val a s = Some n \<Longrightarrow> \<forall>c \<in> set s. is_digit c"
  by (induction s arbitrary: a) (auto split: if_splits)

lemma is_digit_sign: "is_digit c \<Longrightarrow> c \<noteq> CHR ''-'' \<and> c \<noteq> CHR ''+''"
  by (auto simp: is_digit_def)

lemma parse_int64_itoa:
  assumes "in64 n"
  shows "parse_int64 (itoa n) = Some n"
proof (cases "n < 0")
  case True
  then have "nat (- n) \<le> 2 ^ 63"
    using assms by (simp add: in64_def nat_le_iff)
  with True show ?thesis
    by (simp add: itoa_def parse_int64_def dec_val_itoa_nat)
next
  case False
  obtain c cs where c: "itoa_nat (nat n) = c # cs"
    by (cases "itoa_nat (nat n)") auto
  then have "is_digit c"
    using itoa_nat_digits [of c "nat n"] by simp
  then have sgn: "c \<noteq> CHR ''-''" "c \<noteq> CHR ''+''"
    using is_digit_sign by auto
  have v: "dec_val 0 (c # cs) = Some (nat n)"
    using dec_val_itoa_nat [of "nat n"] c by simp
  have "nat n < 2 ^ 63"
    using assms False by (simp add: in64_def nat_less_iff)
  with False c sgn v show ?thesis
    by (simp add: itoa_def parse_int64_def del: dec_val.simps)
qed

lemma itoa_nat_inject [simp]: "itoa_nat m = itoa_nat n \<longleftrightarrow> m = n"
  by (metis dec_val_itoa_nat option.inject)

lemma itoa_inject [simp]: "itoa m = itoa n \<longleftrightarrow> m = n"
proof
  assume eq: "itoa m = itoa n"
  have "CHR ''-'' \<notin> set (itoa_nat k)" for k using itoa_nat_digits is_digit_sign by blast
  then have "m < 0 \<longleftrightarrow> n < 0" using eq by (auto simp: itoa_def split: if_splits) (metis list.set_intros(1))+
  with eq show "m = n" by (auto simp: itoa_def split: if_splits)
qed simp

lemma itoa_no_sep: "c \<in> set (itoa n) \<Longrightarrow> c \<noteq> CHR '':'' \<and> c \<noteq> CHR ''}'' \<and> c \<noteq> CHR ''{''"
  by (auto simp: itoa_def is_digit_def dest!: itoa_nat_digits split: if_splits)

section \<open>Hexadecimal\<close>

definition hex_char :: "nat \<Rightarrow> char" where
  "hex_char d = ''0123456789abcdef'' ! d"

definition from_hex :: "char \<Rightarrow> nat option" where
  "from_hex c =
    (let b = byte_val c in
     if 48 \<le> b \<and> b \<le> 57 then Some (b - 48)
     else if 97 \<le> b \<and> b \<le> 102 then Some (b - 87)
     else if 65 \<le> b \<and> b \<le> 70 then Some (b - 55)
     else None)"

definition is_hex :: "char \<Rightarrow> bool" where
  "is_hex c \<longleftrightarrow> from_hex c \<noteq> None"

definition hex_encode :: "byte list \<Rightarrow> string" where
  "hex_encode bs = concat (map (\<lambda>b. [hex_char (unat b div 16), hex_char (unat b mod 16)]) bs)"

fun hex_decode :: "string \<Rightarrow> byte list option" where
  "hex_decode [] = Some []"
| "hex_decode [c] = None"
| "hex_decode (c # d # s) =
     (case (from_hex c, from_hex d) of
        (Some x, Some y) \<Rightarrow> map_option (\<lambda>bs. word_of_nat (16 * x + y) # bs) (hex_decode s)
      | _ \<Rightarrow> None)"

lemma all_less_16: "(\<forall>d < (16 :: nat). P d) \<longleftrightarrow>
    P 0 \<and> P 1 \<and> P 2 \<and> P 3 \<and> P 4 \<and> P 5 \<and> P 6 \<and> P 7 \<and> P 8 \<and> P 9 \<and> P 10 \<and> P 11 \<and> P 12 \<and> P 13 \<and> P 14 \<and> P 15"
  by (simp add: numeral_eq_Suc All_less_Suc2)

lemma from_hex_hex_char [simp]: "d < 16 \<Longrightarrow> from_hex (hex_char d) = Some d"
proof -
  have "\<forall>d < 16. from_hex (hex_char d) = Some d"
    unfolding all_less_16 by (simp add: from_hex_def hex_char_def)
  then show "d < 16 \<Longrightarrow> from_hex (hex_char d) = Some d" by blast
qed

lemma length_hex_encode [simp]: "length (hex_encode bs) = 2 * length bs"
  by (induction bs) (simp_all add: hex_encode_def)

lemma hex_encode_Nil [simp]: "hex_encode [] = []"
  by (simp add: hex_encode_def)

lemma hex_encode_Cons:
  "hex_encode (b # bs) = hex_char (unat b div 16) # hex_char (unat b mod 16) # hex_encode bs"
  by (simp add: hex_encode_def)

lemma hex_encode_append: "hex_encode (bs @ cs) = hex_encode bs @ hex_encode cs"
  by (simp add: hex_encode_def)

lemma hex_decode_encode: "hex_decode (hex_encode bs) = Some bs"
proof (induction bs)
  case Nil
  then show ?case by simp
next
  case (Cons b bs)
  have "unat b div 16 < 16" and "unat b mod 16 < 16"
    using unat_byte_less [of b] by auto
  moreover have "16 * (unat b div 16) + unat b mod 16 = unat b"
    by simp
  ultimately show ?case using Cons.IH by (simp add: hex_encode_Cons)
qed

lemma hex_encode_inject [simp]: "hex_encode bs = hex_encode cs \<longleftrightarrow> bs = cs"
  by (metis hex_decode_encode option.inject)

lemma hex_decode_eq_None_iff:
  "hex_decode s \<noteq> None \<longleftrightarrow> even (length s) \<and> (\<forall>c \<in> set s. is_hex c)"
  by (induction s rule: hex_decode.induct) (auto simp: is_hex_def split: option.splits)

lemma hex_encode_is_hex: "c \<in> set (hex_encode bs) \<Longrightarrow> is_hex c"
  using hex_decode_eq_None_iff [of "hex_encode bs"] by (simp add: hex_decode_encode)

lemma is_hex_not_sep: "is_hex c \<Longrightarrow> c \<noteq> CHR ''-'' \<and> c \<noteq> CHR '':'' \<and> c \<noteq> CHR ''}''"
  by (auto simp: is_hex_def from_hex_def Let_def)

end
