(* ===== verification/Go_Base64.thy ===== *)
theory Go_Base64
  imports Go_Encoding
begin

text \<open>
  \<open>base64.RawURLEncoding\<close> of Go's encoding/base64: the URL alphabet without padding. The
  decoder is the one Go has, not a strict one: it skips carriage returns and line feeds, and it
  ignores the unused low bits of the last character. Both make several texts decode to the same
  bytes, which matters for the signatures of the device cookie.
\<close>

section \<open>The alphabet\<close>

definition b64_char :: "nat \<Rightarrow> char" where
  "b64_char n =
     (if n < 26 then char_of (65 + n) else if n < 52 then char_of (71 + n)
      else if n < 62 then char_of (n - 4) else if n = 62 then CHR ''-'' else CHR ''_'')"

definition b64_val :: "char \<Rightarrow> nat option" where
  "b64_val c =
    (let b = byte_val c in
     if 65 \<le> b \<and> b \<le> 90 then Some (b - 65)
     else if 97 \<le> b \<and> b \<le> 122 then Some (b - 71)
     else if 48 \<le> b \<and> b \<le> 57 then Some (b + 4)
     else if b = 45 then Some 62
     else if b = 95 then Some 63
     else None)"

lemma b64_val_char [simp]: "n < 64 \<Longrightarrow> b64_val (b64_char n) = Some n"
  by (auto simp: b64_val_def b64_char_def Let_def)

definition line_break :: "char \<Rightarrow> bool" where
  "line_break c \<longleftrightarrow> byte_val c = 10 \<or> byte_val c = 13"

lemma b64_val_plain: "b64_val c \<noteq> None \<Longrightarrow> \<not> line_break c \<and> c \<noteq> CHR ''.''"
  by (auto simp: b64_val_def line_break_def Let_def)

lemma b64_char_plain: "n < 64 \<Longrightarrow> \<not> line_break (b64_char n) \<and> b64_char n \<noteq> CHR ''.''"
  by (rule b64_val_plain) simp

section \<open>Encoding and decoding\<close>

fun b64_encode :: "byte list \<Rightarrow> string" where
  "b64_encode [] = []"
| "b64_encode [x] = [b64_char (unat x div 4), b64_char (unat x mod 4 * 16)]"
| "b64_encode [x, y] =
     [b64_char (unat x div 4), b64_char (unat x mod 4 * 16 + unat y div 16),
      b64_char (unat y mod 16 * 4)]"
| "b64_encode (x # y # z # bs) =
     b64_char (unat x div 4) # b64_char (unat x mod 4 * 16 + unat y div 16)
     # b64_char (unat y mod 16 * 4 + unat z div 64) # b64_char (unat z mod 64) # b64_encode bs"

definition byte1 :: "nat \<Rightarrow> nat \<Rightarrow> byte" where
  "byte1 a b = word_of_nat (a * 4 + b div 16)"
definition byte2 :: "nat \<Rightarrow> nat \<Rightarrow> byte" where
  "byte2 b c = word_of_nat (b mod 16 * 16 + c div 4)"
definition byte3 :: "nat \<Rightarrow> nat \<Rightarrow> byte" where
  "byte3 c d = word_of_nat (c mod 4 * 64 + d)"

fun b64_quanta :: "string \<Rightarrow> byte list option" where
  "b64_quanta [] = Some []"
| "b64_quanta [a] = None"
| "b64_quanta [a, b] =
     (case (b64_val a, b64_val b) of (Some va, Some vb) \<Rightarrow> Some [byte1 va vb] | _ \<Rightarrow> None)"
| "b64_quanta [a, b, c] =
     (case (b64_val a, b64_val b, b64_val c) of
        (Some va, Some vb, Some vc) \<Rightarrow> Some [byte1 va vb, byte2 vb vc] | _ \<Rightarrow> None)"
| "b64_quanta (a # b # c # d # s) =
     (case (b64_val a, b64_val b, b64_val c, b64_val d) of
        (Some va, Some vb, Some vc, Some vd) \<Rightarrow>
          map_option (\<lambda>bs. byte1 va vb # byte2 vb vc # byte3 vc vd # bs) (b64_quanta s)
      | _ \<Rightarrow> None)"

definition b64_decode :: "string \<Rightarrow> byte list option" where
  "b64_decode s = b64_quanta (filter (\<lambda>c. \<not> line_break c) s)"

lemma b64_bytes:
  fixes x y z :: byte
  shows "byte1 (unat x div 4) (unat x mod 4 * 16 + unat y div 16) = x"
    and "byte1 (unat x div 4) (unat x mod 4 * 16) = x"
    and "byte2 (unat x mod 4 * 16 + unat y div 16) (unat y mod 16 * 4 + unat z div 64) = y"
    and "byte2 (unat x mod 4 * 16 + unat y div 16) (unat y mod 16 * 4) = y"
    and "byte3 (unat y mod 16 * 4 + unat z div 64) (unat z mod 64) = z"
proof -
  have y: "unat y div 16 < 16" and z: "unat z div 64 < 4"
    using unat_byte_less [of y] unat_byte_less [of z] by auto
  have 1: "unat x div 4 * 4 + (unat x mod 4 * 16 + unat y div 16) div 16 = unat x"
    using y by simp
  have 2: "(unat x mod 4 * 16 + unat y div 16) mod 16 * 16
             + (unat y mod 16 * 4 + unat z div 64) div 4 = unat y"
    using y z by simp
  have 3: "(unat y mod 16 * 4 + unat z div 64) mod 4 * 64 + unat z mod 64 = unat z"
    using z by simp
  show "byte1 (unat x div 4) (unat x mod 4 * 16 + unat y div 16) = x"
    unfolding byte1_def 1 by simp
  show "byte1 (unat x div 4) (unat x mod 4 * 16) = x"
    by (simp add: byte1_def)
  show "byte2 (unat x mod 4 * 16 + unat y div 16) (unat y mod 16 * 4 + unat z div 64) = y"
    unfolding byte2_def 2 by simp
  show "byte2 (unat x mod 4 * 16 + unat y div 16) (unat y mod 16 * 4) = y"
    using y by (simp add: byte2_def)
  show "byte3 (unat y mod 16 * 4 + unat z div 64) (unat z mod 64) = z"
    unfolding byte3_def 3 by simp
qed

lemma b64_index_bounds:
  fixes x y z :: byte
  shows "unat x div 4 < 64" and "unat x mod 4 * 16 + unat y div 16 < 64"
    and "unat y mod 16 * 4 + unat z div 64 < 64" and "unat z mod 64 < 64"
    and "unat x mod 4 * 16 < 64" and "unat y mod 16 * 4 < 64"
proof -
  have "unat x < 256" "unat y < 256" "unat z < 256" by (rule unat_byte_less)+
  moreover have "unat x mod 4 < 4" "unat y mod 16 < 16" by simp_all
  ultimately show "unat x div 4 < 64" and "unat x mod 4 * 16 + unat y div 16 < 64"
    and "unat y mod 16 * 4 + unat z div 64 < 64" and "unat z mod 64 < 64"
    and "unat x mod 4 * 16 < 64" and "unat y mod 16 * 4 < 64"
    by linarith+
qed

lemma b64_encode_plain: "c \<in> set (b64_encode bs) \<Longrightarrow> \<not> line_break c \<and> c \<noteq> CHR ''.''"
  by (induction bs rule: b64_encode.induct) (auto dest: b64_char_plain simp: b64_char_plain b64_index_bounds)

lemma b64_quanta_encode: "b64_quanta (b64_encode bs) = Some bs"
  by (induction bs rule: b64_encode.induct) (simp_all add: b64_index_bounds b64_bytes)

lemma b64_decode_encode: "b64_decode (b64_encode bs) = Some bs"
proof -
  have "filter (\<lambda>c. \<not> line_break c) (b64_encode bs) = b64_encode bs"
    by (simp add: filter_id_conv b64_encode_plain)
  then show ?thesis by (simp add: b64_decode_def b64_quanta_encode)
qed

lemma b64_encode_inject [simp]: "b64_encode bs = b64_encode cs \<longleftrightarrow> bs = cs"
  by (metis b64_decode_encode option.inject)

lemma length_b64_encode: "length (b64_encode bs) = (4 * length bs + 2) div 3"
  by (induction bs rule: b64_encode.induct) auto

text \<open>The decoder is not injective: the low bits of the last character do not count.\<close>

lemma b64_quanta_append4:
  "length s mod 4 = 0 \<Longrightarrow>
   b64_quanta (s @ t) = (case b64_quanta s of None \<Rightarrow> None | Some xs \<Rightarrow> map_option (append xs) (b64_quanta t))"
proof (cases "b64_quanta t")
  case None
  then show "length s mod 4 = 0 \<Longrightarrow> ?thesis"
    by (induction s rule: b64_quanta.induct) (auto split: option.splits)
next
  case (Some ys)
  then show "length s mod 4 = 0 \<Longrightarrow> ?thesis"
    by (induction s rule: b64_quanta.induct) (auto split: option.splits)
qed

lemma b64_quanta_last3:
  assumes "b64_val c = Some vc" and "b64_val c' = Some vc'" and "vc div 4 = vc' div 4"
  shows "b64_quanta [a, b, c] = b64_quanta [a, b, c']"
  using assms by (simp add: byte2_def split: option.split)

text \<open>A codec: what is encoded can be read back.\<close>

locale codec =
  fixes enc :: "byte list \<Rightarrow> string" and dec :: "string \<Rightarrow> byte list option"
  assumes dec_enc: "dec (enc bs) = Some bs"
begin

lemma enc_inject: "enc bs = enc cs \<longleftrightarrow> bs = cs"
  by (metis dec_enc option.inject)

end

interpretation hex: codec hex_encode hex_decode
  by unfold_locales (rule hex_decode_encode)

interpretation b64: codec b64_encode b64_decode
  by unfold_locales (rule b64_decode_encode)

end
