(* ===== verification/Domain.thy ===== *)
theory Domain
  imports Go_Encoding
begin

unbundle bit_operations_syntax

text \<open>
  The package internal/domain: the error values, polls and their options, the validation of a
  new poll and of a selection, UUIDs, and the records that votes and results are passed in.
\<close>

section \<open>Errors (errors.go)\<close>

datatype sentinel = ErrNotFound | ErrInvalidInput | ErrInvalidSelection | ErrInvalidTransition
  | ErrNotActive | ErrAlreadyFinalized | ErrTemporarilyUnavailable

text \<open>An \<open>error\<close> value: a sentinel itself, one wrapped by \<open>fmt.Errorf("%w: ...")\<close>, or an error
  of another package (a driver, the network), of which only the text is known.\<close>

datatype err = Sentinel sentinel | Wrapped sentinel string | Other string

fun errors_is :: "err \<Rightarrow> sentinel \<Rightarrow> bool" where
  "errors_is (Sentinel s) t = (s = t)"
| "errors_is (Wrapped s m) t = (s = t)"
| "errors_is (Other m) t = False"

fun sentinel_text :: "sentinel \<Rightarrow> string" where
  "sentinel_text ErrNotFound = ''not found''"
| "sentinel_text ErrInvalidInput = ''invalid input''"
| "sentinel_text ErrInvalidSelection = ''invalid selection''"
| "sentinel_text ErrInvalidTransition = ''invalid status transition''"
| "sentinel_text ErrNotActive = ''poll is not active''"
| "sentinel_text ErrAlreadyFinalized = ''poll is already finalized''"
| "sentinel_text ErrTemporarilyUnavailable = ''temporarily unavailable''"

fun err_text :: "err \<Rightarrow> string" where
  "err_text (Sentinel s) = sentinel_text s"
| "err_text (Wrapped s m) = sentinel_text s @ '': '' @ m"
| "err_text (Other m) = m"

section \<open>Polls (poll.go)\<close>

text \<open>\<open>PollType\<close> is a string in Go: any other text is \<open>OtherType\<close>.\<close>

datatype poll_type = SingleChoice | MultipleChoice | OtherType string
datatype poll_status = Draft | Active | Closed

record opt =
  opt_ID :: string
  opt_Text :: string
  opt_Position :: int

record poll =
  ID :: string
  Slug :: string
  Question :: string
  Type :: poll_type
  MaxChoices :: int
  Status :: poll_status
  StartsAt :: time
  EndsAt :: time
  CreatedAt :: time
  UpdatedAt :: time
  PublishedAt :: "time option"
  ClosedAt :: "time option"
  Options :: "opt list"

record create_poll =
  in_Question :: string
  in_Type :: poll_type
  in_MaxChoices :: int
  in_StartsAt :: time
  in_EndsAt :: time
  in_Options :: "string list"

definition option_text_ok :: "string \<Rightarrow> bool" where
  "option_text_ok t \<longleftrightarrow> (let n = rune_count (trim_space t) in 1 \<le> n \<and> n \<le> 200)"

definition Validate :: "create_poll \<Rightarrow> err option" where
  "Validate i =
    (let n = rune_count (trim_space (in_Question i)) in
     if n < 1 \<or> n > 500 then
       Some (Wrapped ErrInvalidInput ''question must contain 1 to 500 characters'')
     else if \<not> in_StartsAt i < in_EndsAt i then
       Some (Wrapped ErrInvalidInput ''starts_at must be before ends_at'')
     else if length (in_Options i) < 2 \<or> length (in_Options i) > 20 then
       Some (Wrapped ErrInvalidInput ''poll must contain 2 to 20 options'')
     else if \<not> list_all option_text_ok (in_Options i) then
       Some (Wrapped ErrInvalidInput ''option must contain 1 to 200 characters'')
     else (case in_Type i of
        SingleChoice \<Rightarrow>
          if in_MaxChoices i \<noteq> 1 then
            Some (Wrapped ErrInvalidInput ''single_choice requires max_choices=1'')
          else None
      | MultipleChoice \<Rightarrow>
          if in_MaxChoices i < 2 \<or> in_MaxChoices i > int (length (in_Options i)) then
            Some (Wrapped ErrInvalidInput
              ''multiple_choice max_choices must be between 2 and option count'')
          else None
      | OtherType _ \<Rightarrow> Some (Wrapped ErrInvalidInput ''unknown poll type'')))"

text \<open>The rules of a poll, stated once for a new poll and for a stored one.\<close>

definition choices_ok :: "poll_type \<Rightarrow> int \<Rightarrow> nat \<Rightarrow> bool" where
  "choices_ok ty m n \<longleftrightarrow>
     (ty = SingleChoice \<and> m = 1) \<or> (ty = MultipleChoice \<and> 2 \<le> m \<and> m \<le> int n)"

definition text_ok :: "nat \<Rightarrow> string \<Rightarrow> bool" where
  "text_ok k t \<longleftrightarrow> 1 \<le> rune_count t \<and> rune_count t \<le> k"

definition wf_poll :: "poll \<Rightarrow> bool" where
  "wf_poll p \<longleftrightarrow>
     text_ok 500 (Question p) \<and> StartsAt p < EndsAt p \<and>
     2 \<le> length (Options p) \<and> length (Options p) \<le> 20 \<and>
     (\<forall>x \<in> set (Options p). text_ok 200 (opt_Text x)) \<and>
     choices_ok (Type p) (MaxChoices p) (length (Options p))"

lemma Validate_None_iff:
  "Validate i = None \<longleftrightarrow>
     text_ok 500 (trim_space (in_Question i)) \<and> in_StartsAt i < in_EndsAt i \<and>
     2 \<le> length (in_Options i) \<and> length (in_Options i) \<le> 20 \<and>
     list_all (\<lambda>t. text_ok 200 (trim_space t)) (in_Options i) \<and>
     choices_ok (in_Type i) (in_MaxChoices i) (length (in_Options i))"
  by (auto simp: Validate_def Let_def text_ok_def choices_ok_def option_text_ok_def list_all_iff
      split: poll_type.splits)

lemma Validate_Some_is: "Validate i = Some e \<Longrightarrow> errors_is e ErrInvalidInput"
  by (auto simp: Validate_def Let_def split: if_splits poll_type.splits)

section \<open>UUIDs\<close>

definition IsUUID :: "string \<Rightarrow> bool" where
  "IsUUID s \<longleftrightarrow>
     length s = 36 \<and> s ! 8 = CHR ''-'' \<and> s ! 13 = CHR ''-'' \<and> s ! 18 = CHR ''-'' \<and> s ! 23 = CHR ''-'' \<and>
     hex_decode (remove_byte (CHR ''-'') s) \<noteq> None"

definition uuid_stamp :: "byte list \<Rightarrow> byte list" where
  "uuid_stamp b = b[6 := (b ! 6 AND 0x0f) OR 0x40, 8 := (b ! 8 AND 0x3f) OR 0x80]"

definition slice :: "'a list \<Rightarrow> nat \<Rightarrow> nat \<Rightarrow> 'a list" where
  "slice xs i j = take (j - i) (drop i xs)"

definition uuid_text :: "byte list \<Rightarrow> string" where
  "uuid_text b = hex_encode (slice b 0 4) @ ''-'' @ hex_encode (slice b 4 6) @ ''-''
     @ hex_encode (slice b 6 8) @ ''-'' @ hex_encode (slice b 8 10) @ ''-'' @ hex_encode (slice b 10 16)"

text \<open>The argument is what \<open>rand.Read\<close> filled the 16-byte array with, \<open>None\<close> when it failed.\<close>

definition NewUUID :: "byte list option \<Rightarrow> err + string" where
  "NewUUID rnd =
     (case rnd of None \<Rightarrow> Inl (Other ''rand: read failed'')
      | Some b \<Rightarrow> Inr (uuid_text (uuid_stamp b)))"

text \<open>The text form of RFC 4122, lower case: what \<open>NewUUID\<close> prints and PostgreSQL returns.\<close>

definition is_lower_hex :: "char \<Rightarrow> bool" where
  "is_lower_hex c \<longleftrightarrow> is_hex c \<and> \<not> (65 \<le> byte_val c \<and> byte_val c \<le> 70)"

definition canonical_uuid :: "string \<Rightarrow> bool" where
  "canonical_uuid s \<longleftrightarrow> length s = 36 \<and>
     (\<forall>i \<in> set [0..<36]. if i \<in> {8, 13, 18, 23} then s ! i = CHR ''-'' else is_lower_hex (s ! i))"

lemma length16E:
  assumes "length b = (16 :: nat)"
  obtains b0 b1 b2 b3 b4 b5 b6 b7 b8 b9 b10 b11 b12 b13 b14 b15
  where "b = [b0, b1, b2, b3, b4, b5, b6, b7, b8, b9, b10, b11, b12, b13, b14, b15]"
  using assms by (auto simp: numeral_eq_Suc length_Suc_conv)

lemma slice_16:
  "slice [b0, b1, b2, b3, b4, b5, b6, b7, b8, b9, b10, b11, b12, b13, b14, b15] 0 4 = [b0, b1, b2, b3]"
  "slice [b0, b1, b2, b3, b4, b5, b6, b7, b8, b9, b10, b11, b12, b13, b14, b15] 4 6 = [b4, b5]"
  "slice [b0, b1, b2, b3, b4, b5, b6, b7, b8, b9, b10, b11, b12, b13, b14, b15] 6 8 = [b6, b7]"
  "slice [b0, b1, b2, b3, b4, b5, b6, b7, b8, b9, b10, b11, b12, b13, b14, b15] 8 10 = [b8, b9]"
  "slice [b0, b1, b2, b3, b4, b5, b6, b7, b8, b9, b10, b11, b12, b13, b14, b15] 10 16 =
     [b10, b11, b12, b13, b14, b15]"
  by (simp_all add: slice_def)

lemma length_uuid_stamp [simp]: "length (uuid_stamp b) = length b"
  by (simp add: uuid_stamp_def)

lemma length_uuid_text: "length b = 16 \<Longrightarrow> length (uuid_text b) = 36"
  by (simp add: uuid_text_def slice_def)

lemma hex_char_lower: "d < 16 \<Longrightarrow> is_lower_hex (hex_char d)"
proof -
  have "\<forall>d < 16. is_lower_hex (hex_char d)"
    unfolding all_less_16 by (simp add: is_lower_hex_def is_hex_def from_hex_def hex_char_def)
  then show "d < 16 \<Longrightarrow> is_lower_hex (hex_char d)" by blast
qed

lemma unat_nibbles: "unat (b :: byte) div 16 < 16" "unat (b :: byte) mod 16 < 16"
  using unat_byte_less [of b] by auto

lemma hex_char_not_dash [simp]: "d < 16 \<Longrightarrow> hex_char d \<noteq> CHR ''-''"
  using is_hex_not_sep [of "hex_char d"] by (simp add: is_hex_def)

lemma remove_dashes_uuid_text:
  assumes "length b = 16"
  shows "remove_byte (CHR ''-'') (uuid_text b) = hex_encode b"
proof -
  have id: "remove_byte (CHR ''-'') (hex_encode xs) = hex_encode xs" for xs
    by (auto simp: remove_byte_def filter_id_conv dest!: hex_encode_is_hex is_hex_not_sep)
  have ap: "remove_byte (CHR ''-'') (xs @ ys) = remove_byte (CHR ''-'') xs @ remove_byte (CHR ''-'') ys" for xs ys
    by (simp add: remove_byte_def)
  have "b = slice b 0 4 @ slice b 4 6 @ slice b 6 8 @ slice b 8 10 @ slice b 10 16"
    using assms by (rule length16E) (simp add: slice_16)
  then have "hex_encode b = hex_encode (slice b 0 4) @ hex_encode (slice b 4 6) @ hex_encode (slice b 6 8)
      @ hex_encode (slice b 8 10) @ hex_encode (slice b 10 16)"
    by (metis hex_encode_append)
  then show ?thesis
    unfolding uuid_text_def ap id by (simp add: remove_byte_def)
qed

lemma canonical_uuid_text:
  assumes "length b = 16"
  shows "canonical_uuid (uuid_text b)"
  using assms
proof (rule length16E)
  fix b0 b1 b2 b3 b4 b5 b6 b7 b8 b9 b10 b11 b12 b13 b14 b15
  assume b: "b = [b0, b1, b2, b3, b4, b5, b6, b7, b8, b9, b10, b11, b12, b13, b14, b15]"
  show ?thesis
    unfolding b canonical_uuid_def uuid_text_def slice_16
    by (simp add: hex_encode_Cons hex_char_lower unat_nibbles upt_rec)
qed


lemma canonical_uuidE:
  assumes "canonical_uuid s"
  obtains g1 g2 g3 g4 g5 where
    "s = g1 @ ''-'' @ g2 @ ''-'' @ g3 @ ''-'' @ g4 @ ''-'' @ g5"
    "length g1 = 8" "length g2 = 4" "length g3 = 4" "length g4 = 4" "length g5 = 12"
    "\<forall>c \<in> set (g1 @ g2 @ g3 @ g4 @ g5). is_lower_hex c"
proof -
  have len: "length s = 36"
    and d: "s ! 8 = CHR ''-''" "s ! 13 = CHR ''-''" "s ! 18 = CHR ''-''" "s ! 23 = CHR ''-''"
    using assms by (auto simp: canonical_uuid_def)
  have h: "is_lower_hex (s ! i)" if "i < 36" "i \<notin> {8, 13, 18, 23}" for i
    using assms that by (auto simp: canonical_uuid_def split: if_splits)
  have seg: "\<forall>c \<in> set (slice s i j). is_lower_hex c"
    if "j \<le> 36" "{i..<j} \<inter> {8, 13, 18, 23} = {}" for i j
  proof
    fix c assume "c \<in> set (slice s i j)"
    then obtain k where k: "k < j - i" "k < length s - i" "c = s ! (i + k)"
      by (auto simp: slice_def in_set_conv_nth)
    then have "i + k \<in> {i..<j}" by auto
    with that have "i + k < 36" "i + k \<notin> {8, 13, 18, 23}" by auto
    with h k show "is_lower_hex c" by blast
  qed
  have cut: "drop i s = slice s i j @ drop j s" if "i \<le> j" for i j
    using that by (metis append_take_drop_id drop_drop le_add_diff_inverse2 slice_def)
  have at: "drop i s = s ! i # drop (Suc i) s" if "i < 36" for i
    using that len by (simp add: Cons_nth_drop_Suc)
  have "s = slice s 0 8 @ drop 8 s" using cut [of 0 8] by simp
  also have "drop 8 s = ''-'' @ drop 9 s" using at [of 8] d by simp
  also have "drop 9 s = slice s 9 13 @ drop 13 s" using cut [of 9 13] by simp
  also have "drop 13 s = ''-'' @ drop 14 s" using at [of 13] d by simp
  also have "drop 14 s = slice s 14 18 @ drop 18 s" using cut [of 14 18] by simp
  also have "drop 18 s = ''-'' @ drop 19 s" using at [of 18] d by simp
  also have "drop 19 s = slice s 19 23 @ drop 23 s" using cut [of 19 23] by simp
  also have "drop 23 s = ''-'' @ drop 24 s" using at [of 23] d by simp
  also have "drop 24 s = slice s 24 36" using cut [of 24 36] len by simp
  finally have "s = slice s 0 8 @ ''-'' @ slice s 9 13 @ ''-'' @ slice s 14 18 @ ''-'' @
      slice s 19 23 @ ''-'' @ slice s 24 36" by simp
  from this show thesis
  proof (rule that)
    show "\<forall>c \<in> set (slice s 0 8 @ slice s 9 13 @ slice s 14 18 @ slice s 19 23 @ slice s 24 36).
        is_lower_hex c"
      using seg [of 8 0] seg [of 13 9] seg [of 18 14] seg [of 23 19] seg [of 36 24] by auto
  qed (simp_all add: slice_def len)
qed

lemma is_lower_hex_is_hex: "is_lower_hex c \<Longrightarrow> is_hex c"
  by (simp add: is_lower_hex_def)

lemma canonical_IsUUID:
  assumes "canonical_uuid s"
  shows "IsUUID s"
proof -
  have len: "length s = 36"
    and d: "s ! 8 = CHR ''-''" "s ! 13 = CHR ''-''" "s ! 18 = CHR ''-''" "s ! 23 = CHR ''-''"
    using assms by (auto simp: canonical_uuid_def)
  obtain g1 g2 g3 g4 g5 where s: "s = g1 @ ''-'' @ g2 @ ''-'' @ g3 @ ''-'' @ g4 @ ''-'' @ g5"
    and l: "length g1 = 8" "length g2 = 4" "length g3 = 4" "length g4 = 4" "length g5 = 12"
    and h: "\<forall>c \<in> set (g1 @ g2 @ g3 @ g4 @ g5). is_lower_hex c"
    using assms by (rule canonical_uuidE)
  let ?g = "g1 @ g2 @ g3 @ g4 @ g5"
  have "remove_byte (CHR ''-'') s = filter (\<lambda>c. c \<noteq> CHR ''-'') ?g"
    by (simp add: s remove_byte_def)
  also have "\<dots> = ?g"
    using h by (auto simp: filter_id_conv simp del: filter_append dest: is_hex_not_sep is_lower_hex_is_hex)
  finally have "hex_decode (remove_byte (CHR ''-'') s) \<noteq> None"
    using h l by (simp only: hex_decode_eq_None_iff) (auto dest: is_lower_hex_is_hex)
  with len d show ?thesis by (simp add: IsUUID_def)
qed

lemma version_nibble: "hex_char (unat ((b AND 0x0f) OR 0x40 :: byte) div 16) = CHR ''4''"
proof -
  have "drop_bit 4 ((b AND 0x0f) OR 0x40) = (4 :: byte)"
    by (simp add: drop_bit_or drop_bit_and)
  then have "unat ((b AND 0x0f) OR 0x40 :: byte) div 16 = 4"
    using unat_drop_bit_eq [of 4 "(b AND 0x0f) OR 0x40 :: byte"] by (simp add: drop_bit_eq_div)
  then show ?thesis by (simp add: hex_char_def)
qed

lemma variant_nibble: "hex_char (unat ((b AND 0x3f) OR 0x80 :: byte) div 16) \<in> set ''89ab''"
proof -
  let ?y = "drop_bit 4 b AND 3 :: byte"
  have "drop_bit 4 ((b AND 0x3f) OR 0x80) = ?y OR 8"
    by (simp add: drop_bit_or drop_bit_and)
  then have d: "unat ((b AND 0x3f) OR 0x80 :: byte) div 16 = unat (?y OR 8)"
    using unat_drop_bit_eq [of 4 "(b AND 0x3f) OR 0x80 :: byte"] by (simp add: drop_bit_eq_div)
  have "?y \<le> 3" by (rule word_and_le1)
  then have "unat ?y < 4" by (simp add: word_le_nat_alt)
  then consider "unat ?y = 0" | "unat ?y = 1" | "unat ?y = 2" | "unat ?y = 3" by linarith
  then have "unat (?y OR 8) \<in> {8, 9, 10, 11}"
  proof cases
    case 1 then have "?y = 0" by (simp add: unat_eq_0) then show ?thesis by simp
  next
    case 2 then have "?y = 1" by (metis unat_1 word_unat_eq_iff) then show ?thesis by simp
  next
    case 3 then have "?y = 2" by (simp add: word_unat_eq_iff) then show ?thesis by simp
  next
    case 4 then have "?y = 3" by (simp add: word_unat_eq_iff) then show ?thesis by simp
  qed
  then show ?thesis unfolding d by (auto simp: hex_char_def)
qed

lemma uuid_text_inject:
  assumes "length b = 16" and "length c = 16"
  shows "uuid_text b = uuid_text c \<longleftrightarrow> b = c"
  using assms remove_dashes_uuid_text by (metis hex_encode_inject)

section \<open>Selections\<close>

text \<open>The loop of \<open>ValidateSelection\<close>, with the maps \<open>valid\<close> and \<open>seen\<close> as sets.\<close>

fun check_ids :: "string set \<Rightarrow> string set \<Rightarrow> string list \<Rightarrow> err option" where
  "check_ids valid seen [] = None"
| "check_ids valid seen (i # ids) =
     (if \<not> IsUUID i then Some (Sentinel ErrInvalidSelection)
      else if i \<in> seen then Some (Sentinel ErrInvalidSelection)
      else if i \<notin> valid then Some (Sentinel ErrInvalidSelection)
      else check_ids valid (insert i seen) ids)"

definition ValidateSelection :: "poll \<Rightarrow> string list \<Rightarrow> err option" where
  "ValidateSelection p ids =
    (if length ids = 0 \<or> int (length ids) > MaxChoices p \<or> (Type p = SingleChoice \<and> length ids \<noteq> 1)
     then Some (Sentinel ErrInvalidSelection)
     else check_ids (set (map opt_ID (Options p))) {} ids)"

lemma check_ids_None_iff:
  "check_ids valid seen ids = None \<longleftrightarrow>
     list_all IsUUID ids \<and> distinct ids \<and> set ids \<inter> seen = {} \<and> set ids \<subseteq> valid"
  by (induction ids arbitrary: seen) auto

lemma check_ids_result: "check_ids valid seen ids \<in> {None, Some (Sentinel ErrInvalidSelection)}"
  by (induction ids arbitrary: seen) auto

lemma ValidateSelection_result:
  "ValidateSelection p ids \<in> {None, Some (Sentinel ErrInvalidSelection)}"
  using check_ids_result by (simp add: ValidateSelection_def)

lemma ValidateSelection_None_iff:
  "ValidateSelection p ids = None \<longleftrightarrow>
     ids \<noteq> [] \<and> int (length ids) \<le> MaxChoices p \<and> (Type p = SingleChoice \<longrightarrow> length ids = 1) \<and>
     list_all IsUUID ids \<and> distinct ids \<and> set ids \<subseteq> opt_ID ` set (Options p)"
  by (auto simp: ValidateSelection_def check_ids_None_iff)

section \<open>Votes and results (vote.go)\<close>

datatype vote_status = VoteRecorded | VoteAlreadyRecorded

record vote_command =
  vc_PollID :: string
  vc_DeviceHash :: string
  vc_OptionIDs :: "string list"
  vc_EndsAt :: time

text \<open>A Go \<open>map[string]int64\<close>; reading a missing key gives 0.\<close>

definition map_get :: "(string \<rightharpoonup> int) \<Rightarrow> string \<Rightarrow> int" where
  "map_get m k = (case m k of None \<Rightarrow> 0 | Some n \<Rightarrow> n)"

lemma map_get_upd [simp]: "map_get (m(k \<mapsto> v)) k' = (if k' = k then v else map_get m k')"
  by (simp add: map_get_def)

record totals =
  tot_Participants :: int
  tot_Options :: "string \<rightharpoonup> int"
  tot_AsOf :: time

datatype result_source = redis_live | postgres_snapshot | postgres_final

record poll_result =
  res_PollID :: string
  res_Status :: poll_status
  res_Source :: result_source
  res_AsOf :: time
  res_FinalizedAt :: "time option"
  res_Participants :: int
  res_Options :: "string \<rightharpoonup> int"

section \<open>Properties\<close>

text \<open>C13. A new poll is accepted exactly when its trimmed question has 1 to 500 characters, it
  starts before it ends, it has 2 to 20 options of 1 to 200 trimmed characters, and its type
  and its maximum of choices agree; every refusal is an \<open>ErrInvalidInput\<close>.\<close>

theorem Validate_accepts_exactly_the_rules:
  "(Validate i = None \<longleftrightarrow>
     rune_count (trim_space (in_Question i)) \<in> {1..500} \<and> in_StartsAt i < in_EndsAt i \<and>
     length (in_Options i) \<in> {2..20} \<and>
     list_all (\<lambda>t. rune_count (trim_space t) \<in> {1..200}) (in_Options i) \<and>
     (in_Type i = SingleChoice \<and> in_MaxChoices i = 1 \<or>
      in_Type i = MultipleChoice \<and> in_MaxChoices i \<in> {2..int (length (in_Options i))})) \<and>
   pred_option (\<lambda>e. errors_is e ErrInvalidInput) (Validate i)"
proof -
  have "pred_option (\<lambda>e. errors_is e ErrInvalidInput) (Validate i)"
    by (cases "Validate i") (auto dest: Validate_Some_is)
  then show ?thesis
    unfolding Validate_None_iff by (auto simp: text_ok_def choices_ok_def)
qed

text \<open>C14. A selection is accepted exactly when it is a non-empty set of UUIDs of options of the
  poll without repetition, at most \<open>MaxChoices\<close> of them, and one for a single choice; every
  refusal is \<open>ErrInvalidSelection\<close>.\<close>

theorem ValidateSelection_accepts_exactly_subsets:
  "(ValidateSelection p ids = None \<longleftrightarrow>
     (1 \<le> length ids \<and> int (length ids) \<le> MaxChoices p \<and>
      (if Type p = SingleChoice then length ids = 1 else True) \<and>
      card (set ids) = length ids \<and> set ids \<subseteq> {i \<in> opt_ID ` set (Options p). IsUUID i})) \<and>
   ValidateSelection p ids \<in> {None, Some (Sentinel ErrInvalidSelection)}"
proof -
  have "distinct ids \<longleftrightarrow> card (set ids) = length ids"
    by (auto simp: distinct_card dest: card_distinct)
  then show ?thesis
    using ValidateSelection_result
    by (auto simp: ValidateSelection_None_iff list_all_iff Suc_le_eq)
qed

text \<open>A new UUID is canonical text that \<open>IsUUID\<close> accepts, of version 4 and of the RFC 4122
  variant, and it determines all 122 random bits: two of them are equal only if the random
  bytes agree outside the six stamped bits.\<close>

theorem NewUUID_version4_and_injective:
  assumes "length b = 16" and "length c = 16"
  shows "\<exists>u v. NewUUID (Some b) = Inr u \<and> NewUUID (Some c) = Inr v \<and>
     canonical_uuid u \<and> IsUUID u \<and> u ! 14 = CHR ''4'' \<and> u ! 19 \<in> set ''89ab'' \<and>
     (u = v \<longleftrightarrow> uuid_stamp b = uuid_stamp c)"
proof -
  have "uuid_text (uuid_stamp b) ! 14 = CHR ''4'' \<and> uuid_text (uuid_stamp b) ! 19 \<in> set ''89ab''"
    using assms(1)
  proof (rule length16E)
    fix b0 b1 b2 b3 b4 b5 b6 b7 b8 b9 b10 b11 b12 b13 b14 b15
    assume b: "b = [b0, b1, b2, b3, b4, b5, b6, b7, b8, b9, b10, b11, b12, b13, b14, b15]"
    show ?thesis
      unfolding b uuid_stamp_def uuid_text_def
      using version_nibble [of b6] variant_nibble [of b8] by (simp add: slice_16 hex_encode_Cons)
  qed
  with assms show ?thesis
    by (simp add: NewUUID_def canonical_uuid_text canonical_IsUUID uuid_text_inject)
qed

theorem NewUUID_version4_and_injective_witness:
  "\<exists>u v. NewUUID (Some (replicate 16 0)) = Inr u \<and> NewUUID (Some (replicate 16 1)) = Inr v \<and> u \<noteq> v"
proof -
  have "uuid_stamp (replicate 16 0) \<noteq> uuid_stamp (replicate 16 1)" by code_simp
  then show ?thesis
    using NewUUID_version4_and_injective [of "replicate 16 0" "replicate 16 1"] by auto
qed

text \<open>\<open>IsUUID\<close> accepts every canonical UUID but is no test for one: it takes any run of dashes
  in the place of hexadecimal digits, as long as an even number of digits is left, down to none.\<close>

theorem IsUUID_accepts_dashes:
  "(canonical_uuid s \<longrightarrow> IsUUID s) \<and>
   IsUUID (replicate 36 (CHR ''-'')) \<and> \<not> canonical_uuid (replicate 36 (CHR ''-''))"
proof -
  have "remove_byte (CHR ''-'') (replicate 36 (CHR ''-'')) = []"
    by (simp add: remove_byte_def)
  then have "IsUUID (replicate 36 (CHR ''-''))" by (simp add: IsUUID_def)
  moreover have "\<not> canonical_uuid (replicate 36 (CHR ''-''))"
    by (auto simp: canonical_uuid_def is_lower_hex_def is_hex_def from_hex_def intro!: bexI [of _ 0])
  ultimately show ?thesis using canonical_IsUUID by blast
qed

theorem IsUUID_accepts_dashes_witness:
  "IsUUID ''00000000-0000-4000-8000-000000000000''"
proof -
  have "canonical_uuid ''00000000-0000-4000-8000-000000000000''" by code_simp
  then show ?thesis using IsUUID_accepts_dashes [of "''00000000-0000-4000-8000-000000000000''"] by simp
qed

end
