(* ===== verification/Postgres_Tables.thy ===== *)
theory Postgres_Tables
  imports Domain "HOL-Library.Product_Lexorder" "HOL-Library.List_Lexorder" "HOL-Library.Char_ord"
begin

text \<open>
  The schema of internal/postgres/migrations/001_init.sql and the SQL statements of the package
  internal/postgres: a table is its list of rows, a statement is a function on the tables that
  is refused when it would break a constraint of the schema. What the server and its driver do
  with a value on its way in is a parameter, \<open>pg\<close>: the precision of \<open>TIMESTAMPTZ\<close>, the text
  forms of a \<open>UUID\<close>, and the texts that the server takes.
\<close>

section \<open>The server\<close>

record pg =
  ts :: "time \<Rightarrow> time"
  uuid_in :: "string \<Rightarrow> string option"
  text_in :: "string \<Rightarrow> bool"

locale postgres_server =
  fixes D :: pg
  assumes ts_mono: "t \<le> u \<Longrightarrow> ts D t \<le> ts D u"
    and ts_micro: "t mod Microsecond = 0 \<Longrightarrow> ts D t = t"
    and ts_prec: "ts D t mod Microsecond = 0"
    and uuid_canonical: "canonical_uuid i \<Longrightarrow> uuid_in D i = Some i"
    and uuid_out: "uuid_in D s = Some i \<Longrightarrow> canonical_uuid i"
begin

lemma ts_idem [simp]: "ts D (ts D t) = ts D t"
  by (rule ts_micro [OF ts_prec])

lemma uuid_in_again: "uuid_in D s = Some u \<Longrightarrow> uuid_in D u = Some u"
  by (rule uuid_canonical [OF uuid_out])

end

text \<open>A server that truncates to microseconds, reads upper and lower case, and refuses a NUL.\<close>

definition to_lower :: "char \<Rightarrow> char" where
  "to_lower c = (if 65 \<le> byte_val c \<and> byte_val c \<le> 90 then char_of (byte_val c + 32) else c)"

definition Pg :: pg where
  "Pg = \<lparr>ts = (\<lambda>t. Prelude.truncate t Microsecond),
     uuid_in = (\<lambda>s. if canonical_uuid s then Some s
       else let l = map to_lower s in if canonical_uuid l then Some l else None),
     text_in = (\<lambda>s. CHR 0x00 \<notin> set s)\<rparr>"

interpretation pg: postgres_server Pg
proof
  show "ts Pg t \<le> ts Pg u" if "t \<le> u" for t u
    using that by (simp add: Pg_def truncate_mono Microsecond_def)
  show "ts Pg t = t" if "t mod Microsecond = 0" for t
    using that by (simp add: Pg_def Prelude.truncate_def)
  show "ts Pg t mod Microsecond = 0" for t
    by (simp add: Pg_def Prelude.truncate_def Microsecond_def minus_mod_eq_mult_div)
qed (auto simp: Pg_def Let_def split: if_splits)

section \<open>Rows and tables\<close>

record poll_row =
  pr_id :: string
  pr_slug :: string
  pr_question :: string
  pr_poll_type :: poll_type
  pr_max_choices :: int
  pr_vote_buckets :: int
  pr_status :: poll_status
  pr_starts_at :: time
  pr_ends_at :: time
  pr_created_at :: time
  pr_updated_at :: time
  pr_published_at :: "time option"
  pr_closed_at :: "time option"

record option_row =
  or_id :: string
  or_poll_id :: string
  or_text :: string
  or_position :: int

record result_row =
  rr_poll_id :: string
  rr_participants_count :: int
  rr_captured_at :: time
  rr_finalized_at :: "time option"

record option_result_row =
  xr_poll_id :: string
  xr_option_id :: string
  xr_vote_count :: int
  xr_captured_at :: time

record db =
  polls :: "poll_row list"
  poll_options :: "option_row list"
  poll_runtime_results :: "result_row list"
  poll_option_results :: "option_result_row list"

definition empty_db :: db where
  "empty_db = \<lparr>polls = [], poll_options = [], poll_runtime_results = [], poll_option_results = []\<rparr>"

section \<open>Constraints of the schema\<close>

definition poll_check :: "poll_row \<Rightarrow> bool" where
  "poll_check r \<longleftrightarrow>
     1 \<le> rune_count (pr_question r) \<and> rune_count (pr_question r) \<le> 500 \<and>
     pr_poll_type r \<in> {SingleChoice, MultipleChoice} \<and>
     1 \<le> pr_max_choices r \<and> pr_max_choices r \<le> 20 \<and>
     1 \<le> pr_vote_buckets r \<and> pr_vote_buckets r \<le> 4096 \<and>
     pr_starts_at r < pr_ends_at r"

definition option_check :: "option_row \<Rightarrow> bool" where
  "option_check x \<longleftrightarrow> 1 \<le> rune_count (or_text x) \<and> rune_count (or_text x) \<le> 200 \<and> 0 \<le> or_position x"

definition result_check :: "result_row \<Rightarrow> bool" where
  "result_check r \<longleftrightarrow> 0 \<le> rr_participants_count r"

definition option_result_check :: "option_result_row \<Rightarrow> bool" where
  "option_result_check x \<longleftrightarrow> 0 \<le> xr_vote_count x"

definition xr_key :: "option_result_row \<Rightarrow> string \<times> string" where
  "xr_key x = (xr_poll_id x, xr_option_id x)"

definition db_ok :: "db \<Rightarrow> bool" where
  "db_ok d \<longleftrightarrow>
     distinct (map pr_id (polls d)) \<and> distinct (map pr_slug (polls d)) \<and>
     list_all poll_check (polls d) \<and>
     distinct (map or_id (poll_options d)) \<and>
     distinct (map (\<lambda>x. (or_poll_id x, or_position x)) (poll_options d)) \<and>
     list_all option_check (poll_options d) \<and>
     or_poll_id ` set (poll_options d) \<subseteq> pr_id ` set (polls d) \<and>
     distinct (map rr_poll_id (poll_runtime_results d)) \<and>
     list_all result_check (poll_runtime_results d) \<and>
     rr_poll_id ` set (poll_runtime_results d) \<subseteq> pr_id ` set (polls d) \<and>
     distinct (map xr_key (poll_option_results d)) \<and>
     list_all option_result_check (poll_option_results d) \<and>
     xr_poll_id ` set (poll_option_results d) \<subseteq> pr_id ` set (polls d) \<and>
     xr_option_id ` set (poll_option_results d) \<subseteq> or_id ` set (poll_options d)"

section \<open>Statements that change tables\<close>

text \<open>\<open>None\<close> is an error of the statement: a constraint would not hold.\<close>

definition insert_poll :: "poll_row \<Rightarrow> db \<Rightarrow> db option" where
  "insert_poll r d =
     (if poll_check r \<and> pr_id r \<notin> pr_id ` set (polls d) \<and> pr_slug r \<notin> pr_slug ` set (polls d)
      then Some (d\<lparr>polls := polls d @ [r]\<rparr>) else None)"

definition insert_option :: "option_row \<Rightarrow> db \<Rightarrow> db option" where
  "insert_option x d =
     (if option_check x \<and> or_id x \<notin> or_id ` set (poll_options d) \<and>
         (or_poll_id x, or_position x) \<notin> (\<lambda>y. (or_poll_id y, or_position y)) ` set (poll_options d) \<and>
         or_poll_id x \<in> pr_id ` set (polls d)
      then Some (d\<lparr>poll_options := poll_options d @ [x]\<rparr>) else None)"

text \<open>\<open>UPDATE polls SET ... WHERE ...\<close>, with the number of rows that it changed.\<close>

definition update_polls :: "(poll_row \<Rightarrow> bool) \<Rightarrow> (poll_row \<Rightarrow> poll_row) \<Rightarrow> db \<Rightarrow> (db \<times> nat) option" where
  "update_polls P f d =
     (let rows = map (\<lambda>r. if P r then f r else r) (polls d)
      in if list_all poll_check rows
         then Some (d\<lparr>polls := rows\<rparr>, length (filter P (polls d))) else None)"

text \<open>\<open>INSERT ... ON CONFLICT(key) DO UPDATE SET ... WHERE newer old\<close>.\<close>

definition upsert :: "('a \<Rightarrow> 'k) \<Rightarrow> ('a \<Rightarrow> bool) \<Rightarrow> 'a \<Rightarrow> 'a list \<Rightarrow> 'a list" where
  "upsert key newer x rows =
     (if key x \<in> key ` set rows
      then map (\<lambda>y. if key y = key x \<and> newer y then x else y) rows
      else rows @ [x])"

definition upsert_result :: "result_row \<Rightarrow> db \<Rightarrow> db option" where
  "upsert_result x d =
     (if result_check x \<and> rr_poll_id x \<in> pr_id ` set (polls d)
      then Some (d\<lparr>poll_runtime_results :=
        upsert rr_poll_id (\<lambda>y. rr_finalized_at y = None \<and> rr_captured_at y \<le> rr_captured_at x) x
          (poll_runtime_results d)\<rparr>)
      else None)"

definition upsert_option_result :: "option_result_row \<Rightarrow> db \<Rightarrow> db option" where
  "upsert_option_result x d =
     (if option_result_check x \<and> xr_poll_id x \<in> pr_id ` set (polls d) \<and>
         xr_option_id x \<in> or_id ` set (poll_options d)
      then Some (d\<lparr>poll_option_results :=
        upsert xr_key (\<lambda>y. xr_captured_at y \<le> xr_captured_at x) x (poll_option_results d)\<rparr>)
      else None)"

section \<open>Statements and the constraints\<close>

lemma upsert_keys:
  "key ` set (upsert key newer x rows) = insert (key x) (key ` set rows)"
  "distinct (map key rows) \<Longrightarrow> distinct (map key (upsert key newer x rows))"
proof -
  have m: "map key (map (\<lambda>y. if key y = key x \<and> newer y then x else y) rows) = map key rows"
    by (simp add: o_def)
  from m [THEN arg_cong, of set] show "key ` set (upsert key newer x rows) = insert (key x) (key ` set rows)"
    by (auto simp: upsert_def insert_absorb simp del: map_map)
  show "distinct (map key (upsert key newer x rows))" if "distinct (map key rows)"
  proof (cases "key x \<in> key ` set rows")
    case True
    then show ?thesis using that unfolding upsert_def by (simp only: if_True m)
  next
    case False
    then show ?thesis using that by (simp add: upsert_def)
  qed
qed

lemma set_upsert: "set (upsert key newer x rows) \<subseteq> insert x (set rows)"
  by (auto simp: upsert_def)

lemma find_upsert:
  assumes "k = key x"
  shows "find (\<lambda>y. key y = k) (upsert key newer x rows) =
    (case find (\<lambda>y. key y = k) rows of None \<Rightarrow> Some x | Some y \<Rightarrow> Some (if newer y then x else y))"
  using assms
proof (induction rows)
  case Nil
  then show ?case by (simp add: upsert_def)
next
  case (Cons y rows)
  show ?case
  proof (cases "key y = key x")
    case True
    then show ?thesis using Cons.prems by (auto simp: upsert_def)
  next
    case False
    then show ?thesis using Cons by (auto simp: upsert_def split: if_splits option.splits)
  qed
qed

lemma find_upsert_other:
  assumes "k \<noteq> key x"
  shows "find (\<lambda>y. key y = k) (upsert key newer x rows) = find (\<lambda>y. key y = k) rows"
proof (cases "key x \<in> key ` set rows")
  case False
  then show ?thesis using assms by (simp add: upsert_def find_append split: option.split)
next
  case True
  have "find (\<lambda>y. key y = k) (map (\<lambda>y. if key y = key x \<and> newer y then x else y) rows) = find (\<lambda>y. key y = k) rows"
    using assms by (induction rows) auto
  with True show ?thesis by (simp add: upsert_def)
qed

lemma db_ok_empty: "db_ok empty_db"
  by (simp add: db_ok_def empty_db_def)

lemma db_ok_insert_poll:
  assumes "insert_poll r d = Some d'" and "db_ok d"
  shows "db_ok d'"
proof -
  have "d' = d\<lparr>polls := polls d @ [r]\<rparr>" and "poll_check r" "pr_id r \<notin> pr_id ` set (polls d)"
      "pr_slug r \<notin> pr_slug ` set (polls d)"
    using assms(1) by (auto simp: insert_poll_def split: if_splits)
  with assms(2) show ?thesis by (simp add: db_ok_def subset_insertI2)
qed

lemma db_ok_insert_option:
  assumes "insert_option x d = Some d'" and "db_ok d"
  shows "db_ok d'"
proof -
  have "d' = d\<lparr>poll_options := poll_options d @ [x]\<rparr>" and "option_check x" "or_id x \<notin> or_id ` set (poll_options d)"
      "(or_poll_id x, or_position x) \<notin> (\<lambda>y. (or_poll_id y, or_position y)) ` set (poll_options d)"
      "or_poll_id x \<in> pr_id ` set (polls d)"
    using assms(1) by (auto simp only: insert_option_def split: if_splits)
  with assms(2) show ?thesis by (simp add: db_ok_def subset_insertI2)
qed

lemma db_ok_polls:
  assumes "db_ok d" and "map pr_id rows = map pr_id (polls d)" and "map pr_slug rows = map pr_slug (polls d)"
    and "list_all poll_check rows"
  shows "db_ok (d\<lparr>polls := rows\<rparr>)"
proof -
  have "pr_id ` set rows = pr_id ` set (polls d)" by (metis assms(2) set_map)
  with assms show ?thesis by (simp add: db_ok_def)
qed

lemma db_ok_update_polls:
  assumes "update_polls P f d = Some (d', n)" and "db_ok d"
    and "\<And>r. pr_id (f r) = pr_id r" and "\<And>r. pr_slug (f r) = pr_slug r"
  shows "db_ok d'"
proof -
  let ?rows = "map (\<lambda>r. if P r then f r else r) (polls d)"
  have "d' = d\<lparr>polls := ?rows\<rparr>" and "list_all poll_check ?rows"
    using assms(1) by (auto simp: update_polls_def Let_def split: if_splits)
  moreover have "map pr_id ?rows = map pr_id (polls d)" and "map pr_slug ?rows = map pr_slug (polls d)"
    using assms(3,4) by auto
  ultimately show ?thesis using db_ok_polls [OF assms(2)] by blast
qed

lemma db_ok_upsert_result: "upsert_result x d = Some d' \<Longrightarrow> db_ok d \<Longrightarrow> db_ok d'"
proof -
  assume u: "upsert_result x d = Some d'" and ok: "db_ok d"
  let ?rows = "upsert rr_poll_id (\<lambda>y. rr_finalized_at y = None \<and> rr_captured_at y \<le> rr_captured_at x) x
    (poll_runtime_results d)"
  have d': "d' = d\<lparr>poll_runtime_results := ?rows\<rparr>" and x: "result_check x"
      "rr_poll_id x \<in> pr_id ` set (polls d)"
    using u by (auto simp: upsert_result_def split: if_splits)
  have "set ?rows \<subseteq> insert x (set (poll_runtime_results d))" by (rule set_upsert)
  then have "list_all result_check ?rows" using ok x(1) by (auto simp: db_ok_def list_all_iff)
  moreover have "rr_poll_id ` set ?rows \<subseteq> pr_id ` set (polls d)"
    using ok x(2) by (simp add: db_ok_def upsert_keys(1))
  moreover have "distinct (map rr_poll_id ?rows)"
    by (rule upsert_keys(2)) (use ok in \<open>simp add: db_ok_def\<close>)
  ultimately show "db_ok d'" using ok by (simp add: d' db_ok_def)
qed

lemma db_ok_upsert_option_result: "upsert_option_result x d = Some d' \<Longrightarrow> db_ok d \<Longrightarrow> db_ok d'"
proof -
  assume u: "upsert_option_result x d = Some d'" and ok: "db_ok d"
  let ?rows = "upsert xr_key (\<lambda>y. xr_captured_at y \<le> xr_captured_at x) x (poll_option_results d)"
  have d': "d' = d\<lparr>poll_option_results := ?rows\<rparr>" and x: "option_result_check x"
      "xr_poll_id x \<in> pr_id ` set (polls d)" "xr_option_id x \<in> or_id ` set (poll_options d)"
    using u by (auto simp: upsert_option_result_def split: if_splits)
  have "set ?rows \<subseteq> insert x (set (poll_option_results d))" by (rule set_upsert)
  then have sub: "f ` set ?rows \<subseteq> insert (f x) (f ` set (poll_option_results d))" for f :: "option_result_row \<Rightarrow> string"
    by auto
  have "xr_poll_id ` set ?rows \<subseteq> pr_id ` set (polls d)"
    using order_trans [OF sub] ok x(2) by (simp add: db_ok_def)
  moreover have "xr_option_id ` set ?rows \<subseteq> or_id ` set (poll_options d)"
    using order_trans [OF sub] ok x(3) by (simp add: db_ok_def)
  moreover have "list_all option_result_check ?rows"
    using set_upsert [of xr_key _ x "poll_option_results d"] ok x(1) by (fastforce simp: db_ok_def list_all_iff)
  moreover have "distinct (map xr_key ?rows)"
    by (rule upsert_keys(2)) (use ok in \<open>simp add: db_ok_def\<close>)
  ultimately show "db_ok d'" using ok by (simp add: d' db_ok_def)
qed

end
