(* ===== verification/Postgres_Repo.thy ===== *)
theory Postgres_Repo
  imports Postgres_Tables
begin

text \<open>
  The operations of \<open>PollRepository\<close> (internal/postgres/polls.go and results.go). A transaction
  works on its own copy of the tables and becomes visible when it commits; the row lock that
  every one of them takes on its poll (or its single UPDATE) makes it atomic for that poll.
  Every call to the server can fail: the argument \<open>f\<close> says which. Between the commit of an
  operation and the read that follows it other transactions may commit: the argument \<open>mid\<close> is
  what they did.
\<close>

section \<open>Calls and their failures\<close>

datatype db_call = BeginTx | SelectStatus | SelectFinal | InsertPoll | InsertOption nat | UpdatePoll
  | UpsertResult | UpsertOption nat | Commit | QueryPoll | QueryActive | QueryResult | QueryOptions
  | QueryCount | QueryRecent

type_synonym faults = "db_call \<Rightarrow> outcome"

definition no_faults :: faults where
  "no_faults c = Done"

definition db_error :: err where
  "db_error = Other ''postgres: call failed''"

text \<open>The end of a transaction that turned \<open>d\<close> into \<open>d'\<close>: what is visible, and whether \<open>Commit\<close>
  returned without an error. After any other error the deferred \<open>Rollback\<close> leaves \<open>d\<close>.\<close>

definition commit :: "faults \<Rightarrow> db \<Rightarrow> db \<Rightarrow> db \<times> bool" where
  "commit f d d' =
     (case f Commit of Done \<Rightarrow> (d', True) | Lost \<Rightarrow> (d, False) | ReplyLost \<Rightarrow> (d', False))"

text \<open>\<open>BeginTx\<close>, the statements of the transaction, \<open>Commit\<close>.\<close>

definition run_tx :: "faults \<Rightarrow> (db \<Rightarrow> err + 'a \<times> db) \<Rightarrow> db \<Rightarrow> db \<times> (err + 'a)" where
  "run_tx f body d =
     (if f BeginTx \<noteq> Done then (d, Inl db_error)
      else (case body d of
         Inl e \<Rightarrow> (d, Inl e)
       | Inr (x, d1) \<Rightarrow> (let (d2, done) = commit f d d1 in (d2, if done then Inr x else Inl db_error))))"

text \<open>\<open>if err != nil { return err }\<close>.\<close>

definition and_then :: "err + 'a \<Rightarrow> ('a \<Rightarrow> err + 'b) \<Rightarrow> err + 'b" where
  "and_then x k = (case x of Inl e \<Rightarrow> Inl e | Inr y \<Rightarrow> k y)"

text \<open>The result of a statement, which fails at the link or on the server.\<close>

definition stmt :: "faults \<Rightarrow> db_call \<Rightarrow> 'a option \<Rightarrow> err + 'a" where
  "stmt f q x = (if f q \<noteq> Done then Inl db_error else case x of None \<Rightarrow> Inl db_error | Some y \<Rightarrow> Inr y)"

record repo =
  server :: pg
  vote_buckets :: int

section \<open>Reading polls\<close>

definition option_of_row :: "option_row \<Rightarrow> opt" where
  "option_of_row x = \<lparr>opt_ID = or_id x, opt_Text = or_text x, opt_Position = or_position x\<rparr>"

definition poll_of_row :: "poll_row \<Rightarrow> opt list \<Rightarrow> poll" where
  "poll_of_row r os =
     \<lparr>ID = pr_id r, Slug = pr_slug r, Question = pr_question r, Type = pr_poll_type r,
      MaxChoices = pr_max_choices r, Status = pr_status r, StartsAt = pr_starts_at r,
      EndsAt = pr_ends_at r, CreatedAt = pr_created_at r, UpdatedAt = pr_updated_at r,
      PublishedAt = pr_published_at r, ClosedAt = pr_closed_at r, Options = os\<rparr>"

text \<open>\<open>var p domain.Poll\<close>.\<close>

definition zero_poll :: poll where
  "zero_poll = \<lparr>ID = '''', Slug = '''', Question = '''', Type = OtherType '''', MaxChoices = 0,
     Status = Draft, StartsAt = 0, EndsAt = 0, CreatedAt = 0, UpdatedAt = 0, PublishedAt = None,
     ClosedAt = None, Options = []\<rparr>"

text \<open>\<open>polls p JOIN poll_options o ON o.poll_id=p.id WHERE ... ORDER BY o.position\<close>.\<close>

definition join_polls :: "(poll_row \<Rightarrow> bool) \<Rightarrow> db \<Rightarrow> (poll_row \<times> option_row) list" where
  "join_polls P d = sort_key (\<lambda>(r, x). or_position x)
     [(r, x). r \<leftarrow> filter P (polls d), x \<leftarrow> filter (\<lambda>x. or_poll_id x = pr_id r) (poll_options d)]"

text \<open>The loop of \<open>get\<close>: every row overwrites the fields of \<open>p\<close> and appends an option.\<close>

fun scan_poll :: "poll \<Rightarrow> (poll_row \<times> option_row) list \<Rightarrow> poll" where
  "scan_poll p [] = p"
| "scan_poll p ((r, x) # rows) = scan_poll (poll_of_row r (Options p @ [option_of_row x])) rows"

definition get :: "faults \<Rightarrow> (poll_row \<Rightarrow> bool) \<Rightarrow> db \<Rightarrow> err + poll" where
  "get f P d =
     (if f QueryPoll \<noteq> Done then Inl db_error
      else let p = scan_poll zero_poll (join_polls P d)
           in if ID p = '''' then Inl (Sentinel ErrNotFound) else Inr p)"

text \<open>An argument that is no UUID, or no text that the server takes, is an error of the statement.\<close>

definition GetByID :: "repo \<Rightarrow> faults \<Rightarrow> string \<Rightarrow> db \<Rightarrow> err + poll" where
  "GetByID c f i d =
     (case uuid_in (server c) i of None \<Rightarrow> Inl db_error
      | Some u \<Rightarrow> get f (\<lambda>r. pr_id r = u) d)"

definition GetBySlug :: "repo \<Rightarrow> faults \<Rightarrow> string \<Rightarrow> db \<Rightarrow> err + poll" where
  "GetBySlug c f s d =
     (if \<not> text_in (server c) s then Inl db_error else get f (\<lambda>r. pr_slug r = s) d)"

text \<open>The subquery of \<open>ListRecent\<close>: newest first, ties by descending id, at most \<open>limit\<close> rows; then
  the rows of the join and the loop that groups consecutive rows of one poll.\<close>

definition newest_first :: "poll_row list \<Rightarrow> poll_row list" where
  "newest_first rs = rev (sort_key (\<lambda>r. (pr_created_at r, pr_id r)) rs)"

definition recent_rows :: "nat \<Rightarrow> db \<Rightarrow> (poll_row \<times> option_row) list" where
  "recent_rows limit d =
     [(r, x). r \<leftarrow> take limit (newest_first (polls d)),
              x \<leftarrow> sort_key or_position (filter (\<lambda>x. or_poll_id x = pr_id r) (poll_options d))]"

fun group_polls :: "poll list \<Rightarrow> (poll_row \<times> option_row) list \<Rightarrow> poll list" where
  "group_polls ps [] = ps"
| "group_polls ps ((r, x) # rows) =
     (let ps1 = (if ps = [] \<or> ID (last ps) \<noteq> pr_id r then ps @ [poll_of_row r []] else ps);
          p = last ps1
      in group_polls (butlast ps1 @ [p\<lparr>Options := Options p @ [option_of_row x]\<rparr>]) rows)"

definition ListRecent :: "repo \<Rightarrow> faults \<Rightarrow> nat \<Rightarrow> db \<Rightarrow> err + poll list" where
  "ListRecent c f limit d =
     (if f QueryRecent \<noteq> Done then Inl db_error else Inr (group_polls [] (recent_rows limit d)))"

section \<open>Creating a poll\<close>

definition poll_slug :: "string \<Rightarrow> string" where
  "poll_slug i = ''poll-'' @ take 8 (remove_byte (CHR ''-'') i)"

definition poll_row_of :: "repo \<Rightarrow> poll \<Rightarrow> string \<Rightarrow> time \<Rightarrow> poll_row" where
  "poll_row_of c p u now =
     \<lparr>pr_id = u, pr_slug = Slug p, pr_question = Question p, pr_poll_type = Type p,
      pr_max_choices = MaxChoices p, pr_vote_buckets = vote_buckets c, pr_status = Status p,
      pr_starts_at = ts (server c) (StartsAt p), pr_ends_at = ts (server c) (EndsAt p),
      pr_created_at = ts (server c) now, pr_updated_at = ts (server c) now,
      pr_published_at = None, pr_closed_at = None\<rparr>"

definition text_arg :: "repo \<Rightarrow> string \<Rightarrow> string option" where
  "text_arg c s = (if text_in (server c) s then Some s else None)"

definition insert_new_poll :: "repo \<Rightarrow> poll \<Rightarrow> time \<Rightarrow> db \<Rightarrow> db option" where
  "insert_new_poll c p now d =
     (case (uuid_in (server c) (ID p), text_arg c (Slug p), text_arg c (Question p)) of
        (Some u, Some _, Some _) \<Rightarrow> insert_poll (poll_row_of c p u now) d
      | _ \<Rightarrow> None)"

definition insert_new_option :: "repo \<Rightarrow> string \<Rightarrow> opt \<Rightarrow> db \<Rightarrow> db option" where
  "insert_new_option c pid x d =
     (case (uuid_in (server c) (opt_ID x), uuid_in (server c) pid, text_arg c (opt_Text x)) of
        (Some u, Some v, Some _) \<Rightarrow>
          insert_option \<lparr>or_id = u, or_poll_id = v, or_text = opt_Text x, or_position = opt_Position x\<rparr> d
      | _ \<Rightarrow> None)"

text \<open>The loop over the option texts; \<open>rnd k\<close> is what the k-th call of \<open>rand.Read\<close> yields.\<close>

fun insert_options ::
  "repo \<Rightarrow> faults \<Rightarrow> (nat \<Rightarrow> byte list option) \<Rightarrow> nat \<Rightarrow> string list \<Rightarrow> poll \<Rightarrow> db \<Rightarrow> err + poll \<times> db" where
  "insert_options c f rnd i [] p d = Inr (p, d)"
| "insert_options c f rnd i (text # texts) p d =
     and_then (NewUUID (rnd (Suc i))) (\<lambda>oid.
       let x = \<lparr>opt_ID = oid, opt_Text = trim_space text, opt_Position = int i\<rparr> in
       and_then (stmt f (InsertOption i) (insert_new_option c (ID p) x d)) (\<lambda>d'.
         insert_options c f rnd (Suc i) texts (p\<lparr>Options := Options p @ [x]\<rparr>) d'))"

definition new_poll :: "string \<Rightarrow> create_poll \<Rightarrow> time \<Rightarrow> poll" where
  "new_poll i input now =
     \<lparr>ID = i, Slug = poll_slug i, Question = trim_space (in_Question input), Type = in_Type input,
      MaxChoices = in_MaxChoices input, Status = Draft, StartsAt = in_StartsAt input,
      EndsAt = in_EndsAt input, CreatedAt = now, UpdatedAt = now, PublishedAt = None,
      ClosedAt = None, Options = []\<rparr>"

definition create_tx ::
  "repo \<Rightarrow> faults \<Rightarrow> (nat \<Rightarrow> byte list option) \<Rightarrow> time \<Rightarrow> create_poll \<Rightarrow> poll \<Rightarrow> db \<Rightarrow> err + poll \<times> db" where
  "create_tx c f rnd now input p d =
     and_then (stmt f InsertPoll (insert_new_poll c p now d)) (\<lambda>d1.
       insert_options c f rnd 0 (in_Options input) p d1)"

definition Create ::
  "repo \<Rightarrow> faults \<Rightarrow> (nat \<Rightarrow> byte list option) \<Rightarrow> time \<Rightarrow> create_poll \<Rightarrow> db \<Rightarrow> db \<times> (err + poll)" where
  "Create c f rnd now input d =
     (case Validate input of
        Some e \<Rightarrow> (d, Inl e)
      | None \<Rightarrow>
        (case NewUUID (rnd 0) of
           Inl e \<Rightarrow> (d, Inl e)
         | Inr i \<Rightarrow> run_tx f (create_tx c f rnd now input (new_poll i input now)) d))"

section \<open>Publishing\<close>

definition set_active :: "repo \<Rightarrow> time \<Rightarrow> poll_row \<Rightarrow> poll_row" where
  "set_active c now r = r\<lparr>pr_status := Active, pr_published_at := Some (ts (server c) now),
     pr_updated_at := ts (server c) now, pr_vote_buckets := vote_buckets c\<rparr>"

text \<open>\<open>SELECT status FROM polls WHERE id=$1 FOR UPDATE\<close>.\<close>

definition select_status :: "repo \<Rightarrow> faults \<Rightarrow> string \<Rightarrow> db \<Rightarrow> err + poll_status" where
  "select_status c f i d =
     and_then (stmt f SelectStatus (uuid_in (server c) i)) (\<lambda>u.
       case find (\<lambda>r. pr_id r = u) (polls d) of
         None \<Rightarrow> Inl (Sentinel ErrNotFound) | Some r \<Rightarrow> Inr (pr_status r))"

definition by_id :: "repo \<Rightarrow> string \<Rightarrow> poll_row \<Rightarrow> bool" where
  "by_id c i r \<longleftrightarrow> uuid_in (server c) i = Some (pr_id r)"

text \<open>The statements of the transaction of \<open>Publish\<close>; then the read that follows it.\<close>

definition publish_tx :: "repo \<Rightarrow> faults \<Rightarrow> string \<Rightarrow> time \<Rightarrow> db \<Rightarrow> err + unit \<times> db" where
  "publish_tx c f i now d =
     and_then (select_status c f i d) (\<lambda>status.
       if status = Active then Inr ((), d)
       else if status \<noteq> Draft then Inl (Sentinel ErrInvalidTransition)
       else and_then (stmt f UpdatePoll (update_polls (by_id c i) (set_active c now) d)) (\<lambda>(d1, n). Inr ((), d1)))"

definition Publish :: "repo \<Rightarrow> faults \<Rightarrow> (db \<Rightarrow> db) \<Rightarrow> string \<Rightarrow> time \<Rightarrow> db \<Rightarrow> db \<times> (err + poll)" where
  "Publish c f mid i now d =
     (case run_tx f (publish_tx c f i now) d of
        (d', Inl e) \<Rightarrow> (d', Inl e)
      | (d', Inr _) \<Rightarrow> (mid d', GetByID c f i (mid d')))"

definition ValidateActiveBuckets :: "repo \<Rightarrow> faults \<Rightarrow> db \<Rightarrow> err option" where
  "ValidateActiveBuckets c f d =
     (if f QueryCount \<noteq> Done then Some db_error else
      let n = length (filter (\<lambda>r. pr_status r = Active \<and> pr_vote_buckets r \<noteq> vote_buckets c) (polls d))
      in if n > 0 then Some (Other (itoa (int n) @ '' active polls use a different VOTE_BUCKETS value''))
         else None)"

definition set_draft :: "repo \<Rightarrow> time \<Rightarrow> poll_row \<Rightarrow> poll_row" where
  "set_draft c snow r = r\<lparr>pr_status := Draft, pr_published_at := None, pr_updated_at := ts (server c) snow\<rparr>"

text \<open>\<open>snow\<close> is \<open>now()\<close> of the server. The UPDATE is its own transaction.\<close>

definition published_by :: "repo \<Rightarrow> string \<Rightarrow> time \<Rightarrow> poll_row \<Rightarrow> bool" where
  "published_by c i publishedAt r \<longleftrightarrow>
     by_id c i r \<and> pr_status r = Active \<and> pr_published_at r = Some (ts (server c) publishedAt)"

definition RevertPublish :: "repo \<Rightarrow> faults \<Rightarrow> time \<Rightarrow> string \<Rightarrow> time \<Rightarrow> db \<Rightarrow> db \<times> err option" where
  "RevertPublish c f snow i publishedAt d =
     (if uuid_in (server c) i = None then (d, Some db_error)
      else (case update_polls (published_by c i publishedAt) (set_draft c snow) d of
        None \<Rightarrow> (d, Some db_error)
      | Some (d', n) \<Rightarrow>
        (case f UpdatePoll of
           Lost \<Rightarrow> (d, Some db_error)
         | ReplyLost \<Rightarrow> (d', Some db_error)
         | Done \<Rightarrow> (d', if n = 0 then Some (Wrapped ErrInvalidTransition ''publish compensation'') else None))))"

text \<open>The reads of \<open>ListActive\<close> after the first one see what others did in between: \<open>mid k\<close> before the
  k-th.\<close>

fun load_polls :: "repo \<Rightarrow> faults \<Rightarrow> (nat \<Rightarrow> db \<Rightarrow> db) \<Rightarrow> nat \<Rightarrow> string list \<Rightarrow> db \<Rightarrow> db \<times> (err + poll list)" where
  "load_polls c f mid k [] d = (d, Inr [])"
| "load_polls c f mid k (i # is) d =
     (let d1 = mid k d in
      case GetByID c f i d1 of
        Inl e \<Rightarrow> (d1, Inl e)
      | Inr p \<Rightarrow> (case load_polls c f mid (Suc k) is d1 of
          (d2, Inl e) \<Rightarrow> (d2, Inl e) | (d2, Inr ps) \<Rightarrow> (d2, Inr (p # ps))))"

definition ListActive :: "repo \<Rightarrow> faults \<Rightarrow> (nat \<Rightarrow> db \<Rightarrow> db) \<Rightarrow> db \<Rightarrow> db \<times> (err + poll list)" where
  "ListActive c f mid d =
     (if f QueryActive \<noteq> Done then (d, Inl db_error)
      else load_polls c f mid 0 (map pr_id (filter (\<lambda>r. pr_status r = Active) (polls d))) d)"

section \<open>Results\<close>

text \<open>The two queries of \<open>LoadResult\<close> are no transaction: others may commit between them.\<close>

definition result_head :: "repo \<Rightarrow> string \<Rightarrow> db \<Rightarrow> err + poll_result" where
  "result_head c i d =
     (case (find (by_id c i) (polls d),
            find (\<lambda>r. uuid_in (server c) i = Some (rr_poll_id r)) (poll_runtime_results d)) of
        (Some p, Some r) \<Rightarrow> Inr
          \<lparr>res_PollID = pr_id p, res_Status = pr_status p,
           res_Source = (if rr_finalized_at r = None then postgres_snapshot else postgres_final),
           res_AsOf = rr_captured_at r, res_FinalizedAt = rr_finalized_at r,
           res_Participants = rr_participants_count r, res_Options = Map.empty\<rparr>
      | _ \<Rightarrow> Inl (Sentinel ErrNotFound))"

definition result_options :: "repo \<Rightarrow> string \<Rightarrow> db \<Rightarrow> (string \<rightharpoonup> int)" where
  "result_options c i d = map_of (map (\<lambda>x. (xr_option_id x, xr_vote_count x))
     (filter (\<lambda>x. uuid_in (server c) i = Some (xr_poll_id x)) (poll_option_results d)))"

definition LoadResult :: "repo \<Rightarrow> faults \<Rightarrow> (db \<Rightarrow> db) \<Rightarrow> string \<Rightarrow> db \<Rightarrow> db \<times> (err + poll_result)" where
  "LoadResult c f mid i d =
     (case and_then (stmt f QueryResult (uuid_in (server c) i)) (\<lambda>_. result_head c i d) of
        Inl e \<Rightarrow> (d, Inl e)
      | Inr r \<Rightarrow>
        let d' = mid d in
        (d', if f QueryOptions \<noteq> Done then Inl db_error
             else Inr (r\<lparr>res_Options := result_options c i d'\<rparr>)))"

definition result_row_of :: "repo \<Rightarrow> string \<Rightarrow> totals \<Rightarrow> bool \<Rightarrow> result_row" where
  "result_row_of c u t finalized =
     \<lparr>rr_poll_id = u, rr_participants_count = tot_Participants t, rr_captured_at = ts (server c) (tot_AsOf t),
      rr_finalized_at = (if finalized then Some (ts (server c) (tot_AsOf t)) else None)\<rparr>"

definition save_result :: "repo \<Rightarrow> string \<Rightarrow> totals \<Rightarrow> bool \<Rightarrow> db \<Rightarrow> db option" where
  "save_result c pid t finalized d =
     (case uuid_in (server c) pid of None \<Rightarrow> None
      | Some u \<Rightarrow> upsert_result (result_row_of c u t finalized) d)"

definition save_option :: "repo \<Rightarrow> string \<Rightarrow> totals \<Rightarrow> opt \<Rightarrow> db \<Rightarrow> db option" where
  "save_option c pid t x d =
     (case (uuid_in (server c) pid, uuid_in (server c) (opt_ID x)) of
        (Some u, Some v) \<Rightarrow> upsert_option_result
          \<lparr>xr_poll_id = u, xr_option_id = v, xr_vote_count = map_get (tot_Options t) (opt_ID x),
           xr_captured_at = ts (server c) (tot_AsOf t)\<rparr> d
      | _ \<Rightarrow> None)"

fun save_options :: "repo \<Rightarrow> faults \<Rightarrow> string \<Rightarrow> totals \<Rightarrow> nat \<Rightarrow> opt list \<Rightarrow> db \<Rightarrow> err + db" where
  "save_options c f pid t i [] d = Inr d"
| "save_options c f pid t i (x # xs) d =
     and_then (stmt f (UpsertOption i) (save_option c pid t x d)) (save_options c f pid t (Suc i) xs)"

text \<open>\<open>closed_at=COALESCE(closed_at,$2)\<close>.\<close>

definition set_closed :: "repo \<Rightarrow> time \<Rightarrow> poll_row \<Rightarrow> poll_row" where
  "set_closed c asOf r = r\<lparr>pr_status := Closed,
     pr_closed_at := (case pr_closed_at r of None \<Rightarrow> Some (ts (server c) asOf) | Some t \<Rightarrow> Some t),
     pr_updated_at := ts (server c) asOf\<rparr>"

definition existing_final :: "repo \<Rightarrow> string \<Rightarrow> db \<Rightarrow> time option" where
  "existing_final c i d =
     (case find (\<lambda>r. uuid_in (server c) i = Some (rr_poll_id r)) (poll_runtime_results d) of
        None \<Rightarrow> None | Some r \<Rightarrow> rr_finalized_at r)"

definition close_row :: "repo \<Rightarrow> faults \<Rightarrow> poll_status \<Rightarrow> string \<Rightarrow> time \<Rightarrow> db \<Rightarrow> err + db" where
  "close_row c f status pid asOf d =
     (if status \<noteq> Active \<and> status \<noteq> Closed then Inl (Sentinel ErrInvalidTransition)
      else and_then (stmt f UpdatePoll (update_polls (by_id c pid) (set_closed c asOf) d)) (\<lambda>(d', n). Inr d'))"

definition save_tx :: "repo \<Rightarrow> faults \<Rightarrow> poll \<Rightarrow> totals \<Rightarrow> bool \<Rightarrow> db \<Rightarrow> err + unit \<times> db" where
  "save_tx c f p t finalized d =
     and_then (select_status c f (ID p) d) (\<lambda>status.
     and_then (stmt f SelectFinal (Some (existing_final c (ID p) d))) (\<lambda>existing.
       if existing \<noteq> None then Inr ((), d)
       else
         and_then (stmt f UpsertResult (save_result c (ID p) t finalized d)) (\<lambda>d1.
         and_then (save_options c f (ID p) t 0 (Options p) d1) (\<lambda>d2.
         and_then (if finalized then close_row c f status (ID p) (tot_AsOf t) d2 else Inr d2) (\<lambda>d3.
           Inr ((), d3))))))"

text \<open>What others do before the read that follows the commit, and between its two queries.\<close>

definition SaveSnapshot ::
  "repo \<Rightarrow> faults \<Rightarrow> (nat \<Rightarrow> db \<Rightarrow> db) \<Rightarrow> poll \<Rightarrow> totals \<Rightarrow> bool \<Rightarrow> db \<Rightarrow> db \<times> (err + poll_result)" where
  "SaveSnapshot c f mid p t finalized d =
     (case run_tx f (save_tx c f p t finalized) d of
        (d', Inl e) \<Rightarrow> (d', Inl e)
      | (d', Inr _) \<Rightarrow> LoadResult c f (mid 1) (ID p) (mid 0 d'))"

end
