(* ===== verification/Postgres_Invariant.thy ===== *)
theory Postgres_Invariant
  imports Postgres_Repo
begin

text \<open>
  The invariant of the tables and what every write of the repository keeps of it: the
  constraints of the schema, and beyond them what the code promises - every poll obeys the rules
  of the domain, its timestamps agree with its status, and its stored result belongs to one
  instant.
\<close>

section \<open>What a transaction leaves\<close>

lemma commit_state: "fst (commit f d d') \<in> {d, d'}"
  by (simp add: commit_def split: outcome.split)

lemma run_tx_cases:
  "fst (run_tx f body d) = d \<or> (\<exists>x d1. body d = Inr (x, d1) \<and> fst (run_tx f body d) = d1)"
proof (cases "f BeginTx = Done")
  case False
  then show ?thesis by (simp add: run_tx_def)
next
  case True
  show ?thesis
  proof (cases "body d")
    case (Inl e)
    with True show ?thesis by (simp add: run_tx_def)
  next
    case (Inr z)
    with True commit_state [of f d "snd z"] show ?thesis
      by (cases z) (auto simp: run_tx_def split_beta Let_def)
  qed
qed

lemma run_tx_Inr:
  "snd (run_tx f body d) = Inr x \<Longrightarrow> \<exists>d1. body d = Inr (x, d1) \<and> fst (run_tx f body d) = d1"
  by (auto simp: run_tx_def commit_def split_beta Let_def split: sum.splits if_splits outcome.splits)

lemma and_then_Inr: "and_then x k = Inr y \<longleftrightarrow> (\<exists>z. x = Inr z \<and> k z = Inr y)"
  by (simp add: and_then_def split: sum.split)

lemma stmt_Inr: "stmt f q x = Inr y \<longleftrightarrow> f q = Done \<and> x = Some y"
  by (auto simp: stmt_def split: option.split)

section \<open>Reading a poll\<close>

definition options_of :: "db \<Rightarrow> string \<Rightarrow> opt list" where
  "options_of d u = map option_of_row (sort_key or_position (filter (\<lambda>x. or_poll_id x = u) (poll_options d)))"

lemma insort_key_map: "insort_key f (g x) (map g xs) = map g (insort_key (\<lambda>y. f (g y)) x xs)"
  by (induction xs) auto

lemma sort_key_map: "sort_key f (map g xs) = map g (sort_key (\<lambda>x. f (g x)) xs)"
  by (induction xs) (simp_all add: insort_key_map)

lemma scan_poll_map:
  "scan_poll p (map (Pair r) xs) = (if xs = [] then p else poll_of_row r (Options p @ map option_of_row xs))"
proof (induction xs arbitrary: p)
  case Nil
  then show ?case by simp
next
  case (Cons x xs)
  then show ?case by (simp add: poll_of_row_def)
qed

lemma get_one:
  assumes "filter P (polls d) = [r]"
  shows "get f P d = (if f QueryPoll \<noteq> Done then Inl db_error
    else if options_of d (pr_id r) = [] \<or> pr_id r = '''' then Inl (Sentinel ErrNotFound)
    else Inr (poll_of_row r (options_of d (pr_id r))))"
proof -
  have "join_polls P d = map (Pair r) (sort_key or_position (filter (\<lambda>x. or_poll_id x = pr_id r) (poll_options d)))"
    by (simp add: join_polls_def assms sort_key_map)
  then show ?thesis
    by (simp add: get_def scan_poll_map Let_def options_of_def zero_poll_def poll_of_row_def)
qed

lemma get_none: "filter P (polls d) = [] \<Longrightarrow> f QueryPoll = Done \<Longrightarrow> get f P d = Inl (Sentinel ErrNotFound)"
  by (simp add: get_def join_polls_def zero_poll_def)

lemma polls_by_id:
  assumes "db_ok d" and "r \<in> set (polls d)"
  shows "filter (\<lambda>x. pr_id x = pr_id r) (polls d) = [r]" and "find (\<lambda>x. pr_id x = pr_id r) (polls d) = Some r"
    and "filter (\<lambda>x. pr_slug x = pr_slug r) (polls d) = [r]"
  using assms filter_key_distinct [of pr_id "polls d" r] find_distinct_key [of pr_id "polls d" r]
    filter_key_distinct [of pr_slug "polls d" r] by (simp_all add: db_ok_def)

section \<open>The invariant\<close>

text \<open>The timestamps of a poll agree with its status.\<close>

definition status_ok :: "poll_row \<Rightarrow> bool" where
  "status_ok r \<longleftrightarrow> (case pr_status r of
      Draft \<Rightarrow> pr_published_at r = None \<and> pr_closed_at r = None
    | Active \<Rightarrow> pr_published_at r \<noteq> None \<and> pr_closed_at r = None
    | Closed \<Rightarrow> pr_published_at r \<noteq> None \<and> pr_closed_at r \<noteq> None)"

definition row_ok :: "db \<Rightarrow> poll_row \<Rightarrow> bool" where
  "row_ok d r \<longleftrightarrow> canonical_uuid (pr_id r) \<and> status_ok r \<and>
     wf_poll (poll_of_row r (options_of d (pr_id r)))"

text \<open>The stored result of a poll is of one instant: its option rows are those of the poll's options,
  captured with the totals; a final result belongs to a closed poll.\<close>

definition result_ok :: "db \<Rightarrow> result_row \<Rightarrow> bool" where
  "result_ok d r \<longleftrightarrow>
     (\<forall>x \<in> set (poll_option_results d). xr_poll_id x = rr_poll_id r \<longrightarrow> xr_captured_at x = rr_captured_at r) \<and>
     xr_option_id ` {x \<in> set (poll_option_results d). xr_poll_id x = rr_poll_id r} =
       opt_ID ` set (options_of d (rr_poll_id r)) \<and>
     (rr_finalized_at r \<noteq> None \<longrightarrow> rr_finalized_at r = Some (rr_captured_at r) \<and>
        (\<exists>p \<in> set (polls d). pr_id p = rr_poll_id r \<and> pr_status p = Closed))"

definition db_inv :: "db \<Rightarrow> bool" where
  "db_inv d \<longleftrightarrow> db_ok d \<and> list_all (row_ok d) (polls d) \<and>
     list_all (\<lambda>x. canonical_uuid (or_id x)) (poll_options d) \<and>
     list_all (result_ok d) (poll_runtime_results d) \<and>
     xr_poll_id ` set (poll_option_results d) \<subseteq> rr_poll_id ` set (poll_runtime_results d)"

lemma db_inv_empty: "db_inv empty_db"
  using db_ok_empty by (simp add: db_inv_def empty_db_def)

lemma canonical_not_empty: "\<not> canonical_uuid ''''"
  by (simp add: canonical_uuid_def)

lemma get_stored:
  assumes "db_inv d" and "r \<in> set (polls d)" and "f QueryPoll = Done"
    and "P = (\<lambda>x. pr_id x = pr_id r) \<or> P = (\<lambda>x. pr_slug x = pr_slug r)"
  shows "get f P d = Inr (poll_of_row r (options_of d (pr_id r)))"
proof -
  have "row_ok d r" and ok: "db_ok d" using assms(1,2) by (auto simp: db_inv_def list_all_iff)
  then have "pr_id r \<noteq> ''''" and "options_of d (pr_id r) \<noteq> []"
    by (auto simp: row_ok_def canonical_not_empty wf_poll_def poll_of_row_def)
  moreover have "filter P (polls d) = [r]" using polls_by_id [OF ok assms(2)] assms(4) by auto
  ultimately show ?thesis using assms(3) by (simp add: get_one)
qed

section \<open>Writes\<close>

text \<open>Every write of the repository, with its arguments and its failures.\<close>

datatype db_write =
    W_create faults "nat \<Rightarrow> byte list option" time create_poll
  | W_publish faults string time
  | W_revert faults time string time
  | W_save faults poll totals bool

fun db_do :: "repo \<Rightarrow> db_write \<Rightarrow> db \<Rightarrow> db" where
  "db_do c (W_create f rnd now input) d = fst (Create c f rnd now input d)"
| "db_do c (W_publish f i now) d = fst (run_tx f (publish_tx c f i now) d)"
| "db_do c (W_revert f snow i t) d = fst (RevertPublish c f snow i t d)"
| "db_do c (W_save f p t fin) d = fst (run_tx f (save_tx c f p t fin) d)"

text \<open>What the callers give: 16 random bytes, and in \<open>SaveSnapshot\<close> a poll that was read from the
  tables, whose options never change.\<close>

fun write_ok :: "repo \<Rightarrow> db_write \<Rightarrow> db \<Rightarrow> bool" where
  "write_ok c (W_create f rnd now input) d = (\<forall>k b. rnd k = Some b \<longrightarrow> length b = 16)"
| "write_ok c (W_save f p t fin) d = (\<exists>r \<in> set (polls d). ID p = pr_id r \<and> Options p = options_of d (pr_id r))"
| "write_ok c w d = True"

text \<open>What any number of writes by any number of processes can lead to.\<close>

inductive evolves :: "repo \<Rightarrow> db \<Rightarrow> db \<Rightarrow> bool" for c d where
  none: "evolves c d d"
| more: "evolves c d d' \<Longrightarrow> write_ok c w d' \<Longrightarrow> evolves c d (db_do c w d')"

lemma evolves_trans: "evolves c d' d'' \<Longrightarrow> evolves c d d' \<Longrightarrow> evolves c d d''"
  by (induction rule: evolves.induct) (auto intro: evolves.intros)

lemma evolves_one: "write_ok c w d \<Longrightarrow> evolves c d (db_do c w d)"
  by (rule evolves.more [OF evolves.none])

section \<open>Creating a poll\<close>

definition option_row_of :: "string \<Rightarrow> opt \<Rightarrow> option_row" where
  "option_row_of u x = \<lparr>or_id = opt_ID x, or_poll_id = u, or_text = opt_Text x, or_position = opt_Position x\<rparr>"

lemma option_of_row_of [simp]: "option_of_row (option_row_of u x) = x"
  by (simp add: option_row_of_def option_of_row_def)

lemma NewUUID_canonical: "NewUUID r = Inr u \<Longrightarrow> \<forall>b. r = Some b \<longrightarrow> length b = 16 \<Longrightarrow> canonical_uuid u"
  by (auto simp: NewUUID_def canonical_uuid_text split: option.splits)

lemma filter_upt_position:
  assumes "map opt_Position xs = map int [i..<i + length xs]"
  shows "sort_key or_position (map (option_row_of u) xs) = map (option_row_of u) xs"
proof -
  have "sorted (map or_position (map (option_row_of u) xs))"
  proof -
    have "map or_position (map (option_row_of u) xs) = map int [i..<i + length xs]"
      using assms by (simp add: o_def option_row_of_def)
    then show ?thesis by (simp add: sorted_iff_nth_mono del: upt_Suc)
  qed
  then show ?thesis by (simp add: sorted_sort_id sort_key_id_if_sorted)
qed

lemma insert_new_option_Some:
  assumes "insert_new_option c pid x d = Some d'"
  shows "\<exists>u v. uuid_in (server c) (opt_ID x) = Some v \<and> uuid_in (server c) pid = Some u \<and>
    insert_option \<lparr>or_id = v, or_poll_id = u, or_text = opt_Text x, or_position = opt_Position x\<rparr> d = Some d'"
  using assms by (auto simp: insert_new_option_def split: option.splits)

lemma insert_option_Some:
  "insert_option x d = Some d' \<Longrightarrow> d' = d\<lparr>poll_options := poll_options d @ [x]\<rparr> \<and> option_check x"
  by (auto simp: insert_option_def split: if_splits)

context postgres_server
begin

lemma insert_options_Inr:
  assumes "D = server c" and "\<forall>k b. rnd k = Some b \<longrightarrow> length b = 16"
    and "insert_options c f rnd k texts p d = Inr (p', d')" and "canonical_uuid (ID p)"
  shows "\<exists>xs. p' = p\<lparr>Options := Options p @ xs\<rparr> \<and>
    d' = d\<lparr>poll_options := poll_options d @ map (option_row_of (ID p)) xs\<rparr> \<and>
    map opt_Text xs = map trim_space texts \<and> map opt_Position xs = map int [k..<k + length texts] \<and>
    (\<forall>x \<in> set xs. canonical_uuid (opt_ID x) \<and> option_check (option_row_of (ID p) x)) \<and>
    (db_ok d \<longrightarrow> db_ok d')"
  using assms(3,4)
proof (induction texts arbitrary: k p d)
  case Nil
  then show ?case by auto
next
  case (Cons w ws)
  obtain oid d1 where oid: "NewUUID (rnd (Suc k)) = Inr oid"
    and ins: "insert_new_option c (ID p) \<lparr>opt_ID = oid, opt_Text = trim_space w, opt_Position = int k\<rparr> d = Some d1"
    and rest: "insert_options c f rnd (Suc k) ws
      (p\<lparr>Options := Options p @ [\<lparr>opt_ID = oid, opt_Text = trim_space w, opt_Position = int k\<rparr>]\<rparr>) d1 = Inr (p', d')"
    using Cons.prems(1) by (auto simp: and_then_Inr stmt_Inr Let_def)
  let ?x = "\<lparr>opt_ID = oid, opt_Text = trim_space w, opt_Position = int k\<rparr>"
  have can: "canonical_uuid oid" using NewUUID_canonical [OF oid] assms(2) by blast
  have "insert_option (option_row_of (ID p) ?x) d = Some d1"
    using insert_new_option_Some [OF ins] uuid_canonical [OF can] uuid_canonical [OF Cons.prems(2)] assms(1)
    by (auto simp: option_row_of_def)
  note d1 = insert_option_Some [OF this] db_ok_insert_option [OF this]
  obtain xs where xs: "p' = p\<lparr>Options := (Options p @ [?x]) @ xs\<rparr>"
      "d' = d1\<lparr>poll_options := poll_options d1 @ map (option_row_of (ID p)) xs\<rparr>"
      "map opt_Text xs = map trim_space ws" "map opt_Position xs = map int [Suc k..<Suc k + length ws]"
      "\<forall>x \<in> set xs. canonical_uuid (opt_ID x) \<and> option_check (option_row_of (ID p) x)" "db_ok d1 \<longrightarrow> db_ok d'"
    using Cons.IH [OF rest] Cons.prems(2) by auto
  then show ?case
    using d1 can by (intro exI [of _ "?x # xs"]) (auto simp: upt_conv_Cons simp del: upt_Suc)
qed

lemma create_tx_Inr:
  assumes "D = server c" and "\<forall>k b. rnd k = Some b \<longrightarrow> length b = 16"
    and "create_tx c f rnd now input p d = Inr (p', d')" and "canonical_uuid (ID p)" and "Options p = []"
  shows "\<exists>xs. p' = p\<lparr>Options := xs\<rparr> \<and>
    d' = d\<lparr>polls := polls d @ [poll_row_of c p (ID p) now],
           poll_options := poll_options d @ map (option_row_of (ID p)) xs\<rparr> \<and>
    map opt_Text xs = map trim_space (in_Options input) \<and> map opt_Position xs = map int [0..<length xs] \<and>
    (\<forall>x \<in> set xs. canonical_uuid (opt_ID x) \<and> option_check (option_row_of (ID p) x)) \<and>
    poll_check (poll_row_of c p (ID p) now) \<and> ID p \<notin> pr_id ` set (polls d) \<and> (db_ok d \<longrightarrow> db_ok d')"
proof -
  obtain d1 where ins: "insert_new_poll c p now d = Some d1"
    and rest: "insert_options c f rnd 0 (in_Options input) p d1 = Inr (p', d')"
    using assms(3) by (auto simp: create_tx_def and_then_Inr stmt_Inr)
  have "insert_poll (poll_row_of c p (ID p) now) d = Some d1"
    using ins uuid_canonical [OF assms(4)] assms(1) by (auto simp: insert_new_poll_def split: option.splits)
  note ins' = this
  from ins' have d1: "d1 = d\<lparr>polls := polls d @ [poll_row_of c p (ID p) now]\<rparr>"
      "poll_check (poll_row_of c p (ID p) now)" "ID p \<notin> pr_id ` set (polls d)"
    by (auto simp: insert_poll_def poll_row_of_def split: if_splits)
  have ok1: "db_ok d \<longrightarrow> db_ok d1" using db_ok_insert_poll [OF ins'] by blast
  obtain xs where xs: "p' = p\<lparr>Options := xs\<rparr>"
      "d' = d1\<lparr>poll_options := poll_options d1 @ map (option_row_of (ID p)) xs\<rparr>"
      "map opt_Text xs = map trim_space (in_Options input)"
      "map opt_Position xs = map int [0..<length (in_Options input)]"
      "\<forall>x \<in> set xs. canonical_uuid (opt_ID x) \<and> option_check (option_row_of (ID p) x)" "db_ok d1 \<longrightarrow> db_ok d'"
    using insert_options_Inr [OF assms(1,2) rest assms(4)] assms(5) by auto
  moreover from xs(3) have "length xs = length (in_Options input)" by (metis length_map)
  ultimately show ?thesis using d1 ok1 by (intro exI [of _ xs]) auto
qed

text \<open>The tables after a successful creation, and the poll that a read then gives.\<close>

lemma options_of_created:
  assumes "map opt_Position xs = map int [0..<length xs]" and "db_ok d" and "u \<notin> pr_id ` set (polls d)"
    and "d' = d\<lparr>polls := ps, poll_options := poll_options d @ map (option_row_of u) xs\<rparr>"
  shows "options_of d' v = (if v = u then xs else options_of d v)"
proof -
  have fresh: "filter (\<lambda>x. or_poll_id x = u) (poll_options d) = []"
    using assms(2,3) by (auto simp: db_ok_def filter_empty_conv)
  have "filter (\<lambda>x. or_poll_id x = v) (map (option_row_of u) xs) = (if v = u then map (option_row_of u) xs else [])"
    by (auto simp: option_row_of_def filter_empty_conv filter_id_conv)
  then show ?thesis
    using fresh filter_upt_position [of xs 0 u] assms(1,4) by (simp add: options_of_def o_def)
qed

end

end
