(* ===== verification/Postgres_Save.thy ===== *)
theory Postgres_Save
  imports Postgres_Invariant
begin

text \<open>
  What the statements of \<open>SaveSnapshot\<close> do to the result tables, read by key: the rows of the poll
  are replaced together or not at all, and no other row changes.
\<close>

section \<open>Rows by key\<close>

definition rr_at :: "db \<Rightarrow> string \<Rightarrow> result_row option" where
  "rr_at d u = find (\<lambda>r. rr_poll_id r = u) (poll_runtime_results d)"

definition xr_at :: "db \<Rightarrow> string \<times> string \<Rightarrow> option_result_row option" where
  "xr_at d k = find (\<lambda>x. xr_key x = k) (poll_option_results d)"

definition pr_at :: "db \<Rightarrow> string \<Rightarrow> poll_row option" where
  "pr_at d u = find (\<lambda>r. pr_id r = u) (polls d)"

lemma rr_at_mem: "rr_at d u = Some r \<Longrightarrow> r \<in> set (poll_runtime_results d) \<and> rr_poll_id r = u"
  by (auto simp: rr_at_def dest: find_Some_mem)

lemma mem_rr_at: "db_ok d \<Longrightarrow> r \<in> set (poll_runtime_results d) \<Longrightarrow> rr_at d (rr_poll_id r) = Some r"
  by (simp add: rr_at_def db_ok_def find_distinct_key)

lemma xr_at_mem: "xr_at d k = Some x \<Longrightarrow> x \<in> set (poll_option_results d) \<and> xr_key x = k"
  by (auto simp: xr_at_def dest: find_Some_mem)

lemma mem_xr_at: "db_ok d \<Longrightarrow> x \<in> set (poll_option_results d) \<Longrightarrow> xr_at d (xr_key x) = Some x"
  by (simp add: xr_at_def db_ok_def find_distinct_key)

lemma pr_at_mem: "pr_at d u = Some r \<Longrightarrow> r \<in> set (polls d) \<and> pr_id r = u"
  by (auto simp: pr_at_def dest: find_Some_mem)

lemma mem_pr_at: "db_ok d \<Longrightarrow> r \<in> set (polls d) \<Longrightarrow> pr_at d (pr_id r) = Some r"
  by (simp add: pr_at_def db_ok_def find_distinct_key)

section \<open>The upserts by key\<close>

definition newer_result :: "result_row \<Rightarrow> result_row option \<Rightarrow> result_row" where
  "newer_result x old = (case old of None \<Rightarrow> x
     | Some r \<Rightarrow> if rr_finalized_at r = None \<and> rr_captured_at r \<le> rr_captured_at x then x else r)"

definition newer_count :: "option_result_row \<Rightarrow> option_result_row option \<Rightarrow> option_result_row" where
  "newer_count x old = (case old of None \<Rightarrow> x
     | Some y \<Rightarrow> if xr_captured_at y \<le> xr_captured_at x then x else y)"

lemma upsert_result_at:
  assumes "upsert_result x d = Some d'"
  shows "rr_at d' u = (if u = rr_poll_id x then Some (newer_result x (rr_at d u)) else rr_at d u)"
    and "polls d' = polls d \<and> poll_options d' = poll_options d \<and> poll_option_results d' = poll_option_results d"
proof -
  have d': "d' = d\<lparr>poll_runtime_results := upsert rr_poll_id
      (\<lambda>y. rr_finalized_at y = None \<and> rr_captured_at y \<le> rr_captured_at x) x (poll_runtime_results d)\<rparr>"
    using assms by (simp add: upsert_result_def split: if_splits)
  then show "rr_at d' u = (if u = rr_poll_id x then Some (newer_result x (rr_at d u)) else rr_at d u)"
    by (auto simp: rr_at_def find_upsert find_upsert_other newer_result_def split: option.split)
  from d' show "polls d' = polls d \<and> poll_options d' = poll_options d \<and> poll_option_results d' = poll_option_results d"
    by simp
qed

lemma upsert_option_result_at:
  assumes "upsert_option_result x d = Some d'"
  shows "xr_at d' k = (if k = xr_key x then Some (newer_count x (xr_at d k)) else xr_at d k)"
    and "polls d' = polls d \<and> poll_options d' = poll_options d \<and> poll_runtime_results d' = poll_runtime_results d"
proof -
  have d': "d' = d\<lparr>poll_option_results := upsert xr_key
      (\<lambda>y. xr_captured_at y \<le> xr_captured_at x) x (poll_option_results d)\<rparr>"
    using assms by (simp add: upsert_option_result_def split: if_splits)
  then show "xr_at d' k = (if k = xr_key x then Some (newer_count x (xr_at d k)) else xr_at d k)"
    by (auto simp: xr_at_def find_upsert find_upsert_other newer_count_def split: option.split)
  from d' show "polls d' = polls d \<and> poll_options d' = poll_options d \<and> poll_runtime_results d' = poll_runtime_results d"
    by simp
qed

definition count_row :: "repo \<Rightarrow> string \<Rightarrow> totals \<Rightarrow> string \<Rightarrow> option_result_row" where
  "count_row c u t i = \<lparr>xr_poll_id = u, xr_option_id = i, xr_vote_count = map_get (tot_Options t) i,
     xr_captured_at = ts (server c) (tot_AsOf t)\<rparr>"

lemma count_row_key [simp]: "xr_key (count_row c u t i) = (u, i)"
  by (simp add: count_row_def xr_key_def)

context postgres_server
begin

lemma save_options_at:
  assumes "D = server c" and "canonical_uuid u" and "list_all (\<lambda>x. canonical_uuid (opt_ID x)) os"
    and "distinct (map opt_ID os)" and "save_options c f u t i os d = Inr d'"
  shows "(\<forall>k. xr_at d' k = (if fst k = u \<and> snd k \<in> opt_ID ` set os
       then Some (newer_count (count_row c u t (snd k)) (xr_at d k)) else xr_at d k)) \<and>
    polls d' = polls d \<and> poll_options d' = poll_options d \<and> poll_runtime_results d' = poll_runtime_results d \<and>
    (db_ok d \<longrightarrow> db_ok d')"
  using assms(3-5)
proof (induction os arbitrary: i d)
  case Nil
  then show ?case by simp
next
  case (Cons x os)
  obtain d1 where so: "save_option c u t x d = Some d1" and rest: "save_options c f u t (Suc i) os d1 = Inr d'"
    using Cons.prems(3) by (auto simp: and_then_Inr stmt_Inr)
  have "upsert_option_result (count_row c u t (opt_ID x)) d = Some d1"
    using so Cons.prems(1) uuid_canonical assms(1,2) by (auto simp: save_option_def count_row_def split: option.splits)
  note up = upsert_option_result_at [OF this] db_ok_upsert_option_result [OF this]
  have at1: "xr_at d1 k = (if k = (u, opt_ID x) then Some (newer_count (count_row c u t (opt_ID x)) (xr_at d k))
      else xr_at d k)" for k
    using up(1) [of k] by simp
  have IH: "\<forall>k. xr_at d' k = (if fst k = u \<and> snd k \<in> opt_ID ` set os
       then Some (newer_count (count_row c u t (snd k)) (xr_at d1 k)) else xr_at d1 k)"
    and rest': "polls d' = polls d1" "poll_options d' = poll_options d1"
      "poll_runtime_results d' = poll_runtime_results d1" "db_ok d1 \<longrightarrow> db_ok d'"
    using Cons.IH [OF _ _ rest] Cons.prems(1,2) by auto
  have "xr_at d' k = (if fst k = u \<and> snd k \<in> opt_ID ` set (x # os)
       then Some (newer_count (count_row c u t (snd k)) (xr_at d k)) else xr_at d k)" for k
    using IH at1 [of k] Cons.prems(2) by (cases k) auto
  with up(2,3) rest' show ?case by auto
qed

lemma save_result_at:
  assumes "D = server c" and "canonical_uuid u" and "save_result c u t fin d = Some d'"
  shows "rr_at d' v = (if v = u then Some (newer_result (result_row_of c u t fin) (rr_at d v)) else rr_at d v)"
    and "polls d' = polls d \<and> poll_options d' = poll_options d \<and> poll_option_results d' = poll_option_results d"
    and "db_ok d \<Longrightarrow> db_ok d'" and "0 \<le> tot_Participants t"
proof -
  have up: "upsert_result (result_row_of c u t fin) d = Some d'"
    using assms uuid_canonical by (simp add: save_result_def)
  show "rr_at d' v = (if v = u then Some (newer_result (result_row_of c u t fin) (rr_at d v)) else rr_at d v)"
    using upsert_result_at(1) [OF up] by (simp add: result_row_of_def)
  show "polls d' = polls d \<and> poll_options d' = poll_options d \<and> poll_option_results d' = poll_option_results d"
    by (rule upsert_result_at(2) [OF up])
  show "db_ok d'" if "db_ok d" by (rule db_ok_upsert_result [OF up that])
  show "0 \<le> tot_Participants t"
    using up by (simp add: upsert_result_def result_check_def result_row_of_def split: if_splits)
qed

end

section \<open>Updates of the polls table by key\<close>

text \<open>What no update of a poll changes.\<close>

definition same_def :: "poll_row \<Rightarrow> poll_row \<Rightarrow> bool" where
  "same_def r r' \<longleftrightarrow> pr_id r' = pr_id r \<and> pr_slug r' = pr_slug r \<and> pr_question r' = pr_question r \<and>
     pr_poll_type r' = pr_poll_type r \<and> pr_max_choices r' = pr_max_choices r \<and>
     pr_starts_at r' = pr_starts_at r \<and> pr_ends_at r' = pr_ends_at r \<and> pr_created_at r' = pr_created_at r"

lemma same_def_refl [simp]: "same_def r r"
  by (simp add: same_def_def)

lemma same_def_trans: "same_def r r' \<Longrightarrow> same_def r' r'' \<Longrightarrow> same_def r r''"
  by (simp add: same_def_def)

lemma same_def_set [simp]:
  "same_def r (set_active c now r)" "same_def r (set_draft c now r)" "same_def r (set_closed c now r)"
  by (simp_all add: same_def_def set_active_def set_draft_def set_closed_def)

lemma same_def_wf: "same_def r r' \<Longrightarrow> wf_poll (poll_of_row r' os) = wf_poll (poll_of_row r os)"
  by (simp add: same_def_def wf_poll_def poll_of_row_def)

lemma update_polls_at:
  assumes "update_polls P g d = Some (d', n)" and "\<And>r. same_def r (g r)"
  shows "pr_at d' u = map_option (\<lambda>r. if P r then g r else r) (pr_at d u)"
    and "poll_options d' = poll_options d \<and> poll_runtime_results d' = poll_runtime_results d \<and>
      poll_option_results d' = poll_option_results d"
    and "polls d' = map (\<lambda>r. if P r then g r else r) (polls d)"
    and "db_ok d \<Longrightarrow> db_ok d'"
proof -
  show p: "polls d' = map (\<lambda>r. if P r then g r else r) (polls d)"
    and "poll_options d' = poll_options d \<and> poll_runtime_results d' = poll_runtime_results d \<and>
      poll_option_results d' = poll_option_results d"
    using assms(1) by (auto simp: update_polls_def Let_def split: if_splits)
  have "pr_id (if P r then g r else r) = pr_id r" for r using assms(2) by (simp add: same_def_def)
  then show "pr_at d' u = map_option (\<lambda>r. if P r then g r else r) (pr_at d u)"
    unfolding pr_at_def p by (rule find_map_update)
  show "db_ok d'" if "db_ok d"
    using db_ok_update_polls [OF assms(1) that] assms(2) by (simp add: same_def_def)
qed

section \<open>The transaction of SaveSnapshot\<close>

text \<open>Whether the totals are as new as what is stored.\<close>

definition fresh :: "repo \<Rightarrow> totals \<Rightarrow> result_row option \<Rightarrow> bool" where
  "fresh c t old = (case old of None \<Rightarrow> True | Some r \<Rightarrow> rr_captured_at r \<le> ts (server c) (tot_AsOf t))"

lemma select_status_Inr:
  "select_status c f i d = Inr st \<Longrightarrow> \<exists>u r. uuid_in (server c) i = Some u \<and> pr_at d u = Some r \<and> pr_status r = st"
  by (auto simp: select_status_def and_then_Inr stmt_Inr pr_at_def split: option.splits)

lemma close_row_Inr:
  "close_row c f st i asOf d = Inr d' \<longleftrightarrow>
     (st = Active \<or> st = Closed) \<and> f UpdatePoll = Done \<and>
     (\<exists>n. update_polls (by_id c i) (set_closed c asOf) d = Some (d', n))"
  by (auto simp: close_row_def and_then_Inr stmt_Inr)

text \<open>A poll that was read from the tables.\<close>

definition read_from :: "db \<Rightarrow> poll \<Rightarrow> bool" where
  "read_from d p \<longleftrightarrow> (\<exists>r \<in> set (polls d). ID p = pr_id r \<and> Options p = options_of d (pr_id r))"

context postgres_server
begin

lemma options_of_ids:
  assumes "db_inv d"
  shows "list_all (\<lambda>x. canonical_uuid (opt_ID x)) (options_of d u)" and "distinct (map opt_ID (options_of d u))"
proof -
  let ?s = "sort_key or_position (filter (\<lambda>x. or_poll_id x = u) (poll_options d))"
  have m: "map opt_ID (options_of d u) = map or_id ?s"
    by (simp add: options_of_def o_def option_of_row_def)
  show "list_all (\<lambda>x. canonical_uuid (opt_ID x)) (options_of d u)"
    using assms by (auto simp: db_inv_def list_all_iff options_of_def option_of_row_def)
  have "distinct (map or_id (filter (\<lambda>x. or_poll_id x = u) (poll_options d)))"
    using assms by (simp add: db_inv_def db_ok_def distinct_map_filter)
  then show "distinct (map opt_ID (options_of d u))"
    unfolding m by (simp add: distinct_map)
qed

lemma save_tx_cases:
  assumes "save_tx c f p t fin d = Inr (x, d')"
  shows "existing_final c (ID p) d \<noteq> None \<and> d' = d \<or>
    existing_final c (ID p) d = None \<and>
    (\<exists>st d1 d2. select_status c f (ID p) d = Inr st \<and> save_result c (ID p) t fin d = Some d1 \<and>
       save_options c f (ID p) t 0 (Options p) d1 = Inr d2 \<and>
       (if fin then close_row c f st (ID p) (tot_AsOf t) d2 = Inr d' else d' = d2))"
  using assms by (auto simp: save_tx_def and_then_Inr stmt_Inr split: if_splits)

lemma xr_captured:
  assumes "db_inv d" and "xr_at d (u, i) = Some x"
  shows "\<exists>r. rr_at d u = Some r \<and> xr_captured_at x = rr_captured_at r"
proof -
  have x: "x \<in> set (poll_option_results d)" "xr_poll_id x = u"
    using xr_at_mem [OF assms(2)] by (auto simp: xr_key_def)
  then have "u \<in> xr_poll_id ` set (poll_option_results d)" by blast
  then have "u \<in> rr_poll_id ` set (poll_runtime_results d)" using assms(1) by (auto simp only: db_inv_def)
  then obtain r where r: "r \<in> set (poll_runtime_results d)" "rr_poll_id r = u" by blast
  then have "rr_at d u = Some r" using mem_rr_at assms(1) by (metis db_inv_def)
  moreover have "result_ok d r" using assms(1) r by (auto simp: db_inv_def list_all_iff)
  ultimately show ?thesis using x r by (auto simp: result_ok_def)
qed

lemma xr_at_options:
  assumes "db_inv d" and "rr_at d u = Some r"
  shows "xr_at d (u, i) \<noteq> None \<longleftrightarrow> i \<in> opt_ID ` set (options_of d u)"
proof -
  have r: "r \<in> set (poll_runtime_results d)" "rr_poll_id r = u" using rr_at_mem [OF assms(2)] by auto
  then have "result_ok d r" using assms(1) by (simp add: db_inv_def list_all_iff)
  then have "xr_option_id ` {x \<in> set (poll_option_results d). xr_poll_id x = u} = opt_ID ` set (options_of d u)"
    using r(2) by (simp add: result_ok_def)
  moreover have "xr_at d (u, i) \<noteq> None \<longleftrightarrow> i \<in> xr_option_id ` {x \<in> set (poll_option_results d). xr_poll_id x = u}"
    by (auto simp: xr_at_def find_eq_None xr_key_def image_iff)
  ultimately show ?thesis by simp
qed

text \<open>What the upserts keep, for a result that is not final.\<close>

lemma not_final:
  assumes "D = server c" and "db_inv d" and "read_from d p" and "existing_final c (ID p) d = None" and "rr_at d (ID p) = Some r"
  shows "rr_finalized_at r = None"
proof -
  have "canonical_uuid (ID p)" using assms(2,3) by (auto simp: read_from_def db_inv_def row_ok_def list_all_iff)
  then have "uuid_in (server c) (ID p) = Some (ID p)" using uuid_canonical assms(1) by simp
  then show ?thesis using assms(4,5) by (simp add: existing_final_def rr_at_def eq_commute [of "ID p"])
qed

lemma newer_result_fresh:
  assumes "\<And>r. old = Some r \<Longrightarrow> rr_finalized_at r = None"
  shows "newer_result (result_row_of c u t fin) old = (if fresh c t old then result_row_of c u t fin else the old)"
  using assms by (cases old) (auto simp: newer_result_def fresh_def result_row_of_def)

lemma newer_count_fresh:
  assumes "db_inv d" and "i \<in> opt_ID ` set (options_of d u)"
  shows "Some (newer_count (count_row c u t i) (xr_at d (u, i))) =
    (if fresh c t (rr_at d u) then Some (count_row c u t i) else xr_at d (u, i))"
proof (cases "rr_at d u")
  case None
  then have "xr_at d (u, i) = None" using xr_captured [OF assms(1), of u i] by (cases "xr_at d (u, i)") auto
  with None show ?thesis by (simp add: newer_count_def fresh_def)
next
  case (Some r)
  then obtain y where "xr_at d (u, i) = Some y" using xr_at_options [OF assms(1) Some, of i] assms(2) by auto
  with Some xr_captured [OF assms(1) this] show ?thesis by (auto simp: newer_count_def fresh_def count_row_def)
qed

text \<open>The end of the transaction changes the row of the poll alone, and that when the result is final.\<close>

lemma close_tables:
  assumes "uuid_in (server c) i = Some u" and "if fin then close_row c f st i asOf d = Inr d' else d' = d" and "db_ok d"
  shows "rr_at d' = rr_at d \<and> xr_at d' = xr_at d \<and> poll_options d' = poll_options d \<and> db_ok d' \<and>
    polls d' = map (\<lambda>r. if pr_id r = u \<and> fin then set_closed c asOf r else r) (polls d) \<and>
    (\<forall>v. pr_at d' v = (if v = u \<and> fin then map_option (set_closed c asOf) (pr_at d v) else pr_at d v))"
proof (cases fin)
  case True
  have "by_id c i = (\<lambda>r. pr_id r = u)" using assms(1) by (auto simp: by_id_def fun_eq_iff)
  then obtain n where "update_polls (\<lambda>r. pr_id r = u) (set_closed c asOf) d = Some (d', n)"
    using True assms(2) by (auto simp: close_row_Inr)
  note up = update_polls_at [OF this same_def_set(3)]
  have "pr_at d' v = (if v = u then map_option (set_closed c asOf) (pr_at d v) else pr_at d v)" for v
    using up(1) [of v] pr_at_mem [of d v] by (cases "pr_at d v") auto
  with up(2,3,4) assms(3) True show ?thesis by (simp add: rr_at_def xr_at_def fun_eq_iff)
qed (use assms(2,3) in simp)

text \<open>The rows of the poll are replaced together, when the totals are as new as what is stored and that
  is not final; otherwise no row changes.\<close>

lemma save_tx_rows:
  assumes "D = server c" and "db_inv d" and "read_from d p" and "save_tx c f p t fin d = Inr (x, d')"
    and "existing_final c (ID p) d = None"
  shows "\<forall>v. rr_at d' v = (if v = ID p \<and> fresh c t (rr_at d v) then Some (result_row_of c v t fin) else rr_at d v)"
    and "\<forall>k. xr_at d' k = (if fst k = ID p \<and> snd k \<in> opt_ID ` set (Options p) \<and> fresh c t (rr_at d (ID p))
       then Some (count_row c (ID p) t (snd k)) else xr_at d k)"
    and "\<forall>v. pr_at d' v = (if v = ID p \<and> fin then map_option (set_closed c (tot_AsOf t)) (pr_at d v) else pr_at d v)"
    and "polls d' = map (\<lambda>r. if pr_id r = ID p \<and> fin then set_closed c (tot_AsOf t) r else r) (polls d)"
    and "poll_options d' = poll_options d" and "db_ok d'"
    and "fin \<longrightarrow> (\<exists>r. pr_at d (ID p) = Some r \<and> pr_status r \<noteq> Draft)"
proof -
  obtain st d1 d2 where st: "select_status c f (ID p) d = Inr st"
    and sr: "save_result c (ID p) t fin d = Some d1"
    and so: "save_options c f (ID p) t 0 (Options p) d1 = Inr d2"
    and cl: "if fin then close_row c f st (ID p) (tot_AsOf t) d2 = Inr d' else d' = d2"
    using save_tx_cases [OF assms(4)] assms(5) by auto
  obtain r0 where r0: "r0 \<in> set (polls d)" "ID p = pr_id r0" "Options p = options_of d (ID p)"
    using assms(3) by (auto simp: read_from_def)
  have can: "canonical_uuid (ID p)" and u: "uuid_in (server c) (ID p) = Some (ID p)"
    using assms(1,2) r0(1,2) uuid_canonical by (auto simp: db_inv_def row_ok_def list_all_iff)
  note sra = save_result_at [OF assms(1) can sr]
  have ids: "list_all (\<lambda>x. canonical_uuid (opt_ID x)) (Options p)" "distinct (map opt_ID (Options p))"
    using options_of_ids [OF assms(2)] r0(3) by auto
  note soa = save_options_at [OF assms(1) can ids so]
  have new: "newer_result (result_row_of c (ID p) t fin) (rr_at d (ID p)) =
      (if fresh c t (rr_at d (ID p)) then result_row_of c (ID p) t fin else the (rr_at d (ID p)))"
    by (rule newer_result_fresh) (rule not_final [OF assms(1-3,5)])
  have fr: "fresh c t None" by (simp add: fresh_def)
  have rr1: "rr_at d1 v = (if v = ID p \<and> fresh c t (rr_at d v) then Some (result_row_of c v t fin) else rr_at d v)" for v
    using sra(1) [of v] new fr by (cases "rr_at d (ID p)") auto
  have xr1: "xr_at d1 = xr_at d" using sra(2) by (simp add: xr_at_def fun_eq_iff)
  have xr2: "xr_at d2 k = (if fst k = ID p \<and> snd k \<in> opt_ID ` set (Options p) \<and> fresh c t (rr_at d (ID p))
       then Some (count_row c (ID p) t (snd k)) else xr_at d k)" for k
    using soa xr1 newer_count_fresh [OF assms(2), of "snd k" "ID p" c t] r0(3) by (cases k) auto
  have d2: "polls d2 = polls d" "poll_options d2 = poll_options d" "poll_runtime_results d2 = poll_runtime_results d1"
      "db_ok d2"
    using soa sra(2,3) assms(2) by (auto simp: db_inv_def)
  have all: "rr_at d' = rr_at d1 \<and> xr_at d' = xr_at d2 \<and> poll_options d' = poll_options d \<and> db_ok d' \<and>
      polls d' = map (\<lambda>r. if pr_id r = ID p \<and> fin then set_closed c (tot_AsOf t) r else r) (polls d) \<and>
      (\<forall>v. pr_at d' v = (if v = ID p \<and> fin then map_option (set_closed c (tot_AsOf t)) (pr_at d v) else pr_at d v))"
  proof -
    have "rr_at d2 = rr_at d1" "pr_at d2 = pr_at d" using d2(1,3) by (simp_all add: rr_at_def pr_at_def fun_eq_iff)
    with close_tables [OF u cl d2(4)] show ?thesis unfolding d2(1,2) by simp
  qed
  show "\<forall>v. rr_at d' v = (if v = ID p \<and> fresh c t (rr_at d v) then Some (result_row_of c v t fin) else rr_at d v)"
    using all rr1 by simp
  show "\<forall>k. xr_at d' k = (if fst k = ID p \<and> snd k \<in> opt_ID ` set (Options p) \<and> fresh c t (rr_at d (ID p))
       then Some (count_row c (ID p) t (snd k)) else xr_at d k)"
    using all xr2 by simp
  show "polls d' = map (\<lambda>r. if pr_id r = ID p \<and> fin then set_closed c (tot_AsOf t) r else r) (polls d)"
    and "\<forall>v. pr_at d' v = (if v = ID p \<and> fin then map_option (set_closed c (tot_AsOf t)) (pr_at d v) else pr_at d v)"
    and "poll_options d' = poll_options d" and "db_ok d'" using all by blast+
  show "fin \<longrightarrow> (\<exists>r. pr_at d (ID p) = Some r \<and> pr_status r \<noteq> Draft)"
    using cl select_status_Inr [OF st] u by (auto simp: close_row_Inr)
qed

end

end
