(* ===== verification/Postgres_Evolve.thy ===== *)
theory Postgres_Evolve
  imports Postgres_Save
begin

text \<open>
  Every write of the repository keeps the invariant, and what no sequence of writes, by however
  many processes and with whatever failures, can do to a poll or to its stored result.
\<close>

section \<open>The invariant by key\<close>

definition result_inv :: "db \<Rightarrow> string \<Rightarrow> result_row \<Rightarrow> bool" where
  "result_inv d u r \<longleftrightarrow>
     (\<forall>i x. xr_at d (u, i) = Some x \<longrightarrow> xr_captured_at x = rr_captured_at r) \<and>
     (\<forall>i. xr_at d (u, i) \<noteq> None \<longleftrightarrow> i \<in> opt_ID ` set (options_of d u)) \<and>
     (rr_finalized_at r \<noteq> None \<longrightarrow> rr_finalized_at r = Some (rr_captured_at r) \<and>
        (\<exists>p. pr_at d u = Some p \<and> pr_status p = Closed))"

lemma xr_at_iff: "xr_at d (u, i) \<noteq> None \<longleftrightarrow> i \<in> xr_option_id ` {x \<in> set (poll_option_results d). xr_poll_id x = u}"
  by (auto simp: xr_at_def find_eq_None xr_key_def image_iff)

lemma result_ok_at:
  assumes "db_ok d" and "rr_at d u = Some r"
  shows "result_ok d r \<longleftrightarrow> result_inv d u r"
proof -
  have u: "rr_poll_id r = u" using rr_at_mem [OF assms(2)] by simp
  have "(\<forall>x \<in> set (poll_option_results d). xr_poll_id x = u \<longrightarrow> xr_captured_at x = rr_captured_at r) \<longleftrightarrow>
      (\<forall>i x. xr_at d (u, i) = Some x \<longrightarrow> xr_captured_at x = rr_captured_at r)" (is "?A \<longleftrightarrow> ?B")
  proof
    show "?A \<Longrightarrow> ?B" by (auto dest!: xr_at_mem simp: xr_key_def)
    show "?B \<Longrightarrow> ?A" using mem_xr_at [OF assms(1)] by (auto simp: xr_key_def)
  qed
  moreover have "xr_option_id ` {x \<in> set (poll_option_results d). xr_poll_id x = u} = opt_ID ` set (options_of d u) \<longleftrightarrow>
      (\<forall>i. xr_at d (u, i) \<noteq> None \<longleftrightarrow> i \<in> opt_ID ` set (options_of d u))"
    unfolding xr_at_iff by blast
  moreover have "(\<exists>p \<in> set (polls d). pr_id p = u \<and> pr_status p = Closed) \<longleftrightarrow> (\<exists>p. pr_at d u = Some p \<and> pr_status p = Closed)"
    using mem_pr_at [OF assms(1)] by (auto dest: pr_at_mem)
  ultimately show ?thesis by (simp only: result_ok_def result_inv_def u)
qed

lemma db_inv_at:
  "db_inv d \<longleftrightarrow> db_ok d \<and> (\<forall>u r. pr_at d u = Some r \<longrightarrow> row_ok d r) \<and>
     list_all (\<lambda>x. canonical_uuid (or_id x)) (poll_options d) \<and>
     (\<forall>u r. rr_at d u = Some r \<longrightarrow> result_inv d u r) \<and>
     (\<forall>u i. xr_at d (u, i) \<noteq> None \<longrightarrow> rr_at d u \<noteq> None)"
proof (cases "db_ok d")
  case False
  then show ?thesis by (simp add: db_inv_def)
next
  case True
  have "list_all (row_ok d) (polls d) \<longleftrightarrow> (\<forall>u r. pr_at d u = Some r \<longrightarrow> row_ok d r)"
    using mem_pr_at [OF True] by (fastforce simp: list_all_iff dest: pr_at_mem)
  moreover have "list_all (result_ok d) (poll_runtime_results d) \<longleftrightarrow> (\<forall>u r. rr_at d u = Some r \<longrightarrow> result_ok d r)"
    using mem_rr_at [OF True] by (fastforce simp: list_all_iff dest: rr_at_mem)
  moreover have "xr_poll_id ` set (poll_option_results d) \<subseteq> rr_poll_id ` set (poll_runtime_results d) \<longleftrightarrow>
      (\<forall>u i. xr_at d (u, i) \<noteq> None \<longrightarrow> rr_at d u \<noteq> None)"
  proof -
    have "rr_at d u \<noteq> None \<longleftrightarrow> u \<in> rr_poll_id ` set (poll_runtime_results d)" for u
      by (auto simp: rr_at_def find_eq_None)
    then show ?thesis unfolding xr_at_iff by blast
  qed
  ultimately show ?thesis using result_ok_at [OF True] True by (simp add: db_inv_def)
qed

section \<open>Every write keeps the invariant\<close>

text \<open>A write that only updates polls, and closes none but to leave it closed.\<close>

lemma inv_polls_only:
  assumes "db_inv d" and "db_ok d'"
    and "\<And>u. pr_at d' u = map_option g (pr_at d u)"
    and "poll_options d' = poll_options d \<and> poll_runtime_results d' = poll_runtime_results d \<and>
      poll_option_results d' = poll_option_results d"
    and "\<And>r. same_def r (g r)" and "\<And>u r. pr_at d u = Some r \<Longrightarrow> status_ok r \<Longrightarrow> status_ok (g r)"
    and "\<And>u r. pr_at d u = Some r \<Longrightarrow> pr_status r = Closed \<Longrightarrow> pr_status (g r) = Closed"
  shows "db_inv d'"
proof -
  have eqs: "options_of d' = options_of d" "rr_at d' = rr_at d" "xr_at d' = xr_at d"
    using assms(4) by (simp_all add: options_of_def rr_at_def xr_at_def fun_eq_iff)
  have "row_ok d' r'" if "pr_at d' u = Some r'" for u r'
  proof -
    obtain r where r: "pr_at d u = Some r" "r' = g r" using \<open>pr_at d' u = Some r'\<close> assms(3) by auto
    then have ok: "row_ok d r" using assms(1) by (auto simp: db_inv_at)
    with r assms(6) have "status_ok r'" by (auto simp: row_ok_def)
    with ok show ?thesis using same_def_wf [OF assms(5) [of r]] assms(5) [of r] r(2)
      by (simp add: row_ok_def eqs same_def_def)
  qed
  moreover have "result_inv d' u r" if "rr_at d' u = Some r" for u r
  proof -
    have "result_inv d u r" using that assms(1) by (simp add: db_inv_at eqs)
    then show ?thesis using assms(3,7) by (auto simp: result_inv_def eqs)
  qed
  ultimately show ?thesis using assms(1,2,4) by (simp add: db_inv_at eqs)
qed

lemma status_ok_set:
  "pr_status r = Draft \<Longrightarrow> status_ok r \<Longrightarrow> status_ok (set_active c now r)"
  "pr_status r = Active \<Longrightarrow> status_ok r \<Longrightarrow> status_ok (set_draft c now r)"
  "pr_status r \<noteq> Draft \<Longrightarrow> status_ok r \<Longrightarrow> status_ok (set_closed c now r)"
  by (auto simp: status_ok_def set_active_def set_draft_def set_closed_def split: poll_status.splits)

lemma inv_update:
  assumes "db_inv d" and "update_polls P g d = Some (d', n)" and "\<And>r. same_def r (g r)"
    and "\<And>u r. pr_at d u = Some r \<Longrightarrow> P r \<Longrightarrow> pr_status r \<noteq> Closed \<and> (status_ok r \<longrightarrow> status_ok (g r))"
  shows "db_inv d'"
proof (rule inv_polls_only [OF assms(1)])
  note up = update_polls_at [OF assms(2,3)]
  show "db_ok d'" using up(4) assms(1) by (simp add: db_inv_def)
  show "pr_at d' u = map_option (\<lambda>r. if P r then g r else r) (pr_at d u)" for u by (rule up(1))
  show "poll_options d' = poll_options d \<and> poll_runtime_results d' = poll_runtime_results d \<and>
      poll_option_results d' = poll_option_results d" by (rule up(2))
qed (use assms(3,4) in auto)

lemma publish_tx_Inr:
  assumes "publish_tx c f i now d = Inr (x, d')"
  shows "(d' = d \<and> (\<exists>u r. uuid_in (server c) i = Some u \<and> pr_at d u = Some r \<and> pr_status r = Active)) \<or>
    (\<exists>u r n. uuid_in (server c) i = Some u \<and> pr_at d u = Some r \<and> pr_status r = Draft \<and>
       update_polls (by_id c i) (set_active c now) d = Some (d', n))"
  using assms by (auto simp: publish_tx_def and_then_Inr stmt_Inr dest!: select_status_Inr split: if_splits)

lemma inv_publish:
  assumes "publish_tx c f i now d = Inr (x, d')" and "db_inv d"
  shows "db_inv d'"
proof (cases "d' = d")
  case False
  then obtain u r n where u: "uuid_in (server c) i = Some u" "pr_at d u = Some r" "pr_status r = Draft"
    and up: "update_polls (by_id c i) (set_active c now) d = Some (d', n)"
    using publish_tx_Inr [OF assms(1)] by blast
  show ?thesis
  proof (rule inv_update [OF assms(2) up])
    fix v s assume s: "pr_at d v = Some s" "by_id c i s"
    then have "s = r" using u(1,2) pr_at_mem [OF s(1)] by (simp add: by_id_def)
    with u(3) status_ok_set(1) show "pr_status s \<noteq> Closed \<and> (status_ok s \<longrightarrow> status_ok (set_active c now s))"
      by simp
  qed simp
qed (use assms in simp)

lemma RevertPublish_cases:
  "fst (RevertPublish c f snow i t d) = d \<or>
   (\<exists>n. update_polls (published_by c i t) (set_draft c snow) d = Some (fst (RevertPublish c f snow i t d), n))"
  by (cases "update_polls (published_by c i t) (set_draft c snow) d"; cases "f UpdatePoll")
     (auto simp: RevertPublish_def)

lemma inv_revert:
  assumes "db_inv d"
  shows "db_inv (fst (RevertPublish c f snow i t d))"
  using RevertPublish_cases [of c f snow i t d]
proof
  assume "\<exists>n. update_polls (published_by c i t) (set_draft c snow) d = Some (fst (RevertPublish c f snow i t d), n)"
  then obtain n where up: "update_polls (published_by c i t) (set_draft c snow) d = Some (fst (RevertPublish c f snow i t d), n)" ..
  show ?thesis
    by (rule inv_update [OF assms up]) (auto simp: published_by_def status_ok_set)
qed (use assms in simp)

context postgres_server
begin

lemma result_of_count: "db_inv d \<Longrightarrow> xr_at d (u, i) \<noteq> None \<Longrightarrow> rr_at d u \<noteq> None"
  using xr_captured [of d u i] by fastforce

lemma count_absent: "db_inv d \<Longrightarrow> i \<notin> opt_ID ` set (options_of d u) \<Longrightarrow> xr_at d (u, i) = None"
  using xr_at_options [of d u _ i] result_of_count [of d u i] by (cases "rr_at d u") auto

lemma save_result_inv:
  assumes "D = server c" and "db_inv d" and "read_from d p" and "save_tx c f p t fin d = Inr (x, d')"
    and "existing_final c (ID p) d = None" and "rr_at d' u = Some r'"
  shows "result_inv d' u r'"
proof -
  note rows = save_tx_rows [OF assms(1-5)]
  have os: "options_of d' = options_of d" using rows(5) by (simp add: options_of_def fun_eq_iff)
  have ids: "Options p = options_of d (ID p)" using assms(3) by (auto simp: read_from_def)
  show ?thesis
  proof (cases "u = ID p \<and> fresh c t (rr_at d u)")
    case True
    then have uf: "u = ID p" "fresh c t (rr_at d (ID p))" by auto
    with assms(6) rows(1) have new: "r' = result_row_of c u t fin" by simp
    have x: "xr_at d' (u, i) = (if i \<in> opt_ID ` set (options_of d u) then Some (count_row c u t i) else None)" for i
      using rows(2) ids uf count_absent [OF assms(2), of i u] by simp
    have "\<exists>q. pr_at d' u = Some q \<and> pr_status q = Closed" if "fin"
      using that uf rows(3,7) by (auto simp: set_closed_def)
    then show ?thesis
      using x by (auto simp: result_inv_def new os result_row_of_def count_row_def split: if_splits)
  next
    case False
    then have "rr_at d u = Some r'" using assms(6) spec [OF rows(1), of u] by (simp only: if_False)
    then have "result_inv d u r'" using assms(2) by (simp add: db_inv_at)
    moreover have "xr_at d' (u, i) = xr_at d (u, i)" for i using False rows(2) by auto
    moreover have "\<exists>q. pr_at d' u = Some q \<and> pr_status q = Closed" if "\<exists>q. pr_at d u = Some q \<and> pr_status q = Closed"
      using that rows(3) by (auto simp: set_closed_def)
    ultimately show ?thesis by (simp add: result_inv_def os)
  qed
qed

lemma inv_save:
  assumes "D = server c" and "db_inv d" and "read_from d p" and "save_tx c f p t fin d = Inr (x, d')"
  shows "db_inv d'"
proof (cases "existing_final c (ID p) d = None")
  case False
  with save_tx_cases [OF assms(4)] assms(2) show ?thesis by simp
next
  case True
  note rows = save_tx_rows [OF assms(1-4) True]
  have os: "options_of d' = options_of d" using rows(5) by (simp add: options_of_def fun_eq_iff)
  have "row_ok d' r'" if r': "pr_at d' u = Some r'" for u r'
  proof -
    obtain r where r: "pr_at d u = Some r" "r' = (if u = ID p \<and> fin then set_closed c (tot_AsOf t) r else r)"
      using r' rows(3) by (cases "u = ID p \<and> fin") auto
    then have ok: "row_ok d r" using assms(2) by (auto simp: db_inv_at)
    have "status_ok r'"
      using ok r rows(7) status_ok_set(3) [of r c "tot_AsOf t"] by (auto simp: row_ok_def)
    moreover have "same_def r r'" using r(2) by simp
    ultimately show ?thesis
      using ok same_def_wf [of r r'] by (simp add: row_ok_def os same_def_def)
  qed
  moreover have "result_inv d' u r'" if "rr_at d' u = Some r'" for u r'
    by (rule save_result_inv [OF assms True that])
  moreover have "rr_at d' u \<noteq> None" if "xr_at d' (u, i) \<noteq> None" for u i
    using that rows(1,2) result_of_count [OF assms(2), of u i] by (auto split: if_splits)
  ultimately show ?thesis using assms(2) rows(5,6) by (simp add: db_inv_at)
qed

lemma inv_create:
  assumes "D = server c" and "db_inv d" and "\<forall>k b. rnd k = Some b \<longrightarrow> length b = 16"
    and "Validate input = None" and "canonical_uuid i"
    and "create_tx c f rnd now input (new_poll i input now) d = Inr (p', d')"
  shows "db_inv d'"
proof -
  let ?p = "new_poll i input now" and ?row = "poll_row_of c (new_poll i input now) i now"
  have p: "ID ?p = i" "Options ?p = []" by (simp_all add: new_poll_def)
  obtain xs where d': "d' = d\<lparr>polls := polls d @ [?row], poll_options := poll_options d @ map (option_row_of i) xs\<rparr>"
    and xs: "map opt_Text xs = map trim_space (in_Options input)" "map opt_Position xs = map int [0..<length xs]"
      "\<forall>x \<in> set xs. canonical_uuid (opt_ID x) \<and> option_check (option_row_of i x)"
    and chk: "poll_check ?row" and new: "i \<notin> pr_id ` set (polls d)" and ok': "db_ok d'"
    using create_tx_Inr [OF assms(1,3,6)] p assms(2,5) by (auto simp: db_inv_def)
  have ok: "db_ok d" using assms(2) by (simp add: db_inv_def)
  have os: "options_of d' v = (if v = i then xs else options_of d v)" for v
    using options_of_created [OF xs(2) ok new d'] .
  have rr: "rr_at d' = rr_at d" "xr_at d' = xr_at d" by (simp_all add: d' rr_at_def xr_at_def fun_eq_iff)
  have old_none: "pr_at d i = None" using new by (auto simp: pr_at_def find_eq_None)
  have pr: "pr_at d' v = (if v = i then Some ?row else pr_at d v)" for v
    using old_none by (auto simp: d' pr_at_def find_append poll_row_of_def split: option.splits)
  have rr_none: "rr_at d i = None"
    using ok new by (auto simp: db_ok_def rr_at_def find_eq_None)
  have "wf_poll (poll_of_row ?row xs)"
  proof -
    have len: "length xs = length (in_Options input)" using xs(1) by (metis length_map)
    have "option_check (option_row_of i x)" if "x \<in> set xs" for x using xs(3) that by blast
    then have "\<forall>x \<in> set xs. text_ok 200 (opt_Text x)" by (auto simp: option_check_def option_row_of_def text_ok_def)
    with chk assms(4) len show ?thesis
      by (simp add: wf_poll_def poll_of_row_def poll_row_of_def poll_check_def text_ok_def Validate_None_iff new_poll_def)
  qed
  moreover have "status_ok ?row" and "pr_id ?row = i"
    by (simp_all add: status_ok_def poll_row_of_def new_poll_def)
  ultimately have "row_ok d' ?row" using os assms(5) by (simp add: row_ok_def)
  moreover have "row_ok d' r" if "pr_at d v = Some r" for v r
  proof -
    have "pr_id r = v" "v \<noteq> i" using pr_at_mem [OF that] that old_none by auto
    then show ?thesis using that assms(2) os by (auto simp: db_inv_at row_ok_def)
  qed
  ultimately have "\<forall>v r. pr_at d' v = Some r \<longrightarrow> row_ok d' r" by (auto simp: pr split: if_splits)
  moreover have "result_inv d' v r" if "rr_at d' v = Some r" for v r
  proof -
    have "v \<noteq> i" "result_inv d v r" using that rr rr_none assms(2) by (auto simp: db_inv_at)
    then show ?thesis by (simp add: result_inv_def rr os pr)
  qed
  moreover have "list_all (\<lambda>x. canonical_uuid (or_id x)) (poll_options d')"
    using assms(2) xs(3) by (auto simp: d' db_inv_def list_all_iff option_row_of_def)
  ultimately show ?thesis using assms(2) ok' by (simp add: db_inv_at rr)
qed

lemma Create_state:
  assumes "fst (Create c f rnd now input d) \<noteq> d"
  shows "\<exists>i p' d'. Validate input = None \<and> NewUUID (rnd 0) = Inr i \<and>
    create_tx c f rnd now input (new_poll i input now) d = Inr (p', d') \<and> fst (Create c f rnd now input d) = d'"
  using assms run_tx_cases [of f _ d] by (fastforce simp: Create_def split: option.splits sum.splits)

lemma inv_write:
  assumes "D = server c" and "db_inv d" and "write_ok c w d"
  shows "db_inv (db_do c w d)"
proof (cases w)
  case (W_create f rnd now input)
  show ?thesis
  proof (cases "fst (Create c f rnd now input d) = d")
    case False
    obtain i p' where "Validate input = None" "NewUUID (rnd 0) = Inr i"
      "create_tx c f rnd now input (new_poll i input now) d = Inr (p', fst (Create c f rnd now input d))"
      using Create_state [OF False] by blast
    moreover have "canonical_uuid i"
      using NewUUID_canonical [OF \<open>NewUUID (rnd 0) = Inr i\<close>] assms(3) W_create by simp
    ultimately show ?thesis using inv_create [OF assms(1,2)] assms(3) W_create by simp
  qed (use W_create assms(2) in simp)
next
  case (W_publish f i now)
  then show ?thesis
    using run_tx_cases [of f "publish_tx c f i now" d] inv_publish assms(2) by auto
next
  case (W_revert f snow i t)
  then show ?thesis using inv_revert [OF assms(2)] by simp
next
  case (W_save f p t fin)
  then have "read_from d p" using assms(3) by (auto simp: read_from_def)
  from inv_save [OF assms(1,2) this] W_save assms(2) show ?thesis
    using run_tx_cases [of f "save_tx c f p t fin" d] by auto
qed

lemma inv_evolves: "evolves c d d' \<Longrightarrow> D = server c \<Longrightarrow> db_inv d \<Longrightarrow> db_inv d'"
  by (induction rule: evolves.induct) (auto intro: inv_write)

end

end
