(* ===== verification/Postgres_Props.thy ===== *)
theory Postgres_Props
  imports Postgres_Evolve
begin

text \<open>
  The properties of the repository: what a poll can become, what a read gives after a write,
  and what holds of stored results under any interleaving of writes.
\<close>

section \<open>Reads by key\<close>

definition stored :: "db \<Rightarrow> poll_row \<Rightarrow> poll" where
  "stored d r = poll_of_row r (options_of d (pr_id r))"

lemma pr_at_filter: "pr_at d u = None \<Longrightarrow> filter (\<lambda>r. pr_id r = u) (polls d) = []"
  by (auto simp: pr_at_def find_eq_None filter_empty_conv)

lemma GetByID_at:
  assumes "db_inv d" and "uuid_in (server c) i = Some u" and "f QueryPoll = Done"
  shows "GetByID c f i d = (case pr_at d u of None \<Rightarrow> Inl (Sentinel ErrNotFound) | Some r \<Rightarrow> Inr (stored d r))"
proof (cases "pr_at d u")
  case None
  with assms show ?thesis by (simp add: GetByID_def get_none pr_at_filter)
next
  case (Some r)
  then have "r \<in> set (polls d)" "pr_id r = u" using pr_at_mem by auto
  with Some assms get_stored [of d r f "\<lambda>x. pr_id x = u"] show ?thesis
    by (simp add: GetByID_def stored_def)
qed

lemma by_id_eq: "uuid_in (server c) i = Some u \<Longrightarrow> by_id c i = (\<lambda>r. pr_id r = u)"
  by (auto simp: by_id_def fun_eq_iff)

lemma map_of_key_find:
  "map_of (map (\<lambda>x. (g x, h x)) xs) k = map_option h (find (\<lambda>x. g x = k) xs)"
  by (induction xs) auto

lemma find_filter: "find P (filter Q xs) = find (\<lambda>x. Q x \<and> P x) xs"
  by (induction xs) auto

lemma result_options_at:
  assumes "uuid_in (server c) i = Some u"
  shows "result_options c i d k = map_option xr_vote_count (xr_at d (u, k))"
proof -
  have "(\<lambda>x. uuid_in (server c) i = Some (xr_poll_id x) \<and> xr_option_id x = k) = (\<lambda>x. xr_key x = (u, k))"
    using assms by (auto simp: xr_key_def fun_eq_iff)
  then show ?thesis by (simp add: result_options_def map_of_key_find find_filter xr_at_def)
qed

lemma result_head_at:
  assumes "uuid_in (server c) i = Some u"
  shows "result_head c i d = (case (pr_at d u, rr_at d u) of
      (Some p, Some r) \<Rightarrow> Inr
        \<lparr>res_PollID = pr_id p, res_Status = pr_status p,
         res_Source = (if rr_finalized_at r = None then postgres_snapshot else postgres_final),
         res_AsOf = rr_captured_at r, res_FinalizedAt = rr_finalized_at r,
         res_Participants = rr_participants_count r, res_Options = Map.empty\<rparr>
    | _ \<Rightarrow> Inl (Sentinel ErrNotFound))"
  using assms by (simp add: result_head_def by_id_eq [OF assms] pr_at_def rr_at_def eq_commute [of u])

section \<open>What a write can do to one poll\<close>

text \<open>The transitions of the status that the code allows, with the write that makes them.\<close>

fun transition :: "repo \<Rightarrow> db_write \<Rightarrow> poll_row \<Rightarrow> poll_row \<Rightarrow> bool" where
  "transition c (W_create f rnd now input) r r' = False"
| "transition c (W_publish f i now) r r' = (by_id c i r \<and> pr_status r = Draft \<and> r' = set_active c now r)"
| "transition c (W_revert f snow i t) r r' =
     (by_id c i r \<and> pr_status r = Active \<and> pr_published_at r = Some (ts (server c) t) \<and> r' = set_draft c snow r)"
| "transition c (W_save f p t fin) r r' =
     (fin \<and> pr_id r = ID p \<and> pr_status r \<noteq> Draft \<and> r' = set_closed c (tot_AsOf t) r)"

context postgres_server
begin

text \<open>Every write is nothing, a new draft, an update of poll rows along a transition, or a snapshot.\<close>

lemma publish_transition:
  assumes "publish_tx c f i now d = Inr (x, d')" and "d' \<noteq> d"
  shows "\<exists>n. update_polls (by_id c i) (set_active c now) d = Some (d', n) \<and>
    (\<forall>u r. pr_at d u = Some r \<longrightarrow> by_id c i r \<longrightarrow> pr_status r = Draft)"
proof -
  obtain v q n where v: "uuid_in (server c) i = Some v" "pr_at d v = Some q" "pr_status q = Draft"
    and up: "update_polls (by_id c i) (set_active c now) d = Some (d', n)"
    using publish_tx_Inr [OF assms(1)] assms(2) by blast
  have "pr_status r = Draft" if "pr_at d u = Some r" "by_id c i r" for u r
    using that v pr_at_mem [OF that(1)] by (auto simp: by_id_def)
  with up show ?thesis by blast
qed

lemma write_cases [consumes 3, case_names same draft update save]:
  assumes "D = server c" and "db_inv d" and "write_ok c w d"
  obtains "db_do c w d = d"
  | i row xs where "db_do c w d = d\<lparr>polls := polls d @ [row], poll_options := poll_options d @ map (option_row_of i) xs\<rparr>"
    and "pr_id row = i" and "i \<notin> pr_id ` set (polls d)" and "pr_status row = Draft" and "pr_vote_buckets row = vote_buckets c"
    and "map opt_Position xs = map int [0..<length xs]"
  | P g n where "update_polls P g d = Some (db_do c w d, n)" and "\<And>r. same_def r (g r)"
    and "\<And>u r. pr_at d u = Some r \<Longrightarrow> P r \<Longrightarrow> transition c w r (g r)"
  | f p t fin x where "w = W_save f p t fin" and "read_from d p" and "save_tx c f p t fin d = Inr (x, db_do c w d)"
    and "existing_final c (ID p) d = None"
proof (cases "db_do c w d = d")
  case changed: False
  show ?thesis
  proof (cases w)
    case (W_create f rnd now input)
    with changed obtain i p' where c: "NewUUID (rnd 0) = Inr i"
      "create_tx c f rnd now input (new_poll i input now) d = Inr (p', db_do c w d)"
      using Create_state [of c f rnd now input d] by auto
    have "canonical_uuid i" using NewUUID_canonical [OF c(1)] assms(3) W_create by simp
    then obtain xs where "db_do c w d = d\<lparr>polls := polls d @ [poll_row_of c (new_poll i input now) i now],
        poll_options := poll_options d @ map (option_row_of i) xs\<rparr>" "map opt_Position xs = map int [0..<length xs]" "i \<notin> pr_id ` set (polls d)"
      using create_tx_Inr [OF assms(1) _ c(2)] assms(3) W_create by (auto simp: new_poll_def)
    then show ?thesis
      by (intro that(2) [where i = i and row = "poll_row_of c (new_poll i input now) i now" and xs = xs]) (simp_all add: poll_row_of_def new_poll_def)
  next
    case (W_publish f i now)
    with changed obtain x where "publish_tx c f i now d = Inr (x, db_do c w d)" using run_tx_cases [of f "publish_tx c f i now" d] by auto
    from publish_transition [OF this changed] W_publish show ?thesis using that(3) same_def_set(1) by fastforce
  next
    case (W_revert f snow i t)
    with changed obtain n where up: "update_polls (published_by c i t) (set_draft c snow) d = Some (db_do c w d, n)"
      using RevertPublish_cases [of c f snow i t d] by auto
    show ?thesis by (rule that(3) [OF up same_def_set(2)]) (simp add: W_revert published_by_def)
  next
    case (W_save f p t fin)
    have rd: "read_from d p" using assms(3) W_save by (simp add: read_from_def)
    obtain x where x: "save_tx c f p t fin d = Inr (x, db_do c w d)"
      using run_tx_cases [of f "save_tx c f p t fin" d] W_save changed by auto
    then have "existing_final c (ID p) d = None" using save_tx_cases [OF x] changed by auto
    with W_save rd x show ?thesis by (rule that(4))
  qed
qed (rule that(1))

lemma write_row:
  assumes "D = server c" and "db_inv d" and "write_ok c w d" and "pr_at d u = Some r"
  shows "\<exists>r'. pr_at (db_do c w d) u = Some r' \<and> (r' = r \<or> transition c w r r')"
  using assms(1-3)
proof (cases rule: write_cases)
  case (draft i row xs)
  with assms(4) show ?thesis by (simp add: pr_at_def find_append)
next
  case (update P g n)
  with assms(4) update_polls_at(1) [OF update(1,2), of u] show ?thesis by auto
next
  case (save f p t fin x)
  from save_tx_rows(3,7) [OF assms(1,2) save(2-4)] save(1) assms(4) pr_at_mem [OF assms(4)] show ?thesis
    by (auto simp del: db_do.simps split: if_splits)
qed (use assms(4) in simp)

lemma write_status:
  assumes "transition c w r r'"
  shows "same_def r r' \<and> (pr_status r, pr_status r') \<in> {(Draft, Active), (Active, Draft), (Active, Closed), (Closed, Closed)} \<and>
    (pr_closed_at r \<noteq> None \<longrightarrow> pr_status r \<noteq> Active \<longrightarrow> pr_closed_at r' = pr_closed_at r)"
  using assms
  by (cases w; cases "pr_status r") (auto simp: set_active_def set_draft_def set_closed_def same_def_def)

lemma evolve_row:
  assumes "evolves c d d'" and "D = server c" and "db_inv d" and "pr_at d u = Some r"
  shows "\<exists>r'. pr_at d' u = Some r' \<and> same_def r r' \<and>
    (pr_status r = Closed \<longrightarrow> pr_status r' = Closed \<and> pr_closed_at r' = pr_closed_at r)"
  using assms(1)
proof (induction rule: evolves.induct)
  case none
  then show ?case using assms(4) by simp
next
  case (more d' w)
  obtain r1 where r1: "pr_at d' u = Some r1" "same_def r r1"
    "pr_status r = Closed \<longrightarrow> pr_status r1 = Closed \<and> pr_closed_at r1 = pr_closed_at r"
    using more.IH by blast
  have inv: "db_inv d'" using inv_evolves [OF more.hyps(1) assms(2,3)] .
  obtain r2 where r2: "pr_at (db_do c w d') u = Some r2" "r2 = r1 \<or> transition c w r1 r2"
    using write_row [OF assms(2) inv more.hyps(2) r1(1)] by blast
  have closed: "pr_status r1 = Closed \<Longrightarrow> pr_closed_at r1 \<noteq> None"
  proof -
    have "status_ok r1" using inv r1(1) by (simp add: db_inv_at row_ok_def)
    then show "pr_status r1 = Closed \<Longrightarrow> pr_closed_at r1 \<noteq> None" by (simp add: status_ok_def)
  qed
  from r2(2) show ?case
  proof
    assume "transition c w r1 r2"
    from write_status [OF this] r1 r2(1) closed same_def_trans [OF r1(2)] show ?thesis by auto
  qed (use r1 r2(1) in auto)
qed

text \<open>A row that was not there is a new draft.\<close>

lemma write_new_row:
  assumes "D = server c" and "db_inv d" and "write_ok c w d" and "pr_at d u = None"
  shows "\<forall>r'. pr_at (db_do c w d) u = Some r' \<longrightarrow> pr_status r' = Draft \<and> pr_vote_buckets r' = vote_buckets c"
  using assms(1-3)
proof (cases rule: write_cases)
  case (draft i row xs)
  with assms(4) show ?thesis by (auto simp: pr_at_def find_append)
next
  case (update P g n)
  with assms(4) update_polls_at(1) [OF update(1,2), of u] show ?thesis by auto
next
  case (save f p t fin x)
  from save_tx_rows(3) [OF assms(1,2) save(2-4)] assms(4) show ?thesis by auto
qed (use assms(4) in simp)

text \<open>Options of a stored poll do not change.\<close>

lemma write_options:
  assumes "D = server c" and "db_inv d" and "write_ok c w d" and "pr_at d u \<noteq> None"
  shows "options_of (db_do c w d) u = options_of d u"
  using assms(1-3)
proof (cases rule: write_cases)
  case (draft i row xs)
  then have "u \<noteq> i" using assms(4) pr_at_mem by (metis image_eqI not_None_eq)
  then show ?thesis using options_of_created [OF draft(6) _ draft(3,1), of u] assms(2) by (simp add: db_inv_def)
next
  case (update P g n)
  with update_polls_at(2) [OF update(1,2)] show ?thesis by (simp add: options_of_def)
next
  case (save f p t fin x)
  from save_tx_rows(5) [OF assms(1,2) save(2-4)] show ?thesis by (simp add: options_of_def)
qed simp

text \<open>Only a snapshot writes to the tables of results, and not when the stored result is final.\<close>

lemma write_results:
  assumes "D = server c" and "db_inv d" and "write_ok c w d"
  obtains "poll_runtime_results (db_do c w d) = poll_runtime_results d" and "poll_option_results (db_do c w d) = poll_option_results d"
  | f p t fin x where "w = W_save f p t fin" and "read_from d p" and "save_tx c f p t fin d = Inr (x, db_do c w d)"
    and "existing_final c (ID p) d = None"
  using assms
proof (cases rule: write_cases)
  case (update P g n)
  with update_polls_at(2) [OF update(1,2)] show ?thesis by (intro that(1)) simp_all
qed (auto intro: that)

text \<open>A final result does not change.\<close>

lemma write_final:
  assumes "D = server c" and "db_inv d" and "write_ok c w d" and "rr_at d u = Some r" and "rr_finalized_at r \<noteq> None"
  shows "rr_at (db_do c w d) u = Some r \<and> (\<forall>i. xr_at (db_do c w d) (u, i) = xr_at d (u, i))"
  using assms(1-3)
proof (cases rule: write_results)
  case 1
  with assms(4) show ?thesis by (simp add: rr_at_def xr_at_def)
next
  case (2 f p t fin x)
  then have "ID p \<noteq> u" using not_final [OF assms(1,2) 2(2,4), of r] assms(4,5) by auto
  with save_tx_rows(1,2) [OF assms(1,2) 2(2-4)] assms(4) show ?thesis by auto
qed

lemma evolve_final:
  assumes "evolves c d d'" and "D = server c" and "db_inv d" and "rr_at d u = Some r" and "rr_finalized_at r \<noteq> None"
  shows "rr_at d' u = Some r \<and> (\<forall>i. xr_at d' (u, i) = xr_at d (u, i))"
  using assms(1)
proof (induction rule: evolves.induct)
  case none
  then show ?case using assms(4) by simp
next
  case (more d' w)
  have "db_inv d'" using inv_evolves [OF more.hyps(1) assms(2,3)] .
  from write_final [OF assms(2) this more.hyps(2) _ assms(5)] more.IH show ?case by auto
qed

end

section \<open>A concrete repository\<close>

text \<open>A repository on the server \<open>Pg\<close>, random bytes, and a poll of two options.\<close>

definition demo_repo :: repo where
  "demo_repo = \<lparr>server = Pg, vote_buckets = 16\<rparr>"

definition demo_rnd :: "nat \<Rightarrow> byte list option" where
  "demo_rnd k = Some (replicate 16 (word_of_nat k))"

definition demo_input :: create_poll where
  "demo_input = \<lparr>in_Question = ''Q'', in_Type = SingleChoice, in_MaxChoices = 1, in_StartsAt = 0,
     in_EndsAt = Hour, in_Options = [''yes'', ''no'']\<rparr>"

definition demo_db :: db where
  "demo_db = fst (Create demo_repo no_faults demo_rnd 1500 demo_input empty_db)"

definition demo_id :: string where
  "demo_id = ''00000000-0000-4000-8000-000000000000''"

lemma demo_server: "postgres_server (server demo_repo)"
  using pg.postgres_server_axioms by (simp add: demo_repo_def)

lemma demo_rnd_16: "\<forall>k b. demo_rnd k = Some b \<longrightarrow> length b = 16"
  by (simp add: demo_rnd_def)

lemma demo_inv: "db_inv demo_db"
proof -
  have "write_ok demo_repo (W_create no_faults demo_rnd 1500 demo_input) empty_db" using demo_rnd_16 by simp
  from postgres_server.inv_write [OF demo_server refl db_inv_empty this] show ?thesis by (simp add: demo_db_def)
qed


lemma demo_texts:
  "trim_space ''yes'' = ''yes''" "trim_space ''no'' = ''no''" "trim_space ''Q'' = ''Q''"
  "rune_count ''yes'' = 3" "rune_count ''no'' = 2" "rune_count ''Q'' = 1"
  by (simp_all add: trim_space_plain is_space_def rune_count_ascii)

lemma demo_valid: "Validate demo_input = None"
  by (simp add: Validate_def demo_input_def demo_texts option_text_ok_def duration_unit_defs)

abbreviation demo_yes :: string where "demo_yes \<equiv> ''01010101-0101-4101-8101-010101010101''"
abbreviation demo_no :: string where "demo_no \<equiv> ''02020202-0202-4202-8202-020202020202''"

lemma demo_uuids: "NewUUID (demo_rnd 0) = Inr demo_id" "NewUUID (demo_rnd 1) = Inr demo_yes"
  "NewUUID (demo_rnd 2) = Inr demo_no"
  by code_simp+

lemma demo_in: "uuid_in Pg demo_id = Some demo_id" "uuid_in Pg demo_yes = Some demo_yes"
  "uuid_in Pg demo_no = Some demo_no"
  by code_simp+

lemma demo_text_in: "text_in Pg ''yes''" "text_in Pg ''no''" "text_in Pg ''Q''" "text_in Pg (poll_slug demo_id)"
  by code_simp+

lemma demo_ts: "ts Pg 0 = 0" "ts Pg Hour = Hour" "ts Pg Second = Second" "ts Pg 1500 = 1000"
    "ts Pg (2 * Second) = 2 * Second" "ts Pg Minute = Minute"
  by (simp_all add: Pg_def Prelude.truncate_def duration_unit_defs)

definition demo_opts :: "opt list" where
  "demo_opts = [\<lparr>opt_ID = demo_yes, opt_Text = ''yes'', opt_Position = 0\<rparr>,
     \<lparr>opt_ID = demo_no, opt_Text = ''no'', opt_Position = 1\<rparr>]"

definition demo_row :: poll_row where
  "demo_row = poll_row_of demo_repo (new_poll demo_id demo_input 1500) demo_id 1500"

lemma demo_create:
  "Create demo_repo no_faults demo_rnd 1500 demo_input empty_db =
   (\<lparr>polls = [demo_row], poll_options = map (option_row_of demo_id) demo_opts,
     poll_runtime_results = [], poll_option_results = []\<rparr>,
    Inr ((new_poll demo_id demo_input 1500)\<lparr>Options := demo_opts\<rparr>))"
proof -
  have s: "server demo_repo = Pg" "vote_buckets demo_repo = 16" by (simp_all add: demo_repo_def)
  let ?p = "new_poll demo_id demo_input 1500"
  have p: "ID ?p = demo_id" "Question ?p = ''Q''" "Slug ?p = poll_slug demo_id" "Options ?p = []"
    by (simp_all add: new_poll_def demo_input_def demo_texts)
  have h: "0 < Hour" by (simp add: duration_unit_defs)
  have "poll_check demo_row"
    by (simp add: demo_row_def poll_check_def poll_row_of_def new_poll_def demo_input_def demo_texts s demo_ts h)
  then have i: "insert_new_poll demo_repo ?p 1500 empty_db = Some (empty_db\<lparr>polls := [demo_row]\<rparr>)"
    by (simp add: insert_new_poll_def insert_poll_def s demo_in text_arg_def demo_text_in p empty_db_def demo_row_def)
  have "in_Options demo_input = [''yes'', ''no'']" and "pr_id demo_row = demo_id"
    by (simp_all add: demo_input_def demo_row_def poll_row_of_def)
  with i show ?thesis
    by (simp add: Create_def demo_valid demo_uuids run_tx_def no_faults_def create_tx_def and_then_def stmt_def p
        insert_new_option_def s demo_in demo_text_in text_arg_def demo_texts insert_option_def option_check_def
        empty_db_def option_row_of_def commit_def demo_opts_def One_nat_def [symmetric] del: One_nat_def)
qed

end
