(* ===== verification/Postgres_Claims.thy ===== *)
theory Postgres_Claims
  imports Postgres_Props
begin

text \<open>
  The claims about the repository, each over the operations as the code has them, with a
  witness on the repository \<open>demo_repo\<close>.
\<close>

section \<open>Helper lemmas\<close>

lemma demo_state:
  "demo_db = \<lparr>polls = [demo_row], poll_options = map (option_row_of demo_id) demo_opts,
     poll_runtime_results = [], poll_option_results = []\<rparr>"
  using demo_create by (simp add: demo_db_def)

lemma demo_rows: "pr_at demo_db demo_id = Some demo_row" "options_of demo_db demo_id = demo_opts"
  "rr_at demo_db u = None" "pr_id demo_row = demo_id" "pr_status demo_row = Draft"
  by (simp_all add: demo_state pr_at_def rr_at_def options_of_def demo_row_def poll_row_of_def new_poll_def
      option_row_of_def demo_opts_def option_of_row_def)

lemma Create_Inr:
  assumes "Create c f rnd now input d = (d', Inr p)"
  shows "\<exists>i. Validate input = None \<and> NewUUID (rnd 0) = Inr i \<and>
    create_tx c f rnd now input (new_poll i input now) d = Inr (p, d')"
proof -
  obtain i where v: "Validate input = None" "NewUUID (rnd 0) = Inr i"
    using assms by (auto simp: Create_def split: option.splits sum.splits)
  then have "run_tx f (create_tx c f rnd now input (new_poll i input now)) d = (d', Inr p)"
    using assms by (simp add: Create_def)
  with run_tx_Inr [of f "create_tx c f rnd now input (new_poll i input now)" d p] v show ?thesis by auto
qed

lemma create_tx_slug: "create_tx c f rnd now input p d = Inr (p', d') \<Longrightarrow> text_in (server c) (Slug p)"
  by (auto simp: create_tx_def and_then_Inr stmt_Inr insert_new_poll_def text_arg_def split: option.splits if_splits)

lemma GetBySlug_stored:
  assumes "db_inv d" and "r \<in> set (polls d)" and "text_in (server c) (pr_slug r)" and "f QueryPoll = Done"
  shows "GetBySlug c f (pr_slug r) d = Inr (stored d r)"
  using get_stored [of d r f "\<lambda>x. pr_slug x = pr_slug r"] assms
  by (simp add: GetBySlug_def stored_def)

lemma run_tx_fails:
  "snd (run_tx f body d) = Inl e \<Longrightarrow> f Commit \<noteq> ReplyLost \<Longrightarrow> fst (run_tx f body d) = d"
  by (cases "f Commit") (auto simp: run_tx_def commit_def split_beta split: sum.splits if_splits)

section \<open>Creating and reading\<close>

text \<open>What a new row adds, and what it leaves as it is.\<close>

lemma pr_at_added:
  assumes "polls d' = polls d @ [r]" and "pr_id r \<notin> pr_id ` set (polls d)"
  shows "pr_at d' u = (if u = pr_id r then Some r else pr_at d u)"
proof -
  have "pr_at d (pr_id r) = None" using assms(2) unfolding pr_at_def find_eq_None by (metis image_eqI)
  moreover have "pr_at d' u = (case pr_at d u of None \<Rightarrow> if u = pr_id r then Some r else None | Some r' \<Rightarrow> Some r')"
    by (auto simp: assms(1) pr_at_def find_append split: option.split)
  ultimately show ?thesis by (simp split: option.split)
qed

lemma GetByID_same:
  assumes "db_inv d" and "db_inv d'"
    and "\<And>u. uuid_in (server c) i = Some u \<Longrightarrow> pr_at d' u = pr_at d u"
    and "\<And>u r. uuid_in (server c) i = Some u \<Longrightarrow> pr_at d u = Some r \<Longrightarrow> stored d' r = stored d r"
  shows "GetByID c no_faults i d' = GetByID c no_faults i d"
proof (cases "uuid_in (server c) i")
  case (Some u)
  show ?thesis
    using GetByID_at [OF assms(1) Some, of no_faults] GetByID_at [OF assms(2) Some, of no_faults] assms(3,4) [OF Some]
    by (simp add: no_faults_def split: option.split)
qed (simp add: GetByID_def)

text \<open>C15. A poll that Create returns is what GetByID and GetBySlug give afterwards, with its times rounded
  to what TIMESTAMPTZ stores; it is a well-formed draft with the trimmed options in order, and
  no other poll changes.\<close>

theorem Create_then_read:
  assumes "postgres_server (server c)" and "db_inv d" and "\<forall>k b. rnd k = Some b \<longrightarrow> length b = 16"
    and "Create c f rnd now input d = (d', Inr p)"
  shows "(let q = p\<lparr>StartsAt := ts (server c) (in_StartsAt input), EndsAt := ts (server c) (in_EndsAt input),
                     CreatedAt := ts (server c) now, UpdatedAt := ts (server c) now\<rparr>
     in GetByID c no_faults (ID p) d' = Inr q \<and> GetBySlug c no_faults (Slug p) d' = Inr q \<and> wf_poll q) \<and>
    Status p = Draft \<and> Question p = trim_space (in_Question input) \<and>
    map opt_Text (Options p) = map trim_space (in_Options input) \<and>
    (\<forall>i. uuid_in (server c) i \<noteq> Some (ID p) \<longrightarrow> GetByID c no_faults i d' = GetByID c no_faults i d)"
proof -
  obtain i where v: "Validate input = None" and i: "NewUUID (rnd 0) = Inr i"
    and tx: "create_tx c f rnd now input (new_poll i input now) d = Inr (p, d')"
    using Create_Inr [OF assms(4)] by blast
  let ?p = "new_poll i input now"
  let ?row = "poll_row_of c ?p i now"
  have can: "canonical_uuid i" using NewUUID_canonical [OF i] assms(3) by blast
  obtain xs where p: "p = ?p\<lparr>Options := xs\<rparr>"
    and d': "d' = d\<lparr>polls := polls d @ [?row], poll_options := poll_options d @ map (option_row_of i) xs\<rparr>"
    and xs: "map opt_Text xs = map trim_space (in_Options input)" "map opt_Position xs = map int [0..<length xs]"
    and new: "i \<notin> pr_id ` set (polls d)"
    using postgres_server.create_tx_Inr [OF assms(1) refl assms(3) tx] can by (auto simp: new_poll_def)
  have ok: "db_ok d" using assms(2) by (simp add: db_inv_def)
  note os = postgres_server.options_of_created [OF assms(1) xs(2) ok new d']
  have inv: "db_inv d'" using postgres_server.inv_create [OF assms(1) refl assms(2,3) v can tx] .
  have row: "?row \<in> set (polls d')" "pr_id ?row = i" "pr_slug ?row = Slug ?p"
    by (simp_all add: d' poll_row_of_def)
  have pr: "pr_at d' u = (if u = i then Some ?row else pr_at d u)" for u
    using pr_at_added [of d' d ?row u] new row(2) by (simp add: d')
  let ?q = "p\<lparr>StartsAt := ts (server c) (in_StartsAt input), EndsAt := ts (server c) (in_EndsAt input),
              CreatedAt := ts (server c) now, UpdatedAt := ts (server c) now\<rparr>"
  have q: "stored d' ?row = ?q"
    using os [of i] by (simp add: stored_def poll_of_row_def poll_row_of_def p new_poll_def)
  have u: "uuid_in (server c) (ID p) = Some i"
    using postgres_server.uuid_canonical [OF assms(1) can] by (simp add: p new_poll_def)
  have "GetByID c no_faults (ID p) d' = Inr ?q"
    using GetByID_at [OF inv u] pr [of i] q by (simp add: no_faults_def)
  moreover have "GetBySlug c no_faults (Slug p) d' = Inr ?q"
    using GetBySlug_stored [OF inv row(1)] create_tx_slug [OF tx] q row(3) by (simp add: no_faults_def p)
  moreover have "wf_poll ?q"
    using inv row(1) q by (auto simp: db_inv_def list_all_iff row_ok_def stored_def [symmetric])
  moreover have "GetByID c no_faults k d' = GetByID c no_faults k d" if "uuid_in (server c) k \<noteq> Some (ID p)" for k
    by (rule GetByID_same [OF assms(2) inv]) (use that pr os in \<open>auto simp: stored_def p new_poll_def dest: pr_at_mem\<close>)
  ultimately show ?thesis using xs(1) by (simp add: p new_poll_def Let_def)
qed

theorem Create_then_read_witness:
  "GetByID demo_repo no_faults demo_id demo_db =
     Inr ((new_poll demo_id demo_input 1500)\<lparr>Options := demo_opts, CreatedAt := 1000, UpdatedAt := 1000\<rparr>)"
  using Create_then_read [OF demo_server db_inv_empty demo_rnd_16 demo_create]
  by (simp add: Let_def demo_state new_poll_def demo_repo_def demo_input_def demo_ts)



section \<open>The life of a poll\<close>

text \<open>C17. Whatever any processes do, a stored poll keeps its definition - question, type, choices, times,
  options - which is what lets the services cache it; and a closed poll stays closed.\<close>

theorem definition_and_closing_are_permanent:
  assumes "postgres_server (server c)" and "db_inv d" and "evolves c d d'"
    and "GetByID c no_faults i d = Inr p"
  shows "\<exists>p'. GetByID c no_faults i d' = Inr p' \<and> ID p' = ID p \<and> Slug p' = Slug p \<and> Question p' = Question p \<and>
    Type p' = Type p \<and> MaxChoices p' = MaxChoices p \<and> StartsAt p' = StartsAt p \<and> EndsAt p' = EndsAt p \<and>
    CreatedAt p' = CreatedAt p \<and> Options p' = Options p \<and>
    (Status p = Closed \<longrightarrow> Status p' = Closed \<and> ClosedAt p' = ClosedAt p)"
proof -
  obtain u where u: "uuid_in (server c) i = Some u" using assms(4) by (auto simp: GetByID_def split: option.splits)
  from assms(4) GetByID_at [OF assms(2) u] obtain r where r: "pr_at d u = Some r" "p = stored d r"
    by (auto simp: no_faults_def split: option.splits)
  obtain r' where r': "pr_at d' u = Some r'" "same_def r r'"
    "pr_status r = Closed \<longrightarrow> pr_status r' = Closed \<and> pr_closed_at r' = pr_closed_at r"
    using postgres_server.evolve_row [OF assms(1,3) refl assms(2) r(1)] by blast
  have inv: "db_inv d'" using postgres_server.inv_evolves [OF assms(1,3) refl assms(2)] .
  have "options_of d' u = options_of d u"
    using assms(3)
  proof (induction rule: evolves.induct)
    case (more d1 w)
    have "pr_at d1 u \<noteq> None" using postgres_server.evolve_row [OF assms(1) more.hyps(1) refl assms(2) r(1)] by auto
    moreover have "db_inv d1" using postgres_server.inv_evolves [OF assms(1) more.hyps(1) refl assms(2)] .
    ultimately show ?case
      using postgres_server.write_options [OF assms(1) refl _ more.hyps(2)] more.IH by simp
  qed simp
  moreover have "pr_id r = u" "pr_id r' = u" using pr_at_mem r(1) r'(1) by blast+
  moreover have "GetByID c no_faults i d' = Inr (stored d' r')"
    using GetByID_at [OF inv u] r'(1) by (simp add: no_faults_def)
  ultimately show ?thesis
    using r(2) r'(2,3) by (simp add: stored_def poll_of_row_def same_def_def)
qed

lemma demo_published: "evolves demo_repo demo_db (db_do demo_repo (W_publish no_faults demo_id Minute) demo_db)"
  by (rule evolves_one) simp

theorem definition_and_closing_are_permanent_witness:
  "\<exists>p'. GetByID demo_repo no_faults demo_id (db_do demo_repo (W_publish no_faults demo_id Minute) demo_db) = Inr p' \<and>
     Options p' = demo_opts"
proof -
  have "GetByID demo_repo no_faults demo_id demo_db = Inr (stored demo_db demo_row)"
    using GetByID_at [OF demo_inv, of demo_repo demo_id demo_id no_faults] demo_rows(1)
    by (simp add: no_faults_def demo_repo_def demo_in)
  from definition_and_closing_are_permanent [OF demo_server demo_inv demo_published this] demo_rows
  show ?thesis by (auto simp: stored_def poll_of_row_def)
qed

text \<open>C18. One write changes the status of a poll only from draft to active (Publish of it), from active
  back to draft (RevertPublish with the time it was published at), or to closed (a final
  snapshot of an active or closed poll); a poll that a write adds is a draft.\<close>

theorem status_changes_only_as_documented:
  assumes "postgres_server (server c)" and "db_inv d" and "write_ok c w d"
  shows "case pr_at d u of
      None \<Rightarrow> (\<forall>r'. pr_at (db_do c w d) u = Some r' \<longrightarrow> pr_status r' = Draft)
    | Some r \<Rightarrow> (\<exists>r'. pr_at (db_do c w d) u = Some r' \<and>
        (pr_status r' = pr_status r \<or>
         pr_status r = Draft \<and> pr_status r' = Active \<and> (\<exists>f i now. w = W_publish f i now \<and> uuid_in (server c) i = Some u) \<or>
         pr_status r = Active \<and> pr_status r' = Draft \<and>
           (\<exists>f snow i t. w = W_revert f snow i t \<and> pr_published_at r = Some (ts (server c) t)) \<or>
         pr_status r = Active \<and> pr_status r' = Closed \<and> (\<exists>f p t. w = W_save f p t True \<and> ID p = u)))"
proof (cases "pr_at d u")
  case (Some r)
  then obtain r' where r': "pr_at (db_do c w d) u = Some r'" "r' = r \<or> transition c w r r'"
    using postgres_server.write_row [OF assms(1) refl assms(2,3)] by blast
  have u: "pr_id r = u" using pr_at_mem [OF Some] by simp
  show ?thesis
  proof (cases "r' = r")
    case False
    with r'(2) have "transition c w r r'" by simp
    then show ?thesis
      using Some r'(1) u
      by (cases w; cases "pr_status r") (auto simp: by_id_def set_active_def set_draft_def set_closed_def)
  qed (use Some r'(1) in simp)
next
  case None
  show ?thesis using None postgres_server.write_new_row [OF assms(1) refl assms(2,3) None] by simp
qed

theorem status_changes_only_as_documented_witness:
  "\<exists>r'. pr_at (db_do demo_repo (W_publish no_faults demo_id Minute) demo_db) demo_id = Some r' \<and>
     pr_status r' \<noteq> Closed"
proof -
  have "write_ok demo_repo (W_publish no_faults demo_id Minute) demo_db" by simp
  from status_changes_only_as_documented [OF demo_server demo_inv this, of demo_id] demo_rows
  show ?thesis by auto
qed

section \<open>The list of polls\<close>

lemma group_polls_one:
  assumes "xs \<noteq> []" and "ps = [] \<or> ID (last ps) \<noteq> pr_id r"
  shows "group_polls ps (map (Pair r) xs @ rows) = group_polls (ps @ [poll_of_row r (map option_of_row xs)]) rows"
proof -
  have more: "group_polls (ps @ [poll_of_row r os]) (map (Pair r) ys @ rows) =
      group_polls (ps @ [poll_of_row r (os @ map option_of_row ys)]) rows" for os ys
    by (induction ys arbitrary: os) (simp_all add: Let_def poll_of_row_def)
  obtain x ys where xs: "xs = x # ys" using assms(1) by (cases xs) auto
  have "group_polls ps (map (Pair r) xs @ rows) =
      group_polls (ps @ [poll_of_row r [option_of_row x]]) (map (Pair r) ys @ rows)"
    using assms(2) by (simp add: xs Let_def poll_of_row_def)
  with more [of "[option_of_row x]" ys] show ?thesis by (simp add: xs)
qed

lemma group_polls_rows:
  assumes "distinct (map pr_id rs)" and "\<forall>r \<in> set rs. opts r \<noteq> []"
    and "ps = [] \<or> ID (last ps) \<notin> pr_id ` set rs"
  shows "group_polls ps (concat (map (\<lambda>r. map (Pair r) (opts r)) rs)) =
    ps @ map (\<lambda>r. poll_of_row r (map option_of_row (opts r))) rs"
  using assms
proof (induction rs arbitrary: ps)
  case Nil
  then show ?case by simp
next
  case (Cons r rs)
  have "group_polls ps (concat (map (\<lambda>r. map (Pair r) (opts r)) (r # rs))) =
      group_polls (ps @ [poll_of_row r (map option_of_row (opts r))]) (concat (map (\<lambda>r. map (Pair r) (opts r)) rs))"
    using group_polls_one [of "opts r" ps r] Cons.prems(2,3) by auto
  also have "\<dots> = (ps @ [poll_of_row r (map option_of_row (opts r))]) @
      map (\<lambda>r. poll_of_row r (map option_of_row (opts r))) rs"
  proof (rule Cons.IH)
    have "ID (poll_of_row r (map option_of_row (opts r))) \<notin> pr_id ` set rs"
      using Cons.prems(1) by (simp add: poll_of_row_def)
    then show "ps @ [poll_of_row r (map option_of_row (opts r))] = [] \<or>
        ID (last (ps @ [poll_of_row r (map option_of_row (opts r))])) \<notin> pr_id ` set rs" by simp
  qed (use Cons.prems in auto)
  finally show ?case by simp
qed

text \<open>C19. ListRecent gives the newest polls first, as many as asked for, each with its options in order and
  no poll twice, although it reads one row per option; a page of n is the first n of any longer
  page.\<close>

theorem ListRecent_newest_first:
  assumes "db_inv d" and "f QueryRecent = Done"
  shows "\<exists>rs. ListRecent c f n d = Inr (map (stored d) rs) \<and> rs = take n (newest_first (polls d)) \<and>
    length rs = min n (length (polls d)) \<and> set rs \<subseteq> set (polls d) \<and> distinct (map pr_id rs) \<and>
    sorted (rev (map pr_created_at rs))"
proof -
  let ?rs = "take n (newest_first (polls d))"
  let ?opts = "\<lambda>r. sort_key or_position (filter (\<lambda>x. or_poll_id x = pr_id r) (poll_options d))"
  have sub: "set ?rs \<subseteq> set (polls d)" using set_take_subset by (fastforce simp: newest_first_def)
  have dist: "distinct (map pr_id (newest_first (polls d)))"
    using assms(1) by (simp add: newest_first_def db_inv_def db_ok_def distinct_map rev_map [symmetric])
  have d: "distinct (map pr_id ?rs)" using dist by (simp add: take_map [symmetric])
  have ne: "?opts r \<noteq> []" if "r \<in> set ?rs" for r
  proof -
    have "row_ok d r" using assms(1) sub that by (auto simp: db_inv_def list_all_iff)
    then have "options_of d (pr_id r) \<noteq> []" by (auto simp: row_ok_def wf_poll_def poll_of_row_def)
    then show ?thesis by (simp add: options_of_def)
  qed
  have "recent_rows n d = concat (map (\<lambda>r. map (Pair r) (?opts r)) ?rs)" by (simp add: recent_rows_def)
  then have "group_polls [] (recent_rows n d) = map (\<lambda>r. poll_of_row r (map option_of_row (?opts r))) ?rs"
    using group_polls_rows [OF d, of ?opts "[]"] ne by simp
  then have "ListRecent c f n d = Inr (map (stored d) ?rs)"
    using assms(2) by (simp add: ListRecent_def stored_def [abs_def] options_of_def)
  moreover have "sorted (map pr_created_at (sort_key (\<lambda>r. (pr_created_at r, pr_id r)) (polls d)))"
  proof -
    have "sorted (map (\<lambda>r. (pr_created_at r, pr_id r)) (sort_key (\<lambda>r. (pr_created_at r, pr_id r)) (polls d)))"
      by (rule sorted_sort_key)
    then show ?thesis by (auto simp: sorted_map elim: sorted_wrt_mono_rel [rotated])
  qed
  then have "sorted (rev (map pr_created_at ?rs))"
    by (simp add: newest_first_def rev_map take_rev sorted_wrt_drop drop_map [symmetric])
  moreover have "length ?rs = min n (length (polls d))" by (simp add: newest_first_def)
  ultimately show ?thesis using sub d by blast
qed

theorem ListRecent_newest_first_witness:
  "ListRecent demo_repo no_faults 5 demo_db = Inr [stored demo_db demo_row]"
  using ListRecent_newest_first [OF demo_inv, of no_faults demo_repo 5]
  by (auto simp: no_faults_def demo_state newest_first_def)

section \<open>Buckets\<close>

lemma buckets_None:
  "ValidateActiveBuckets c f d = None \<longleftrightarrow> f QueryCount = Done \<and>
     (\<forall>r \<in> set (polls d). pr_status r = Active \<longrightarrow> pr_vote_buckets r = vote_buckets c)"
  by (auto simp: ValidateActiveBuckets_def Let_def filter_empty_conv)

lemma active_buckets_kept:
  assumes "postgres_server (server c)" and "db_inv d" and "evolves c d d'"
    and "ValidateActiveBuckets c no_faults d = None"
  shows "ValidateActiveBuckets c no_faults d' = None"
  using assms(3)
proof (induction rule: evolves.induct)
  case none
  show ?case by (rule assms(4))
next
  case (more d1 w)
  have inv: "db_inv d1" using postgres_server.inv_evolves [OF assms(1) more.hyps(1) refl assms(2)] .
  have inv': "db_ok (db_do c w d1)"
    using postgres_server.inv_write [OF assms(1) refl inv more.hyps(2)] by (simp add: db_inv_def)
  have "pr_vote_buckets r' = vote_buckets c" if r': "r' \<in> set (polls (db_do c w d1))" "pr_status r' = Active" for r'
  proof (cases "pr_at d1 (pr_id r')")
    case None
    then show ?thesis
      using postgres_server.write_new_row [OF assms(1) refl inv more.hyps(2) None] mem_pr_at [OF inv' r'(1)] by simp
  next
    case (Some r)
    then have "r' = r \<or> transition c w r r'"
      using postgres_server.write_row [OF assms(1) refl inv more.hyps(2) Some] mem_pr_at [OF inv' r'(1)] by auto
    then show ?thesis
      using more.IH pr_at_mem [OF Some] r'(2)
      by (cases w) (auto simp: buckets_None set_active_def set_draft_def set_closed_def)
  qed
  then show ?case by (simp add: buckets_None no_faults_def)
qed

text \<open>Once the check at start-up has found every active poll on the configured number of buckets, it
  stays so under all writes of processes with that configuration: no vote goes to a bucket that
  the totals do not read.\<close>

theorem active_buckets_stay_valid:
  assumes "postgres_server (server c)" and "db_inv d" and "evolves c d d'"
    and "ValidateActiveBuckets c no_faults d = None"
  shows "ValidateActiveBuckets c no_faults d' = None"
  by (rule active_buckets_kept [OF assms])

theorem active_buckets_stay_valid_witness:
  "ValidateActiveBuckets demo_repo no_faults (db_do demo_repo (W_publish no_faults demo_id Minute) demo_db) = None"
  by (rule active_buckets_stay_valid [OF demo_server demo_inv demo_published])
     (simp add: buckets_None no_faults_def demo_state demo_rows)

end
