(* ===== verification/Postgres_Results.thy ===== *)
theory Postgres_Results
  imports Postgres_Claims
begin

text \<open>
  The claims about stored results: a snapshot is stored whole, a final result is permanent; and
  the two ways in which the code falls short of that.
\<close>

section \<open>Results by key\<close>

text \<open>The result that \<open>LoadResult\<close> builds from the rows of a poll.\<close>

definition result_at :: "db \<Rightarrow> poll_row \<Rightarrow> result_row \<Rightarrow> poll_result" where
  "result_at d p r =
     \<lparr>res_PollID = pr_id p, res_Status = pr_status p,
      res_Source = (if rr_finalized_at r = None then postgres_snapshot else postgres_final),
      res_AsOf = rr_captured_at r, res_FinalizedAt = rr_finalized_at r,
      res_Participants = rr_participants_count r,
      res_Options = (\<lambda>k. map_option xr_vote_count (xr_at d (pr_id p, k)))\<rparr>"

lemma no_fault: "no_faults k = Done"
  by (simp add: no_faults_def)

lemma LoadResult_at:
  assumes "uuid_in (server c) i = Some u" and "f QueryResult = Done" and "f QueryOptions = Done"
  shows "LoadResult c f (\<lambda>x. x) i d = (d, case (pr_at d u, rr_at d u) of
      (Some p, Some r) \<Rightarrow> Inr (result_at d p r) | _ \<Rightarrow> Inl (Sentinel ErrNotFound))"
proof -
  have o: "result_options c i d = (\<lambda>k. map_option xr_vote_count (xr_at d (u, k)))"
    using result_options_at [OF assms(1)] by auto
  show ?thesis
  proof (cases "pr_at d u")
    case None
    then show ?thesis
      using assms by (simp add: LoadResult_def and_then_def stmt_def result_head_at [OF assms(1)])
  next
    case (Some p)
    then have "pr_id p = u" using pr_at_mem by blast
    with Some o show ?thesis
      using assms by (simp add: LoadResult_def and_then_def stmt_def result_head_at [OF assms(1)] result_at_def
        split: option.split)
  qed
qed

lemma existing_final_at:
  "uuid_in (server c) i = Some u \<Longrightarrow>
   existing_final c i d = (case rr_at d u of None \<Rightarrow> None | Some r \<Rightarrow> rr_finalized_at r)"
  by (simp add: existing_final_def rr_at_def eq_commute [of u])

lemma read_from_id:
  assumes "postgres_server (server c)" and "db_inv d" and "read_from d p"
  shows "canonical_uuid (ID p)" and "uuid_in (server c) (ID p) = Some (ID p)"
    and "Options p = options_of d (ID p)" and "\<exists>r. pr_at d (ID p) = Some r"
proof -
  obtain r where r: "r \<in> set (polls d)" "ID p = pr_id r" "Options p = options_of d (ID p)"
    using assms(3) by (auto simp: read_from_def)
  with assms(2) show can: "canonical_uuid (ID p)" by (auto simp: db_inv_def row_ok_def list_all_iff)
  show "uuid_in (server c) (ID p) = Some (ID p)" using postgres_server.uuid_canonical [OF assms(1) can] .
  show "Options p = options_of d (ID p)" by (rule r(3))
  show "\<exists>r. pr_at d (ID p) = Some r" using mem_pr_at r(1,2) assms(2) by (metis db_inv_def)
qed

text \<open>What is stored of a poll only gets newer, until it is final.\<close>

definition at_least :: "db \<Rightarrow> string \<Rightarrow> time \<Rightarrow> bool" where
  "at_least d u t \<longleftrightarrow> (\<exists>r. rr_at d u = Some r \<and> (rr_finalized_at r \<noteq> None \<or> t \<le> rr_captured_at r))"

context postgres_server
begin

lemma write_newer:
  assumes "D = server c" and "db_inv d" and "write_ok c w d" and "at_least d u t"
  shows "at_least (db_do c w d) u t"
  using assms(1-3)
proof (cases rule: write_results)
  case 1
  with assms(4) show ?thesis by (simp add: at_least_def rr_at_def)
next
  case (2 f p t' fin x)
  note rows = save_tx_rows(1) [OF assms(1,2) 2(2-4)]
  obtain r where r: "rr_at d u = Some r" "rr_finalized_at r \<noteq> None \<or> t \<le> rr_captured_at r"
    using assms(4) by (auto simp: at_least_def)
  show ?thesis
  proof (cases "u = ID p \<and> fresh c t' (rr_at d u)")
    case True
    then have "rr_finalized_at r = None" using not_final [OF assms(1,2) 2(2,4)] r(1) by simp
    moreover have "rr_captured_at r \<le> ts (server c) (tot_AsOf t')" using True r(1) by (simp add: fresh_def)
    ultimately show ?thesis using rows r True by (auto simp: at_least_def result_row_of_def)
  qed (use rows r in \<open>auto simp: at_least_def\<close>)
qed

lemma at_least_stays: "evolves c d d' \<Longrightarrow> D = server c \<Longrightarrow> db_inv d \<Longrightarrow> at_least d u t \<Longrightarrow> at_least d' u t"
proof (induction rule: evolves.induct)
  case (more d' w)
  have "db_inv d'" by (rule inv_evolves [OF more.hyps(1) more.prems(1,2)])
  from write_newer [OF more.prems(1) this more.hyps(2) more.IH [OF more.prems]] show ?case .
qed

text \<open>A transaction that succeeded leaves a result that is final or as new as the totals.\<close>

lemma saved_at_least:
  assumes "D = server c" and "db_inv d" and "read_from d p" and "save_tx c f p t fin d = Inr (x, d')"
  shows "at_least d' (ID p) (ts (server c) (tot_AsOf t))"
proof (cases "existing_final c (ID p) d")
  case None
  with save_tx_rows(1) [OF assms this] show ?thesis
    by (cases "rr_at d (ID p)") (auto simp: at_least_def fresh_def result_row_of_def)
next
  case (Some ft)
  have "canonical_uuid (ID p)" using assms(2,3) by (auto simp: read_from_def db_inv_def row_ok_def list_all_iff)
  then have "uuid_in (server c) (ID p) = Some (ID p)" using uuid_canonical assms(1) by simp
  then show ?thesis
    using Some save_tx_cases [OF assms(4)] by (auto simp: at_least_def existing_final_at split: option.splits)
qed

end

section \<open>Claims\<close>

lemma final_result_stays:
  assumes "postgres_server (server c)" and "db_inv d" and "evolves c d d'"
    and "snd (LoadResult c no_faults (\<lambda>x. x) i d) = Inr r" and "res_FinalizedAt r \<noteq> None"
  shows "snd (LoadResult c no_faults (\<lambda>x. x) i d') = Inr r"
proof -
  obtain u where u: "uuid_in (server c) i = Some u"
    using assms(4) by (auto simp: LoadResult_def and_then_def stmt_def no_faults_def split: option.splits)
  have f: "no_faults QueryResult = Done" "no_faults QueryOptions = Done" by (simp_all add: no_faults_def)
  obtain p q where p: "pr_at d u = Some p" and q: "rr_at d u = Some q" and r: "r = result_at d p q"
    using assms(4) LoadResult_at [where f = no_faults, OF u f, of d] by (auto split: option.splits)
  have fin: "rr_finalized_at q \<noteq> None" using assms(5) r by (simp add: result_at_def)
  note ev = postgres_server.evolve_final [OF assms(1,3) refl assms(2) q fin]
  have "result_inv d u q" using assms(2) q by (simp add: db_inv_at)
  then have "pr_status p = Closed" using fin p by (auto simp: result_inv_def)
  then obtain p' where p': "pr_at d' u = Some p'" "pr_status p' = Closed" "pr_id p' = pr_id p"
    using postgres_server.evolve_row [OF assms(1,3) refl assms(2) p] by (auto simp: same_def_def)
  have "pr_id p = u" using pr_at_mem [OF p] by simp
  with ev p' \<open>pr_status p = Closed\<close> have "result_at d' p' q = r" by (simp add: r result_at_def)
  with LoadResult_at [where f = no_faults, OF u f, of d'] ev p'(1) show ?thesis by simp
qed

text \<open>C20. A final result is permanent: once LoadResult has given a result with a finalization time, it gives
  the same result after any writes by any processes.\<close>

theorem final_result_is_permanent:
  assumes "postgres_server (server c)" and "db_inv d" and "evolves c d d'"
    and "snd (LoadResult c no_faults (\<lambda>x. x) i d) = Inr r" and "res_FinalizedAt r \<noteq> None"
  shows "snd (LoadResult c no_faults (\<lambda>x. x) i d') = Inr r"
  using assms by (rule final_result_stays)

lemma SaveSnapshot_result:
  assumes "postgres_server (server c)" and "db_inv d" and "read_from d p"
    and "SaveSnapshot c no_faults (\<lambda>k x. x) p t fin d = (d', Inr res)"
  shows "(case rr_at d (ID p) of
      Some r \<Rightarrow> if rr_finalized_at r \<noteq> None then d' = d \<and> res_FinalizedAt res = rr_finalized_at r
               else rr_captured_at r \<le> ts (server c) (tot_AsOf t) \<longrightarrow> res_Participants res = tot_Participants t
    | None \<Rightarrow> res_Participants res = tot_Participants t) \<and>
    (existing_final c (ID p) d = None \<and> fresh c t (rr_at d (ID p)) \<longrightarrow>
       res_PollID res = ID p \<and> res_AsOf res = ts (server c) (tot_AsOf t) \<and>
       res_FinalizedAt res = (if fin then Some (ts (server c) (tot_AsOf t)) else None) \<and>
       (fin \<longrightarrow> res_Status res = Closed) \<and>
       res_Options res = (\<lambda>k. if k \<in> opt_ID ` set (Options p) then Some (map_get (tot_Options t) k) else None))"
proof -
  note id = read_from_id [OF assms(1-3)]
  have f: "no_faults QueryResult = Done" "no_faults QueryOptions = Done" by (simp_all add: no_faults_def)
  obtain d1 where tx: "save_tx c no_faults p t fin d = Inr ((), d1)"
    and d1: "fst (run_tx no_faults (save_tx c no_faults p t fin) d) = d1"
    and load: "LoadResult c no_faults (\<lambda>x. x) (ID p) d1 = (d', Inr res)"
    using assms(4) run_tx_Inr [of no_faults "save_tx c no_faults p t fin" d "()"]
    by (auto simp: SaveSnapshot_def split: prod.splits sum.splits)
  obtain q r where dd: "d' = d1" and q: "pr_at d1 (ID p) = Some q" and r: "rr_at d1 (ID p) = Some r"
    and res: "res = result_at d1 q r"
    using load LoadResult_at [where f = no_faults, OF id(2) f, of d1] by (auto split: option.splits)
  have qid: "pr_id q = ID p" using pr_at_mem [OF q] by simp
  note final = existing_final_at [OF id(2), of d]
  show ?thesis
  proof (cases "existing_final c (ID p) d = None")
    case False
    then have same: "d1 = d" using postgres_server.save_tx_cases [OF assms(1) tx] by auto
    with r have rr: "rr_at d (ID p) = Some r" by simp
    with False final have "rr_finalized_at r \<noteq> None" by simp
    with same rr False show ?thesis by (auto simp: dd res result_at_def)
  next
    case True
    note rows = postgres_server.save_tx_rows [OF assms(1) refl assms(2,3) tx True]
    show ?thesis
    proof (cases "fresh c t (rr_at d (ID p))")
      case old: False
      then obtain r0 where "rr_at d (ID p) = Some r0" "ts (server c) (tot_AsOf t) < rr_captured_at r0"
        by (auto simp: fresh_def split: option.splits)
      with True final old show ?thesis by simp
    next
      case new: True
      then have r': "r = result_row_of c (ID p) t fin" using rows(1) r by simp
      have opts: "map_option xr_vote_count (xr_at d1 (ID p, k)) =
          (if k \<in> opt_ID ` set (Options p) then Some (map_get (tot_Options t) k) else None)" for k
      proof (cases "k \<in> opt_ID ` set (Options p)")
        case False
        then have "xr_at d (ID p, k) = None" using postgres_server.count_absent [OF assms(1,2)] id(3) by simp
        with False rows(2) show ?thesis by simp
      qed (use rows(2) new in \<open>simp add: count_row_def\<close>)
      have "fin \<longrightarrow> pr_status q = Closed"
        using rows(3) q by (auto simp: set_closed_def)
      moreover have "res_Participants res = tot_Participants t" by (simp add: res result_at_def r' result_row_of_def)
      ultimately show ?thesis
        using True final opts qid by (auto simp: res result_at_def r' result_row_of_def split: option.splits)
    qed
  qed
qed


text \<open>C22. But a final snapshot whose totals are older than the stored ones - the snapshot worker read and
  saved after Close had read, or its clock is ahead - closes the poll without a final result:
  the counts stay those of the worker, and the result of a closed poll has no finalization
  time.\<close>

theorem late_final_snapshot_is_lost:
  assumes "postgres_server (server c)" and "db_inv d" and "read_from d p"
    and "rr_at d (ID p) = Some r" and "rr_finalized_at r = None" and "ts (server c) (tot_AsOf t) < rr_captured_at r"
    and "SaveSnapshot c no_faults (\<lambda>k x. x) p t True d = (d', Inr res)"
  shows "res_Status res = Closed \<and> res_FinalizedAt res = None \<and> res_Source res = postgres_snapshot \<and>
    res_Participants res = rr_participants_count r"
proof -
  note id = read_from_id [OF assms(1-3)]
  have f: "no_faults QueryResult = Done" "no_faults QueryOptions = Done" by (simp_all add: no_faults_def)
  obtain d1 where tx: "save_tx c no_faults p t True d = Inr ((), d1)"
    and load: "LoadResult c no_faults (\<lambda>x. x) (ID p) d1 = (d', Inr res)"
    using assms(7) run_tx_Inr [of no_faults "save_tx c no_faults p t True" d "()"]
    by (auto simp: SaveSnapshot_def split: prod.splits sum.splits)
  have "existing_final c (ID p) d = None" using existing_final_at [OF id(2)] assms(4,5) by simp
  note rows = postgres_server.save_tx_rows [OF assms(1) refl assms(2,3) tx this]
  have "\<not> fresh c t (rr_at d (ID p))" using assms(4,6) by (simp add: fresh_def)
  then have r: "rr_at d1 (ID p) = Some r" using rows(1) assms(4) by auto
  obtain q where q: "pr_at d1 (ID p) = Some q" "res = result_at d1 q r"
    using load LoadResult_at [where f = no_faults, OF id(2) f, of d1] r by (auto split: option.splits)
  then have "pr_status q = Closed" using rows(3) by (auto simp: set_closed_def)
  with q(2) assms(5) show ?thesis by (simp add: result_at_def)
qed

section \<open>A concrete run\<close>

definition demo_active :: db where
  "demo_active = db_do demo_repo (W_publish no_faults demo_id Minute) demo_db"

definition demo_poll :: poll where
  "demo_poll = stored demo_active (set_active demo_repo Minute demo_row)"

definition demo_totals :: "int \<Rightarrow> time \<Rightarrow> totals" where
  "demo_totals n t = \<lparr>tot_Participants = n, tot_Options = [demo_yes \<mapsto> n, demo_no \<mapsto> 0], tot_AsOf = t\<rparr>"

lemma demo_repo_simps: "server demo_repo = Pg" "vote_buckets demo_repo = 16"
  by (simp_all add: demo_repo_def)

lemma demo_check: "poll_check (set_active demo_repo Minute demo_row)"
proof -
  have "poll_check demo_row" using demo_inv by (simp add: demo_state db_inv_def db_ok_def)
  then show ?thesis by (simp add: poll_check_def set_active_def demo_repo_simps)
qed

lemma demo_active_state:
  "demo_active = demo_db\<lparr>polls := [set_active demo_repo Minute demo_row]\<rparr>"
  using demo_check
  by (simp add: demo_active_def run_tx_def publish_tx_def no_faults_def and_then_def stmt_def select_status_def
      demo_repo_simps demo_in demo_state demo_rows update_polls_def by_id_def commit_def)

lemma demo_active_inv: "db_inv demo_active"
proof -
  have "write_ok demo_repo (W_publish no_faults demo_id Minute) demo_db" by simp
  from postgres_server.inv_write [OF demo_server refl demo_inv this] show ?thesis by (simp add: demo_active_def)
qed

lemma demo_poll_simps: "ID demo_poll = demo_id" "Options demo_poll = demo_opts" "read_from demo_active demo_poll"
proof -
  have o: "options_of demo_active demo_id = demo_opts"
    using demo_rows(2) by (simp add: demo_active_state options_of_def)
  show "ID demo_poll = demo_id" "Options demo_poll = demo_opts"
    using o by (simp_all add: demo_poll_def stored_def poll_of_row_def set_active_def demo_rows)
  then show "read_from demo_active demo_poll"
    using o by (simp add: read_from_def demo_active_state set_active_def demo_rows)
qed

text \<open>The tables after a snapshot of the demo poll.\<close>

definition demo_saved :: "int \<Rightarrow> time \<Rightarrow> bool \<Rightarrow> db" where
  "demo_saved n t fin = demo_active\<lparr>
     polls := [if fin then set_closed demo_repo t (set_active demo_repo Minute demo_row) else set_active demo_repo Minute demo_row],
     poll_runtime_results := [result_row_of demo_repo demo_id (demo_totals n t) fin],
     poll_option_results := [count_row demo_repo demo_id (demo_totals n t) demo_yes,
        count_row demo_repo demo_id (demo_totals n t) demo_no]\<rparr>"

lemma demo_save:
  assumes "0 \<le> n"
  shows "save_tx demo_repo no_faults demo_poll (demo_totals n t) fin demo_active = Inr ((), demo_saved n t fin)"
proof -
  have ids: "pr_id (set_active demo_repo Minute demo_row) = demo_id" "pr_status (set_active demo_repo Minute demo_row) = Active"
    by (simp_all add: set_active_def demo_rows)
  have ck: "poll_check (set_closed demo_repo t (set_active demo_repo Minute demo_row))"
    using demo_check by (simp add: poll_check_def set_closed_def)
  have mem: "demo_yes \<in> or_id ` set (poll_options demo_active)" "demo_no \<in> or_id ` set (poll_options demo_active)"
    by (simp_all add: demo_active_state demo_state demo_opts_def option_row_of_def)
  have pl: "polls demo_active = [set_active demo_repo Minute demo_row]" "poll_runtime_results demo_active = []"
      "poll_option_results demo_active = []"
    by (simp_all add: demo_active_state demo_state)
  have m: "map_get (tot_Options (demo_totals n t)) demo_yes = n" "map_get (tot_Options (demo_totals n t)) demo_no = 0"
    by (simp_all add: demo_totals_def map_get_def)
  have st: "select_status demo_repo no_faults demo_id demo_active = Inr Active"
    by (simp add: select_status_def and_then_def stmt_def no_faults_def demo_repo_simps demo_in pl ids)
  have ex: "existing_final demo_repo demo_id demo_active = None" by (simp add: existing_final_def pl)
  have sr: "save_result demo_repo demo_id (demo_totals n t) fin demo_active =
      Some (demo_active\<lparr>poll_runtime_results := [result_row_of demo_repo demo_id (demo_totals n t) fin]\<rparr>)"
    using assms by (simp add: save_result_def demo_repo_simps demo_in upsert_result_def result_check_def result_row_of_def
      pl ids upsert_def demo_totals_def)
  let ?d1 = "demo_active\<lparr>poll_runtime_results := [result_row_of demo_repo demo_id (demo_totals n t) fin]\<rparr>"
  have so: "save_options demo_repo no_faults demo_id (demo_totals n t) 0 demo_opts ?d1 =
      Inr (?d1\<lparr>poll_option_results := [count_row demo_repo demo_id (demo_totals n t) demo_yes,
        count_row demo_repo demo_id (demo_totals n t) demo_no]\<rparr>)"
    using assms mem
    by (simp add: demo_opts_def and_then_def stmt_def no_faults_def save_option_def demo_repo_simps demo_in m
      upsert_option_result_def option_result_check_def pl ids upsert_def count_row_def xr_key_def)
  show ?thesis
  proof (cases fin)
    case True
    with st ex sr so ck show ?thesis
      by (simp add: save_tx_def demo_poll_simps and_then_def stmt_def no_faults_def close_row_def update_polls_def
        by_id_def demo_repo_simps demo_in pl ids demo_saved_def demo_totals_def)
  next
    case False
    with st ex sr so show ?thesis
      by (simp add: save_tx_def demo_poll_simps and_then_def stmt_def no_faults_def pl demo_saved_def)
  qed
qed

lemma demo_SaveSnapshot:
  assumes "0 \<le> n"
  shows "\<exists>res. SaveSnapshot demo_repo no_faults (\<lambda>k x. x) demo_poll (demo_totals n t) fin demo_active =
      (demo_saved n t fin, Inr res)"
proof -
  have f: "no_faults QueryResult = Done" "no_faults QueryOptions = Done" by (simp_all add: no_faults_def)
  have u: "uuid_in (server demo_repo) demo_id = Some demo_id" by (simp add: demo_repo_simps demo_in)
  have "pr_at (demo_saved n t fin) demo_id \<noteq> None" and "rr_at (demo_saved n t fin) demo_id \<noteq> None"
    by (simp_all add: demo_saved_def pr_at_def rr_at_def set_closed_def set_active_def demo_rows result_row_of_def)
  then show ?thesis
    using LoadResult_at [where f = no_faults, OF u f, of "demo_saved n t fin"] demo_save [OF assms, of t fin]
    by (auto simp: SaveSnapshot_def run_tx_def no_fault commit_def demo_poll_simps)
qed


lemma demo_saved_inv: "db_inv (demo_saved n t fin)" if "0 \<le> n"
  by (rule postgres_server.inv_save [OF demo_server refl demo_active_inv demo_poll_simps(3) demo_save [OF that]])

lemma demo_saved_at: "rr_at (demo_saved n t fin) demo_id = Some (result_row_of demo_repo demo_id (demo_totals n t) fin)"
  by (simp add: demo_saved_def rr_at_def result_row_of_def)

theorem final_result_is_permanent_witness:
  "snd (LoadResult demo_repo no_faults (\<lambda>x. x) demo_id
     (db_do demo_repo (W_publish no_faults demo_id Hour) (demo_saved 7 Second True))) =
   snd (LoadResult demo_repo no_faults (\<lambda>x. x) demo_id (demo_saved 7 Second True))"
proof -
  have f: "no_faults QueryResult = Done" "no_faults QueryOptions = Done" by (simp_all add: no_faults_def)
  have u: "uuid_in (server demo_repo) demo_id = Some demo_id" by (simp add: demo_repo_simps demo_in)
  obtain q where "pr_at (demo_saved 7 Second True) demo_id = Some q"
    by (simp add: demo_saved_def pr_at_def set_closed_def set_active_def demo_rows)
  then have l: "snd (LoadResult demo_repo no_faults (\<lambda>x. x) demo_id (demo_saved 7 Second True)) =
      Inr (result_at (demo_saved 7 Second True) q (result_row_of demo_repo demo_id (demo_totals 7 Second) True))"
    using LoadResult_at [where f = no_faults, OF u f] demo_saved_at by simp
  have "evolves demo_repo (demo_saved 7 Second True) (db_do demo_repo (W_publish no_faults demo_id Hour) (demo_saved 7 Second True))"
    by (rule evolves_one) simp
  from final_result_is_permanent [OF demo_server demo_saved_inv this l] l show ?thesis
    by (simp add: result_at_def result_row_of_def)
qed

text \<open>The worker saved 9 participants at minute 2; Close had read 7 a minute before.\<close>

lemma demo_late_save:
  "\<exists>d' res. SaveSnapshot demo_repo no_faults (\<lambda>k x. x) demo_poll (demo_totals 7 Minute) True
       (demo_saved 9 (2 * Minute) False) = (d', Inr res)"
proof -
  let ?d = "demo_saved 9 (2 * Minute) False" and ?t = "demo_totals 7 Minute"
  have f: "no_faults QueryResult = Done" "no_faults QueryOptions = Done" by (simp_all add: no_faults_def)
  have u: "uuid_in (server demo_repo) demo_id = Some demo_id" by (simp add: demo_repo_simps demo_in)
  have ids: "pr_id (set_active demo_repo Minute demo_row) = demo_id" "pr_status (set_active demo_repo Minute demo_row) = Active"
    by (simp_all add: set_active_def demo_rows)
  have st: "select_status demo_repo no_faults demo_id ?d = Inr Active"
    by (simp add: select_status_def and_then_def stmt_def no_faults_def demo_repo_simps demo_in demo_saved_def ids)
  have ex: "existing_final demo_repo demo_id ?d = None"
    by (simp add: existing_final_at [OF u] demo_saved_at result_row_of_def)
  obtain d1 where sr: "save_result demo_repo demo_id ?t True ?d = Some d1"
    by (simp add: save_result_def demo_repo_simps demo_in upsert_result_def result_check_def result_row_of_def
      demo_saved_def ids demo_totals_def)
  have can: "canonical_uuid demo_id" using demo_in(1) pg.uuid_out by blast
  note sra = postgres_server.save_result_at [OF demo_server refl can sr]
  have fk: "upsert_option_result \<lparr>xr_poll_id = demo_id, xr_option_id = i, xr_vote_count = m, xr_captured_at = k\<rparr> x \<noteq> None"
    if "polls x = polls ?d" "poll_options x = poll_options ?d" "0 \<le> m" "i \<in> {demo_yes, demo_no}" for x i m k
    using that by (auto simp: upsert_option_result_def option_result_check_def demo_saved_def ids demo_active_state
      demo_state demo_opts_def option_row_of_def)
  have m: "0 \<le> map_get (tot_Options ?t) i" for i by (simp add: demo_totals_def map_get_def)
  obtain d2 where d2: "save_option demo_repo demo_id ?t \<lparr>opt_ID = demo_yes, opt_Text = ''yes'', opt_Position = 0\<rparr> d1 = Some d2"
    using fk [of d1 "map_get (tot_Options ?t) demo_yes" demo_yes] sra(2) m
    by (auto simp: save_option_def demo_repo_simps demo_in)
  then have "polls d2 = polls d1 \<and> poll_options d2 = poll_options d1"
    by (auto simp: save_option_def demo_repo_simps demo_in dest: upsert_option_result_at(2))
  then obtain d3 where d3: "save_option demo_repo demo_id ?t \<lparr>opt_ID = demo_no, opt_Text = ''no'', opt_Position = 1\<rparr> d2 = Some d3"
    using fk [of d2 "map_get (tot_Options ?t) demo_no" demo_no] sra(2) m
    by (auto simp: save_option_def demo_repo_simps demo_in)
  then have pl: "polls d3 = [set_active demo_repo Minute demo_row]"
    using \<open>polls d2 = polls d1 \<and> poll_options d2 = poll_options d1\<close> sra(2)
    by (auto simp: save_option_def demo_repo_simps demo_in demo_saved_def dest: upsert_option_result_at(2))
  have ck: "poll_check (set_closed demo_repo Minute (set_active demo_repo Minute demo_row))"
    using demo_check by (simp add: poll_check_def set_closed_def)
  obtain d4 where d4: "save_tx demo_repo no_faults demo_poll ?t True ?d = Inr ((), d4)"
    using st ex sr d2 d3 ck
    by (simp add: save_tx_def demo_poll_simps demo_opts_def and_then_def stmt_def no_faults_def close_row_def
      update_polls_def by_id_def demo_repo_simps demo_in pl ids demo_totals_def)
  have "read_from ?d demo_poll"
    using demo_poll_simps by (auto simp: read_from_def demo_saved_def demo_active_state options_of_def)
  note rows = postgres_server.save_tx_rows [OF demo_server refl demo_saved_inv this d4]
  have "pr_at d4 demo_id \<noteq> None" and "rr_at d4 demo_id \<noteq> None"
    using rows(1,3) ex by (simp_all add: demo_poll_simps demo_saved_at) (simp add: demo_saved_def pr_at_def ids)
  then show ?thesis
    using LoadResult_at [where f = no_faults, OF u f, of d4] d4
    by (auto simp: SaveSnapshot_def run_tx_def no_fault commit_def demo_poll_simps)
qed

theorem late_final_snapshot_is_lost_witness:
  "\<exists>d' res. SaveSnapshot demo_repo no_faults (\<lambda>k x. x) demo_poll (demo_totals 7 Minute) True
       (demo_saved 9 (2 * Minute) False) = (d', Inr res) \<and>
     res_Status res = Closed \<and> res_FinalizedAt res = None \<and> res_Participants res = 9"
proof -
  have rd: "read_from (demo_saved 9 (2 * Minute) False) demo_poll"
    using demo_poll_simps
    by (auto simp: read_from_def demo_saved_def demo_active_state options_of_def)
  have lt: "ts (server demo_repo) (tot_AsOf (demo_totals 7 Minute)) <
      rr_captured_at (result_row_of demo_repo demo_id (demo_totals 9 (2 * Minute)) False)"
    by (simp add: demo_totals_def result_row_of_def demo_repo_simps Pg_def Prelude.truncate_def duration_unit_defs)
  have st: "rr_finalized_at (result_row_of demo_repo demo_id (demo_totals 9 (2 * Minute)) False) = None"
    by (simp add: result_row_of_def)
  have at: "rr_at (demo_saved 9 (2 * Minute) False) (ID demo_poll) =
      Some (result_row_of demo_repo demo_id (demo_totals 9 (2 * Minute)) False)"
    by (simp add: demo_poll_simps demo_saved_at)
  have inv: "db_inv (demo_saved 9 (2 * Minute) False)" by (rule demo_saved_inv) simp
  obtain d' res where s: "SaveSnapshot demo_repo no_faults (\<lambda>k x. x) demo_poll (demo_totals 7 Minute) True
       (demo_saved 9 (2 * Minute) False) = (d', Inr res)"
    using demo_late_save by blast
  from late_final_snapshot_is_lost [OF demo_server inv rd at st lt s] s show ?thesis
    by (auto simp: result_row_of_def demo_totals_def)
qed

text \<open>LoadResult can mix two snapshots: it reads the participants and the counts in two queries without a
  transaction, and a snapshot that commits in between gives an answer in which an option has
  more votes than there are participants.\<close>

theorem LoadResult_can_be_torn:
  "\<exists>res. snd (LoadResult demo_repo no_faults (\<lambda>x. demo_saved 9 (2 * Minute) False) demo_id (demo_saved 7 Minute False)) = Inr res \<and>
     res_Participants res = 7 \<and> res_Options res demo_yes = Some 9"
proof -
  let ?d = "demo_saved 9 (2 * Minute) False"
  have u: "uuid_in (server demo_repo) demo_id = Some demo_id" by (simp add: demo_repo_simps demo_in)
  have o: "result_options demo_repo demo_id ?d demo_yes = Some 9"
    using result_options_at [OF u, of ?d demo_yes]
    by (simp add: demo_saved_def xr_at_def count_row_def xr_key_def demo_totals_def map_get_def)
  obtain q where "pr_at (demo_saved 7 Minute False) demo_id = Some q"
    by (simp add: demo_saved_def pr_at_def set_active_def demo_rows)
  with o show ?thesis
    by (simp add: LoadResult_def and_then_def stmt_def no_fault u result_head_at [OF u] demo_saved_at Let_def
        result_row_of_def demo_totals_def)
qed

end
