(* ===== verification/Service_Cache.thy ===== *)
theory Service_Cache
  imports Postgres_Results
begin

text \<open>
  The poll cache of an API process (internal/service/cache.go): a map of entries under one mutex, and
  a mutex in every entry that is held while the poll is loaded. The critical sections are
  functions on the heap of entries; \<open>cache_get\<close>, \<open>cache_put\<close> and \<open>cache_delete\<close> compose them
  for a single thread, and the step relation \<open>cache_step\<close> interleaves them for many.
\<close>

section \<open>Entries and critical sections\<close>

record cache_entry =
  ce_poll :: poll
  ce_expires :: time
  ce_loaded :: bool

text \<open>The map holds pointers to entries; \<open>heap\<close> is what they point to.\<close>

record poll_cache =
  cache_ttl :: duration
  entries :: "string \<rightharpoonup> nat"
  heap :: "nat \<Rightarrow> cache_entry"
  next_ref :: nat

text \<open>\<open>&cacheEntry{}\<close>.\<close>

definition zero_entry :: cache_entry where
  "zero_entry = \<lparr>ce_poll = zero_poll, ce_expires = 0, ce_loaded = False\<rparr>"

definition NewPollCache :: "duration \<Rightarrow> poll_cache" where
  "NewPollCache ttl = \<lparr>cache_ttl = ttl, entries = Map.empty, heap = (\<lambda>_. zero_entry), next_ref = 0\<rparr>"

text \<open>The section under \<open>c.mu\<close>: the entry of an id, made when it is missing.\<close>

definition entry_for :: "string \<Rightarrow> poll_cache \<Rightarrow> nat \<times> poll_cache" where
  "entry_for i c =
     (case entries c i of
        Some e \<Rightarrow> (e, c)
      | None \<Rightarrow> (next_ref c, c\<lparr>entries := (entries c)(i \<mapsto> next_ref c),
          heap := (heap c)(next_ref c := zero_entry), next_ref := Suc (next_ref c)\<rparr>))"

text \<open>The sections under \<open>e.mu\<close>.\<close>

definition cache_hit :: "nat \<Rightarrow> time \<Rightarrow> poll_cache \<Rightarrow> bool" where
  "cache_hit e now c \<longleftrightarrow> ce_loaded (heap c e) \<and> now < ce_expires (heap c e)"

definition fill_entry :: "nat \<Rightarrow> poll \<Rightarrow> time \<Rightarrow> poll_cache \<Rightarrow> poll_cache" where
  "fill_entry e p now c =
     c\<lparr>heap := (heap c)(e := \<lparr>ce_poll = p, ce_expires = now + cache_ttl c, ce_loaded = True\<rparr>)\<rparr>"

section \<open>The operations of one thread\<close>

text \<open>\<open>now\<close> and \<open>now'\<close> are the two readings of the clock; the loader acts on a state of its own.\<close>

definition cache_get ::
  "time \<Rightarrow> time \<Rightarrow> string \<Rightarrow> (string \<Rightarrow> 's \<Rightarrow> 's \<times> (err + poll)) \<Rightarrow> 's \<times> poll_cache \<Rightarrow> ('s \<times> poll_cache) \<times> (err + poll)" where
  "cache_get now now' i loader sc =
     (let (s, c) = sc; (e, c1) = entry_for i c in
      if cache_hit e now c1 then ((s, c1), Inr (ce_poll (heap c1 e)))
      else (case loader i s of
          (s', Inl x) \<Rightarrow> ((s', c1), Inl x)
        | (s', Inr p) \<Rightarrow> ((s', fill_entry e p now' c1), Inr p)))"

definition cache_put :: "time \<Rightarrow> poll \<Rightarrow> poll_cache \<Rightarrow> poll_cache" where
  "cache_put now p c = (let (e, c1) = entry_for (ID p) c in fill_entry e p now c1)"

definition cache_delete :: "string \<Rightarrow> poll_cache \<Rightarrow> poll_cache" where
  "cache_delete i c = c\<lparr>entries := (entries c)(i := None)\<rparr>"

text \<open>What a Get of the id would answer from the cache.\<close>

definition cached :: "poll_cache \<Rightarrow> time \<Rightarrow> string \<Rightarrow> poll option" where
  "cached c now i =
     (case entries c i of None \<Rightarrow> None
      | Some e \<Rightarrow> if cache_hit e now c then Some (ce_poll (heap c e)) else None)"

text \<open>Entries are not shared between ids, and a pointer that is not handed out is not in the map.\<close>

definition cache_ok :: "poll_cache \<Rightarrow> bool" where
  "cache_ok c \<longleftrightarrow> (\<forall>i e. entries c i = Some e \<longrightarrow> e < next_ref c) \<and>
     (\<forall>i j e. entries c i = Some e \<longrightarrow> entries c j = Some e \<longrightarrow> i = j)"

lemma cache_ok_new: "cache_ok (NewPollCache ttl)"
  by (simp add: cache_ok_def NewPollCache_def)

lemma entry_for_ok:
  assumes "cache_ok c" and "entry_for i c = (e, c')"
  shows "cache_ok c' \<and> entries c' i = Some e \<and> e < next_ref c' \<and> cache_ttl c' = cache_ttl c \<and>
    (\<forall>j. j \<noteq> i \<longrightarrow> entries c' j = entries c j) \<and> (\<forall>now j. cached c' now j = cached c now j)"
proof (cases "entries c i")
  case (Some e')
  with assms show ?thesis by (auto simp: entry_for_def cache_ok_def)
next
  case None
  then have c': "e = next_ref c" "c' = c\<lparr>entries := (entries c)(i \<mapsto> next_ref c),
      heap := (heap c)(next_ref c := zero_entry), next_ref := Suc (next_ref c)\<rparr>"
    using assms(2) by (auto simp: entry_for_def)
  have "cached c' now j = cached c now j" for now j
    using None assms(1) by (auto simp: c' cached_def cache_hit_def zero_entry_def cache_ok_def split: option.splits)
  with assms(1) show ?thesis by (auto simp: c' cache_ok_def less_Suc_eq)
qed

lemma fill_entry_ok:
  assumes "cache_ok c" and "entries c i = Some e"
  shows "cache_ok (fill_entry e p now c) \<and>
    cached (fill_entry e p now c) t i = (if t < now + cache_ttl c then Some p else None) \<and>
    (\<forall>j. j \<noteq> i \<longrightarrow> cached (fill_entry e p now c) t j = cached c t j)"
  using assms by (auto simp: cache_ok_def fill_entry_def cached_def cache_hit_def split: option.splits)

lemma cache_put_cached:
  assumes "cache_ok c"
  shows "cache_ok (cache_put now p c) \<and> cached (cache_put now p c) t (ID p) =
      (if t < now + cache_ttl c then Some p else None) \<and>
    (\<forall>j. j \<noteq> ID p \<longrightarrow> cached (cache_put now p c) t j = cached c t j)"
proof -
  obtain e c1 where e: "entry_for (ID p) c = (e, c1)" by fastforce
  from entry_for_ok [OF assms e] fill_entry_ok [of c1 "ID p" e p now t]
  show ?thesis by (simp add: cache_put_def e)
qed

lemma cache_delete_cached:
  assumes "cache_ok c"
  shows "cache_ok (cache_delete i c) \<and>
    cached (cache_delete i c) t j = (if j = i then None else cached c t j)"
  using assms by (auto simp: cache_ok_def cache_delete_def cached_def cache_hit_def split: option.split)

text \<open>A Get answers what is cached, and otherwise what the loader gives, which is then cached.\<close>

lemma cache_get_cases:
  assumes "cache_ok c"
  shows "case cached c now i of
      Some p \<Rightarrow> cache_get now now' i loader (s, c) = ((s, c), Inr p)
    | None \<Rightarrow> (\<exists>c'. cache_ok c' \<and> cache_get now now' i loader (s, c) = ((fst (loader i s), c'), snd (loader i s)) \<and>
        (\<forall>t j. cached c' t j = (case snd (loader i s) of
           Inr p \<Rightarrow> if j = i then (if t < now' + cache_ttl c then Some p else None) else cached c t j
         | Inl e \<Rightarrow> cached c t j)))"
proof -
  obtain e c1 where e: "entry_for i c = (e, c1)" by fastforce
  note ok = entry_for_ok [OF assms e]
  then have ok1: "cache_ok c1" "entries c1 i = Some e" "cached c1 t j = cached c t j" for t j by blast+
  have "cached c1 now i = (if cache_hit e now c1 then Some (ce_poll (heap c1 e)) else None)"
    by (simp add: cached_def ok1(2))
  then have hit: "cached c now i = (if cache_hit e now c1 then Some (ce_poll (heap c1 e)) else None)"
    by (simp only: ok1(3))
  show ?thesis
  proof (cases "cache_hit e now c1")
    case True
    have "c1 = c"
      using True e by (auto simp: entry_for_def cache_hit_def zero_entry_def split: option.splits)
    with True hit e show ?thesis by (simp add: cache_get_def)
  next
    case False
    obtain s' x where l: "loader i s = (s', x)" by fastforce
    have none: "cached c now i = None" using False hit by simp
    show ?thesis
    proof (cases x)
      case (Inl y)
      have "cache_get now now' i loader (s, c) = ((s', c1), Inl y)"
        using False e l Inl by (simp add: cache_get_def)
      with none l Inl ok1 show ?thesis by auto
    next
      case (Inr p)
      have g: "cache_get now now' i loader (s, c) = ((s', fill_entry e p now' c1), Inr p)"
        using False e l Inr by (simp add: cache_get_def)
      have "cached (fill_entry e p now' c1) t j =
          (if j = i then (if t < now' + cache_ttl c then Some p else None) else cached c t j)" for t j
        using fill_entry_ok [OF ok1(1,2), of p now' t] ok ok1(3) by simp
      with g none l Inr fill_entry_ok [OF ok1(1,2)] show ?thesis by auto
    qed
  qed
qed

end
