(* ===== verification/Cache_Threads.thy ===== *)
theory Cache_Threads
  imports Service_Cache
begin

text \<open>
  The poll cache under concurrent calls (internal/service/cache.go). A thread of an API process
  runs Get, Put or Delete; each step is one critical section, or the end of a load. The mutex of
  an entry is held from the miss of a Get to the end of its load. The fields \<open>steps\<close>, \<open>born\<close>,
  \<open>origin\<close> and \<open>deleted\<close> only record history: how many steps there were, and at which step an
  entry was made, the load or Put of its poll began, and an id was deleted.
\<close>

section \<open>Threads and steps\<close>

datatype pc =
    Idle
  | Want string nat nat
  | Loading string nat nat nat
  | Putting poll nat nat

record threads =
  tc :: poll_cache
  lock :: "nat \<Rightarrow> nat option"
  pc :: "nat \<Rightarrow> pc"
  clock :: time
  steps :: nat
  born :: "nat \<Rightarrow> nat"
  origin :: "nat \<Rightarrow> nat"
  deleted :: "string \<Rightarrow> nat"

text \<open>\<open>Got t i p d b f\<close>: the Get of \<open>i\<close> by thread \<open>t\<close>, which began after the Delete \<open>d\<close>, returns
  \<open>p\<close>, whose load or Put began at step \<open>b\<close> and ended at the time \<open>f\<close>.\<close>

datatype label = Tick | Begin nat | Got nat string poll nat nat time | Load nat | Failed nat | Put_done nat
  | Deleted string

definition init_threads :: "duration \<Rightarrow> threads" where
  "init_threads ttl = \<lparr>tc = NewPollCache ttl, lock = (\<lambda>_. None), pc = (\<lambda>_. Idle), clock = 0, steps = 0,
     born = (\<lambda>_. 0), origin = (\<lambda>_. 0), deleted = (\<lambda>_. 0)\<rparr>"

definition stay :: "nat \<Rightarrow> pc \<Rightarrow> threads \<Rightarrow> threads" where
  "stay t p s = s\<lparr>pc := (pc s)(t := p), steps := Suc (steps s)\<rparr>"

definition enter :: "nat \<Rightarrow> pc \<Rightarrow> poll_cache \<Rightarrow> threads \<Rightarrow> threads" where
  "enter t p c s = (stay t p s)\<lparr>tc := c,
     born := (\<lambda>e. if e < next_ref (tc s) then born s e else steps s)\<rparr>"

definition store_in :: "nat \<Rightarrow> nat \<Rightarrow> poll \<Rightarrow> nat \<Rightarrow> threads \<Rightarrow> threads" where
  "store_in t e p b s = (stay t Idle s)\<lparr>tc := fill_entry e p (clock s) (tc s),
     origin := (origin s)(e := b), lock := (lock s)(e := None)\<rparr>"

inductive cache_step :: "threads \<Rightarrow> label \<Rightarrow> threads \<Rightarrow> bool" where
  tick: "0 \<le> d \<Longrightarrow> cache_step s Tick (s\<lparr>clock := clock s + d\<rparr>)"
| get_begin: "pc s t = Idle \<Longrightarrow> entry_for i (tc s) = (e, c) \<Longrightarrow>
    cache_step s (Begin t) (enter t (Want i e (deleted s i)) c s)"
| get_hit: "pc s t = Want i e d \<Longrightarrow> lock s e = None \<Longrightarrow> cache_hit e (clock s) (tc s) \<Longrightarrow>
    cache_step s (Got t i (ce_poll (heap (tc s) e)) d (origin s e) (ce_expires (heap (tc s) e) - cache_ttl (tc s)))
      (stay t Idle s)"
| get_miss: "pc s t = Want i e d \<Longrightarrow> lock s e = None \<Longrightarrow> \<not> cache_hit e (clock s) (tc s) \<Longrightarrow>
    cache_step s (Load t) ((stay t (Loading i e d (steps s)) s)\<lparr>lock := (lock s)(e := Some t)\<rparr>)"
| load_fails: "pc s t = Loading i e d b \<Longrightarrow>
    cache_step s (Failed t) ((stay t Idle s)\<lparr>lock := (lock s)(e := None)\<rparr>)"
| load_ends: "pc s t = Loading i e d b \<Longrightarrow>
    cache_step s (Got t i p d b (clock s)) (store_in t e p b s)"
| put_begin: "pc s t = Idle \<Longrightarrow> entry_for (ID p) (tc s) = (e, c) \<Longrightarrow>
    cache_step s (Begin t) (enter t (Putting p e (steps s)) c s)"
| put_ends: "pc s t = Putting p e b \<Longrightarrow> lock s e = None \<Longrightarrow>
    cache_step s (Put_done t) (store_in t e p b s)"
| del: "cache_step s (Deleted i)
    (s\<lparr>tc := cache_delete i (tc s), steps := Suc (steps s), deleted := (deleted s)(i := Suc (steps s))\<rparr>)"

inductive_cases cache_stepE: "cache_step s l s'"
lemmas cache_step_cases = cache_stepE [consumes 1, case_names tick get_begin get_hit get_miss load_fails load_ends put_begin put_ends del]
inductive_cases GotE: "cache_step s (Got t i p d b f) s'"
lemmas Got_cases = GotE [consumes 1, case_names hit loaded]

inductive reachable :: "duration \<Rightarrow> threads \<Rightarrow> bool" for ttl where
  start: "reachable ttl (init_threads ttl)"
| step: "reachable ttl s \<Longrightarrow> cache_step s l s' \<Longrightarrow> reachable ttl s'"

section \<open>The invariant\<close>

definition entry_ok :: "threads \<Rightarrow> nat \<Rightarrow> bool" where
  "entry_ok s e \<longleftrightarrow> (ce_loaded (heap (tc s) e) \<longrightarrow>
     born s e \<le> origin s e \<and> ce_expires (heap (tc s) e) \<le> clock s + cache_ttl (tc s)) \<and>
     (\<forall>t. lock s e = Some t \<longrightarrow> (\<exists>i d b. pc s t = Loading i e d b)) \<and> born s e \<le> steps s"

fun pc_ok :: "threads \<Rightarrow> nat \<Rightarrow> pc \<Rightarrow> bool" where
  "pc_ok s t Idle = True"
| "pc_ok s t (Want i e d) = (e < next_ref (tc s) \<and> d \<le> born s e)"
| "pc_ok s t (Loading i e d b) = (e < next_ref (tc s) \<and> d \<le> born s e \<and> born s e \<le> b \<and> lock s e = Some t)"
| "pc_ok s t (Putting p e b) = (e < next_ref (tc s) \<and> born s e \<le> b)"

definition map_ok :: "threads \<Rightarrow> bool" where
  "map_ok s \<longleftrightarrow> (\<forall>i e. entries (tc s) i = Some e \<longrightarrow> e < next_ref (tc s) \<and> deleted s i \<le> born s e) \<and>
     (\<forall>i. deleted s i \<le> steps s)"

definition threads_ok :: "threads \<Rightarrow> bool" where
  "threads_ok s \<longleftrightarrow> (\<forall>e < next_ref (tc s). entry_ok s e) \<and> (\<forall>e. next_ref (tc s) \<le> e \<longrightarrow> lock s e = None) \<and>
     (\<forall>t. pc_ok s t (pc s t)) \<and> map_ok s"

lemma threads_ok_init: "threads_ok (init_threads ttl)"
  by (simp add: threads_ok_def init_threads_def NewPollCache_def map_ok_def)

text \<open>What \<open>entry_for\<close> does to the heap, seen from the entry that it gives.\<close>

lemma entry_for_cases:
  assumes "entry_for i c = (e, c')"
  obtains (old) "entries c i = Some e" "c' = c"
  | (new) "entries c i = None" "e = next_ref c" "c' = c\<lparr>entries := (entries c)(i \<mapsto> next_ref c),
      heap := (heap c)(next_ref c := zero_entry), next_ref := Suc (next_ref c)\<rparr>"
  using assms by (auto simp: entry_for_def split: option.splits)

lemma pc_ok_mono:
  assumes "pc_ok s t q" and "next_ref (tc s) \<le> next_ref (tc s')"
    and "\<And>e. e < next_ref (tc s) \<Longrightarrow> born s' e = born s e"
    and "\<And>e. lock s e = Some t \<Longrightarrow> lock s' e = Some t"
  shows "pc_ok s' t q"
  using assms by (cases q) auto

lemma threads_okD:
  assumes "threads_ok s"
  shows "pc_ok s t (pc s t)" and "e < next_ref (tc s) \<Longrightarrow> entry_ok s e" and "next_ref (tc s) \<le> e \<Longrightarrow> lock s e = None"
    and "map_ok s"
  using assms by (auto simp: threads_ok_def)

lemma entry_ok_enter:
  assumes ok: "threads_ok s" and t: "pc s t = Idle" and e: "entry_for i (tc s) = (e, c)" and x: "x < next_ref (tc (enter t p c s))"
  shows "entry_ok (enter t p c s) x"
proof (cases "x < next_ref (tc s)")
  case True
  let ?s = "enter t p c s"
  have h: "heap (tc ?s) x = heap (tc s) x" "cache_ttl (tc ?s) = cache_ttl (tc s)" "clock ?s = clock s"
      "origin ?s = origin s" "steps ?s = Suc (steps s)" "born ?s x = born s x" "lock ?s = lock s"
    using e True by (auto simp: entry_for_def enter_def stay_def split: option.splits)
  have "\<exists>j d b. pc ?s u = Loading j x d b" if "lock s x = Some u" for u
    using threads_okD(2) [OF ok True] that t unfolding entry_ok_def
    by (cases "u = t") (auto simp: enter_def stay_def)
  with threads_okD(2) [OF ok True] h show ?thesis by (simp add: entry_ok_def)
next
  case False
  with x e have "heap (tc (enter t p c s)) x = zero_entry" "x = next_ref (tc s)"
    by (auto simp: entry_for_def enter_def split: option.splits)
  moreover have "lock s x = None" using threads_okD(3) [OF ok] False by simp
  ultimately show ?thesis by (simp add: entry_ok_def zero_entry_def enter_def stay_def)
qed

lemma threads_ok_enter:
  assumes ok: "threads_ok s" and t: "pc s t = Idle" and e: "entry_for i (tc s) = (e, c)"
    and p: "p = Want i e (deleted s i) \<or> (\<exists>q. p = Putting q e (steps s))"
  shows "threads_ok (enter t p c s)"
proof -
  let ?s = "enter t p c s"
  have le: "next_ref (tc s) \<le> next_ref (tc ?s)" using e by (auto simp: entry_for_def enter_def split: option.splits)
  have same: "born ?s x = born s x" if "x < next_ref (tc s)" for x using that by (simp add: enter_def)
  have lk: "lock ?s = lock s" by (simp add: enter_def stay_def)
  have mine: "pc_ok ?s t p"
    using e
  proof (cases rule: entry_for_cases)
    case old
    then have "e < next_ref (tc s)" "deleted s i \<le> born s e" using threads_okD(4) [OF ok] by (auto simp: map_ok_def)
    moreover from this(1) have "born s e \<le> steps s" using threads_okD(2) [OF ok] by (simp add: entry_ok_def)
    ultimately show ?thesis using p old by (auto simp: enter_def)
  next
    case new
    then show ?thesis using p threads_okD(4) [OF ok] by (auto simp: enter_def map_ok_def)
  qed
  have "pc_ok ?s u (pc ?s u)" for u
  proof (cases "u = t")
    case True
    with mine show ?thesis by (simp add: enter_def stay_def)
  next
    case False
    then show ?thesis
      using pc_ok_mono [OF threads_okD(1) [OF ok] le same] lk by (simp add: enter_def stay_def)
  qed
  moreover have "entry_ok ?s x" if "x < next_ref (tc ?s)" for x
    by (rule entry_ok_enter [OF ok t e that])
  moreover have "map_ok ?s"
    using threads_okD(4) [OF ok]
    by (cases rule: entry_for_cases [OF e]) (auto simp: map_ok_def enter_def stay_def less_Suc_eq le_SucI)
  moreover have "lock ?s x = None" if "next_ref (tc ?s) \<le> x" for x
    using that le lk threads_okD(3) [OF ok] by simp
  ultimately show ?thesis by (simp add: threads_ok_def)
qed

text \<open>A step after which the thread \<open>t\<close> is at \<open>q\<close>, and which changes at most the entry \<open>e\<close>.\<close>

lemma threads_ok_change:
  assumes ok: "threads_ok s" and e: "e < next_ref (tc s)"
    and s': "pc s' = (pc s)(t := q)" "born s' = born s" "steps s \<le> steps s'" "clock s' = clock s"
      "entries (tc s') = entries (tc s)" "next_ref (tc s') = next_ref (tc s)"
      "cache_ttl (tc s') = cache_ttl (tc s)" "deleted s' = deleted s"
      "\<And>x. x \<noteq> e \<Longrightarrow> heap (tc s') x = heap (tc s) x \<and> origin s' x = origin s x \<and> lock s' x = lock s x"
    and mine: "pc_ok s' t q" "entry_ok s' e" and others: "\<And>u. lock s e = Some u \<Longrightarrow> u = t"
    and left: "\<And>i x d b. pc s t = Loading i x d b \<Longrightarrow> x = e"
  shows "threads_ok s'"
proof -
  have "pc_ok s' u (pc s' u)" for u
  proof (cases "u = t")
    case False
    have "lock s' x = Some u" if "lock s x = Some u" for x
      using that False others s'(9) by (cases "x = e") auto
    with False show ?thesis using pc_ok_mono [OF threads_okD(1) [OF ok], of s' u] s' by simp
  qed (use mine s' in simp)
  moreover have "entry_ok s' x" if x: "x < next_ref (tc s')" for x
  proof (cases "x = e")
    case False
    have old: "entry_ok s x" using threads_okD(2) [OF ok] x s' by simp
    have "\<exists>j d b. pc s' u = Loading j x d b" if "lock s x = Some u" for u
      using old that False left s'(1) unfolding entry_ok_def by (cases "u = t") fastforce+
    with old s' False show ?thesis by (auto simp: entry_ok_def)
  qed (use mine in simp)
  moreover have "lock s' x = None" if "next_ref (tc s') \<le> x" for x
    using that threads_okD(3) [OF ok] s' e by (cases "x = e") auto
  moreover have "map_ok s'" using threads_okD(4) [OF ok] s' by (auto simp: map_ok_def intro: le_trans)
  ultimately show ?thesis by (simp add: threads_ok_def)
qed

lemma threads_ok_step:
  assumes "cache_step s l s'" and ok: "threads_ok s"
  shows "threads_ok s'"
  using assms(1)
proof (cases rule: cache_step_cases)
  case (tick d)
  have "pc_ok s' t (pc s t)" for t using pc_ok_mono [OF threads_okD(1) [OF ok]] tick by simp
  with ok tick show ?thesis by (auto simp: threads_ok_def map_ok_def entry_ok_def)
next
  case (get_begin t i e c)
  then show ?thesis using threads_ok_enter [OF ok] by blast
next
  case (put_begin t p e c)
  then show ?thesis using threads_ok_enter [OF ok] by blast
next
  case (get_hit t i e d)
  have e: "e < next_ref (tc s)" using threads_okD(1) [OF ok, of t] get_hit by simp
  have "entry_ok s' e" using threads_okD(2) [OF ok e] get_hit by (auto simp: entry_ok_def stay_def)
  then show ?thesis using get_hit e
    by (intro threads_ok_change [OF ok e, of s' t Idle]) (auto simp: stay_def)
next
  case (get_miss t i e d)
  have e: "e < next_ref (tc s)" "d \<le> born s e" using threads_okD(1) [OF ok, of t] get_miss by simp_all
  with threads_okD(2) [OF ok] have "born s e \<le> steps s" by (simp add: entry_ok_def)
  moreover have "entry_ok s' e" using threads_okD(2) [OF ok e(1)] get_miss by (auto simp: entry_ok_def stay_def)
  ultimately show ?thesis using get_miss e
    by (intro threads_ok_change [OF ok e(1), of s' t "Loading i e d (steps s)"]) (auto simp: stay_def)
next
  case (load_fails t i e d b)
  have e: "e < next_ref (tc s)" "lock s e = Some t" using threads_okD(1) [OF ok, of t] load_fails by simp_all
  have "entry_ok s' e" using threads_okD(2) [OF ok e(1)] load_fails by (auto simp: entry_ok_def stay_def)
  then show ?thesis using load_fails e
    by (intro threads_ok_change [OF ok e(1), of s' t Idle]) (auto simp: stay_def)
next
  case (load_ends t i e d b p)
  have e: "e < next_ref (tc s)" "lock s e = Some t" "born s e \<le> b"
    using threads_okD(1) [OF ok, of t] load_ends by simp_all
  have "entry_ok s' e"
    using threads_okD(2) [OF ok e(1)] load_ends e by (auto simp: entry_ok_def store_in_def fill_entry_def stay_def)
  then show ?thesis using load_ends e
    by (intro threads_ok_change [OF ok e(1), of s' t Idle]) (auto simp: store_in_def stay_def fill_entry_def)
next
  case (put_ends t p e b)
  have e: "e < next_ref (tc s)" "born s e \<le> b" using threads_okD(1) [OF ok, of t] put_ends by simp_all
  have "entry_ok s' e"
    using threads_okD(2) [OF ok e(1)] put_ends e by (auto simp: entry_ok_def store_in_def fill_entry_def stay_def)
  then show ?thesis using put_ends e
    by (intro threads_ok_change [OF ok e(1), of s' t Idle]) (auto simp: store_in_def stay_def fill_entry_def)
next
  case (del i)
  have "pc_ok s' t (pc s t)" for t
    using pc_ok_mono [OF threads_okD(1) [OF ok]] del by (simp add: cache_delete_def)
  with ok del show ?thesis by (auto simp: threads_ok_def map_ok_def entry_ok_def cache_delete_def le_SucI)
qed

lemma reachable_ok: "reachable ttl s \<Longrightarrow> threads_ok s \<and> cache_ttl (tc s) = ttl"
proof (induction rule: reachable.induct)
  case start
  then show ?case using threads_ok_init by (simp add: init_threads_def NewPollCache_def)
next
  case (step s l s')
  have "cache_ttl (tc s') = cache_ttl (tc s)"
    using step.hyps(2) by (cases rule: cache_step_cases)
      (auto simp: enter_def stay_def store_in_def fill_entry_def cache_delete_def entry_for_def split: option.splits)
  with step threads_ok_step show ?case by auto
qed

lemma reachable_cache_ok: "reachable ttl s \<Longrightarrow> cache_ok (tc s)"
proof (induction rule: reachable.induct)
  case start
  then show ?case using cache_ok_new by (simp add: init_threads_def)
next
  case (step s l s')
  have fill: "cache_ok (fill_entry e p now (tc s))" for e p now
    using step.IH by (simp add: cache_ok_def fill_entry_def)
  from step.hyps(2) step.IH show ?case
    by (cases rule: cache_step_cases)
      (simp_all add: enter_def stay_def store_in_def fill cache_delete_cached entry_for_ok)
qed

section \<open>Claims\<close>

text \<open>A poll is loaded by one thread at a time: however many requests miss the cache at once, the
  mutex of the entry lets one of them ask the database, and an entry serves one id only.\<close>

theorem one_load_per_entry:
  assumes "reachable ttl s" and "pc s t = Loading i e d b" and "pc s t' = Loading i' e d' b'"
  shows "t = t' \<and> lock s e = Some t \<and> (entries (tc s) j = Some e \<longrightarrow> entries (tc s) k = Some e \<longrightarrow> j = k)"
proof -
  have inj: "entries (tc s) j = Some e \<Longrightarrow> entries (tc s) k = Some e \<Longrightarrow> j = k"
    using reachable_cache_ok [OF assms(1)] by (simp add: cache_ok_def)
  have ok: "threads_ok s" using reachable_ok [OF assms(1)] by simp
  from threads_okD(1) [OF ok, of t] threads_okD(1) [OF ok, of t'] assms(2,3) inj show ?thesis by auto
qed

text \<open>C33. A Get never answers from before a Delete: the load or Put that gave its answer began after the last
  Delete of the id that came before the Get itself. The answer was put into the cache just now or
  less than the time to live ago.\<close>

theorem deleted_poll_is_not_served:
  assumes "reachable ttl s" and "cache_step s (Got t i p d b f) s'"
  shows "d \<le> b \<and> f \<le> clock s \<and> (clock s < f + ttl \<or> f = clock s)"
proof -
  have ok: "threads_ok s" and ttl: "cache_ttl (tc s) = ttl" using reachable_ok [OF assms(1)] by auto
  from assms(2) show ?thesis
  proof (cases rule: Got_cases)
    case (hit e)
    have e: "e < next_ref (tc s)" "d \<le> born s e" using threads_okD(1) [OF ok, of t] hit by simp_all
    from threads_okD(2) [OF ok e(1)] e(2) hit ttl show ?thesis by (auto simp: entry_ok_def cache_hit_def)
  next
    case (loaded e)
    then show ?thesis using threads_okD(1) [OF ok, of t] by auto
  qed
qed

text \<open>A loading thread can end its load; a thread whose entry is not locked can pass its critical section.\<close>

abbreviation some_moves :: "threads \<Rightarrow> bool" where
  "some_moves s \<equiv> \<exists>t' l s'. pc s t' \<noteq> Idle \<and> cache_step s l s' \<and> pc s' t' \<noteq> pc s t' \<and>
    (pc s' t' = Idle \<or> (\<exists>i e d b. pc s' t' = Loading i e d b))"

lemma some_movesI:
  "cache_step s l s' \<Longrightarrow> pc s u \<noteq> Idle \<Longrightarrow> pc s' u \<noteq> pc s u \<Longrightarrow>
   pc s' u = Idle \<or> (\<exists>i e d b. pc s' u = Loading i e d b) \<Longrightarrow> some_moves s"
  by blast

lemma loading_moves: "pc s u = Loading i e d b \<Longrightarrow> some_moves s"
  by (rule some_movesI [of _ _ _ u, OF cache_step.load_fails]) (auto simp: stay_def)

lemma free_moves:
  assumes "pc s t = Want i e d \<or> pc s t = Putting p e b" and "lock s e = None"
  shows "some_moves s"
  using assms(1)
proof
  assume w: "pc s t = Want i e d"
  show ?thesis
  proof (cases "cache_hit e (clock s) (tc s)")
    case True
    show ?thesis by (rule some_movesI [of _ _ _ t, OF cache_step.get_hit [OF w assms(2) True]]) (simp_all add: w stay_def)
  next
    case False
    show ?thesis by (rule some_movesI [of _ _ _ t, OF cache_step.get_miss [OF w assms(2) False]]) (simp_all add: w stay_def)
  qed
next
  assume p: "pc s t = Putting p e b"
  show ?thesis by (rule some_movesI [of _ _ _ t, OF cache_step.put_ends [OF p assms(2)]]) (simp_all add: p stay_def store_in_def)
qed

text \<open>C34. The cache does not block: in every reachable state in which a thread is inside Get or Put, some
  thread inside can take its next step as soon as its load has returned.\<close>

theorem cache_does_not_block:
  assumes "reachable ttl s" and "pc s t \<noteq> Idle"
  shows "\<exists>t' l s'. pc s t' \<noteq> Idle \<and> cache_step s l s' \<and> pc s' t' \<noteq> pc s t' \<and>
    (pc s' t' = Idle \<or> (\<exists>i e d b. pc s' t' = Loading i e d b))"
proof (cases "\<exists>u i e d b. pc s u = Loading i e d b")
  case True
  then obtain u i e d b where "pc s u = Loading i e d b" by blast
  from loading_moves [OF this] show ?thesis .
next
  case False
  have ok: "threads_ok s" using reachable_ok [OF assms(1)] by simp
  have "lock s e = None" if "pc s t = Want i e d \<or> pc s t = Putting p e b" for i e d p b
    using threads_okD(1) [OF ok, of t] threads_okD(2) [OF ok, of e] that False by (cases "lock s e") (auto simp: entry_ok_def)
  then show ?thesis
    using assms(2) False free_moves [of s t] by (cases "pc s t") auto
qed

section \<open>A concrete run\<close>

text \<open>Thread 0 misses and loads; thread 1 asks for the same poll meanwhile.\<close>

definition demo_t1 :: threads where
  "demo_t1 = enter 0 (Want ''p'' 0 0) (snd (entry_for ''p'' (NewPollCache 5))) (init_threads 5)"
definition demo_t2 :: threads where
  "demo_t2 = (stay 0 (Loading ''p'' 0 0 1) demo_t1)\<lparr>lock := (lock demo_t1)(0 := Some 0)\<rparr>"
definition demo_t3 :: threads where
  "demo_t3 = enter 1 (Want ''p'' 0 0) (tc demo_t2) demo_t2"

lemma demo_threads:
  "reachable 5 demo_t2" "reachable 5 demo_t3" "pc demo_t3 0 = Loading ''p'' 0 0 1" "pc demo_t3 1 = Want ''p'' 0 0"
proof -
  have e: "entry_for ''p'' (NewPollCache 5) = (0, snd (entry_for ''p'' (NewPollCache 5)))"
    by (simp add: entry_for_def NewPollCache_def)
  have "cache_step (init_threads 5) (Begin 0) demo_t1"
    using cache_step.get_begin [of "init_threads 5" 0 "''p''" 0] e by (simp add: demo_t1_def init_threads_def)
  with reachable.start have r1: "reachable 5 demo_t1" by (rule reachable.step)
  have "cache_step demo_t1 (Load 0) demo_t2"
    using cache_step.get_miss [of demo_t1 0 "''p''" 0 0]
    by (simp add: demo_t2_def demo_t1_def enter_def stay_def init_threads_def cache_hit_def entry_for_def
        NewPollCache_def zero_entry_def)
  with r1 show r2: "reachable 5 demo_t2" by (rule reachable.step)
  have "cache_step demo_t2 (Begin 1) demo_t3"
    using cache_step.get_begin [of demo_t2 1 "''p''" 0 "tc demo_t2"]
    by (simp add: demo_t3_def demo_t2_def demo_t1_def enter_def stay_def init_threads_def entry_for_def NewPollCache_def)
  with r2 show "reachable 5 demo_t3" by (rule reachable.step)
qed (simp_all add: demo_t3_def demo_t2_def enter_def stay_def)

theorem one_load_per_entry_witness: "lock demo_t3 0 = Some 0"
  using one_load_per_entry [OF demo_threads(2,3,3)] by simp

theorem deleted_poll_is_not_served_witness:
  "(0 :: nat) \<le> 1 \<and> (clock demo_t2 < clock demo_t2 + 5 \<or> clock demo_t2 = clock demo_t2) \<and>
   cache_step demo_t2 (Got 0 ''p'' zero_poll 0 1 (clock demo_t2)) (store_in 0 0 zero_poll 1 demo_t2)"
proof -
  have "pc demo_t2 0 = Loading ''p'' 0 0 1" by (simp add: demo_t2_def stay_def)
  from cache_step.load_ends [OF this, of zero_poll] deleted_poll_is_not_served [OF demo_threads(1) cache_step.load_ends [OF this, of zero_poll]]
  show ?thesis by blast
qed

theorem cache_does_not_block_witness: "\<exists>t' l s'. pc demo_t3 t' \<noteq> Idle \<and> cache_step demo_t3 l s'"
proof -
  have "pc demo_t3 1 \<noteq> Idle" using demo_threads(4) by simp
  from cache_does_not_block [OF demo_threads(2) this] show ?thesis by blast
qed

end
