(* ===== verification/Go_Net.thy ===== *)
theory Go_Net
  imports Go_Encoding
begin

unbundle bit_operations_syntax

text \<open>
  What the source uses of Go's package net: \<open>SplitHostPort\<close>, \<open>ParseIP\<close>, \<open>ParseCIDR\<close>, \<open>IPNet.Contains\<close>,
  \<open>IP.To4\<close>, \<open>IP.Mask\<close> and \<open>IP.String\<close>. An \<open>IP\<close> is a list of 4 or 16 bytes; \<open>ParseIP\<close> gives 16, an
  IPv4 address in its mapped form.
\<close>

section \<open>Hosts and ports\<close>

text \<open>The part before the last occurrence of a byte, and the part after it.\<close>

definition cut_last :: "char \<Rightarrow> string \<Rightarrow> (string \<times> string) option" where
  "cut_last c s = (if c \<notin> set s then None
     else Some (rev (tl (dropWhile (\<lambda>x. x \<noteq> c) (rev s))), rev (takeWhile (\<lambda>x. x \<noteq> c) (rev s))))"

definition cut :: "char \<Rightarrow> string \<Rightarrow> (string \<times> string) option" where
  "cut c s = (if c \<notin> set s then None else Some (takeWhile (\<lambda>x. x \<noteq> c) s, tl (dropWhile (\<lambda>x. x \<noteq> c) s)))"

text \<open>The host of \<open>SplitHostPort\<close>; \<open>None\<close> is its error.\<close>

definition split_host :: "string \<Rightarrow> string option" where
  "split_host s =
     (case cut_last (CHR '':'') s of
        None \<Rightarrow> None
      | Some (before, port) \<Rightarrow>
        if hd s = CHR ''['' then
          (case cut (CHR '']'') s of
             None \<Rightarrow> None
           | Some (inner, rest) \<Rightarrow>
             if rest = CHR '':'' # port \<and> CHR ''['' \<notin> set (tl s) \<and> CHR '']'' \<notin> set rest then Some (tl inner) else None)
        else if CHR '':'' \<in> set before \<or> CHR ''['' \<in> set s \<or> CHR '']'' \<in> set s then None
        else Some before)"

section \<open>Parsing addresses\<close>

definition parse_octet :: "string \<Rightarrow> byte option" where
  "parse_octet s =
     (if s = [] \<or> (length s > 1 \<and> hd s = CHR ''0'') then None
      else case dec_val 0 s of None \<Rightarrow> None | Some n \<Rightarrow> if n > 255 then None else Some (word_of_nat n))"

definition parse_ipv4 :: "string \<Rightarrow> byte list option" where
  "parse_ipv4 s =
     (let parts = map parse_octet (split (CHR ''.'') s)
      in if length parts = 4 \<and> None \<notin> set parts then Some (map the parts) else None)"

text \<open>The loop over the groups of an IPv6 address: the bytes so far, where the ellipsis is, and the text
  left; at most eight groups.\<close>

definition hex_group :: "string \<Rightarrow> (nat \<times> string) option" where
  "hex_group s =
     (let ds = takeWhile is_hex s
      in if ds = [] \<or> length ds > 4 then None
         else Some (foldl (\<lambda>a c. 16 * a + the (from_hex c)) 0 ds, dropWhile is_hex s))"

fun v6_groups :: "nat \<Rightarrow> byte list \<Rightarrow> nat option \<Rightarrow> string \<Rightarrow> (byte list \<times> nat option) option" where
  "v6_groups 0 ip ell s = (if s = [] then Some (ip, ell) else None)"
| "v6_groups (Suc n) ip ell s =
     (case hex_group s of
        None \<Rightarrow> None
      | Some (acc, rest) \<Rightarrow>
        if rest \<noteq> [] \<and> hd rest = CHR ''.'' then
          (if (ell = None \<and> length ip \<noteq> 12) \<or> length ip > 12 then None
           else case parse_ipv4 s of None \<Rightarrow> None | Some v4 \<Rightarrow> Some (ip @ v4, ell))
        else
          let ip' = ip @ [word_of_nat (acc div 256), word_of_nat acc] in
          (case rest of
             [] \<Rightarrow> Some (ip', ell)
           | c # s1 \<Rightarrow>
             if c \<noteq> CHR '':'' \<or> s1 = [] then None
             else if hd s1 = CHR '':'' then
               (if ell \<noteq> None then None
                else if tl s1 = [] then Some (ip', Some (length ip'))
                else v6_groups n ip' (Some (length ip')) (tl s1))
             else v6_groups n ip' ell s1))"

definition expand_ellipsis :: "byte list \<times> nat option \<Rightarrow> byte list option" where
  "expand_ellipsis r =
     (case r of
        (ip, None) \<Rightarrow> if length ip = 16 then Some ip else None
      | (ip, Some e) \<Rightarrow> if length ip < 16 then Some (take e ip @ replicate (16 - length ip) 0 @ drop e ip) else None)"

definition parse_ipv6 :: "string \<Rightarrow> byte list option" where
  "parse_ipv6 s =
     (if has_prefix s ''::'' then
        (if drop 2 s = [] then Some (replicate 16 0)
         else case v6_groups 8 [] (Some 0) (drop 2 s) of None \<Rightarrow> None | Some r \<Rightarrow> expand_ellipsis r)
      else case v6_groups 8 [] None s of None \<Rightarrow> None | Some r \<Rightarrow> expand_ellipsis r)"

text \<open>\<open>netip.ParseAddr\<close> without a zone: the first byte that is a dot or a colon decides.\<close>

datatype addr = V4 "byte list" | V6 "byte list"

definition parse_addr :: "string \<Rightarrow> addr option" where
  "parse_addr s =
     (case dropWhile (\<lambda>c. c \<noteq> CHR ''.'' \<and> c \<noteq> CHR '':'' \<and> c \<noteq> CHR ''%'') s of
        [] \<Rightarrow> None
      | c # _ \<Rightarrow> if c = CHR ''.'' then map_option V4 (parse_ipv4 s)
                 else if c = CHR '':'' then map_option V6 (parse_ipv6 s) else None)"

definition v4_prefix :: "byte list" where
  "v4_prefix = replicate 10 0 @ [255, 255]"

fun as16 :: "addr \<Rightarrow> byte list" where
  "as16 (V4 b) = v4_prefix @ b"
| "as16 (V6 b) = b"

fun bit_len :: "addr \<Rightarrow> nat" where
  "bit_len (V4 b) = 32"
| "bit_len (V6 b) = 128"

definition ParseIP :: "string \<Rightarrow> byte list option" where
  "ParseIP s = map_option as16 (parse_addr s)"

section \<open>Networks\<close>

definition To4 :: "byte list \<Rightarrow> byte list option" where
  "To4 ip = (if length ip = 4 then Some ip
     else if length ip = 16 \<and> take 12 ip = v4_prefix then Some (drop 12 ip) else None)"

text \<open>\<open>CIDRMask(ones, bits)\<close>.\<close>

definition CIDRMask :: "nat \<Rightarrow> nat \<Rightarrow> byte list" where
  "CIDRMask ones bits = map (\<lambda>i. word_of_nat (256 - 2 ^ (8 - min 8 (ones - 8 * i)))) [0..<bits div 8]"

definition and_bytes :: "byte list \<Rightarrow> byte list \<Rightarrow> byte list" where
  "and_bytes ip m = map2 (AND) ip m"

text \<open>\<open>ip.Mask(m)\<close> for a mask of the length of \<open>ip\<close>, or of 4 bytes and a mapped IPv4 address.\<close>

definition mask_ip :: "byte list \<Rightarrow> byte list \<Rightarrow> byte list option" where
  "mask_ip ip m =
     (let ip' = (if length m = 4 \<and> length ip = 16 \<and> take 12 ip = v4_prefix then drop 12 ip else ip)
      in if length ip' = length m then Some (and_bytes ip' m) else None)"

record ip_net =
  net_IP :: "byte list"
  net_Mask :: "byte list"

text \<open>\<open>dtoi\<close> of the length of a prefix, which must use the whole text.\<close>

definition parse_ones :: "string \<Rightarrow> nat option" where
  "parse_ones s = (if s = [] then None else case dec_val 0 s of None \<Rightarrow> None
     | Some n \<Rightarrow> if n < 16777215 then Some n else None)"

definition ParseCIDR :: "string \<Rightarrow> ip_net option" where
  "ParseCIDR s =
     (case cut (CHR ''/'') s of
        None \<Rightarrow> None
      | Some (a, m) \<Rightarrow>
        (case (parse_addr a, parse_ones m) of
           (Some ip, Some n) \<Rightarrow>
             if n > bit_len ip then None
             else map_option (\<lambda>x. \<lparr>net_IP = x, net_Mask = CIDRMask n (bit_len ip)\<rparr>) (mask_ip (as16 ip) (CIDRMask n (bit_len ip)))
         | _ \<Rightarrow> None))"

definition net_contains :: "ip_net \<Rightarrow> byte list \<Rightarrow> bool" where
  "net_contains n ip =
     (let nn = (case To4 (net_IP n) of Some x \<Rightarrow> x | None \<Rightarrow> net_IP n);
          m = (if length (net_Mask n) = 16 \<and> length nn = 4 then drop 12 (net_Mask n) else net_Mask n);
          x = (case To4 ip of Some y \<Rightarrow> y | None \<Rightarrow> ip)
      in length nn = length m \<and> length x = length nn \<and> and_bytes nn m = and_bytes x m)"

section \<open>Printing addresses\<close>

definition ipv4_text :: "byte list \<Rightarrow> string" where
  "ipv4_text b = join (CHR ''.'') (map (\<lambda>x. itoa_nat (unat x)) b)"

text \<open>A group in hexadecimal without leading zeros.\<close>

fun hex_nat :: "nat \<Rightarrow> string" where
  "hex_nat n = (if n < 16 then [hex_char n] else hex_nat (n div 16) @ [hex_char (n mod 16)])"

declare hex_nat.simps [simp del]

fun groups16 :: "byte list \<Rightarrow> nat list" where
  "groups16 (a # b # r) = (256 * unat a + unat b) # groups16 r"
| "groups16 r = []"

text \<open>The longest run of at least two zero groups, the first of the longest.\<close>

definition zero_run :: "nat list \<Rightarrow> nat \<Rightarrow> nat" where
  "zero_run gs i = length (takeWhile (\<lambda>g. g = 0) (drop i gs))"

definition best_run :: "nat list \<Rightarrow> (nat \<times> nat) option" where
  "best_run gs = foldl (\<lambda>best i. let l = zero_run gs i in
     if l \<ge> 2 \<and> (case best of None \<Rightarrow> True | Some (j, k) \<Rightarrow> l > k) then Some (i, l) else best) None [0..<length gs]"

definition ipv6_text :: "byte list \<Rightarrow> string" where
  "ipv6_text b =
     (let gs = groups16 b; t = (\<lambda>xs. join (CHR '':'') (map hex_nat xs))
      in case best_run gs of
           None \<Rightarrow> t gs
         | Some (i, l) \<Rightarrow> (if i = 0 then [] else t (take i gs)) @ ''::'' @ (if i + l = length gs then [] else t (drop (i + l) gs)))"

definition ip_text :: "byte list \<Rightarrow> string" where
  "ip_text ip = (case To4 ip of Some x \<Rightarrow> ipv4_text x | None \<Rightarrow> ipv6_text ip)"

lemma split_host_examples:
  "split_host ''192.0.2.10:1234'' = Some ''192.0.2.10''" "split_host ''[2001:db8::1]:80'' = Some ''2001:db8::1''"
  "split_host ''::1'' = None" "split_host ''192.0.2.10'' = None"
  by code_simp+

end
