(* ===== verification/Go_Crypto.thy ===== *)
theory Go_Crypto
  imports Go_Encoding
begin

unbundle bit_operations_syntax

text \<open>
  What the source uses of Go's packages crypto/sha256 and crypto/hmac: SHA-256 of
  FIPS 180-4 on 32-bit words and HMAC of RFC 2104, both executable by the kernel.
\<close>

section \<open>SHA-256\<close>

type_synonym word32 = "32 word"

record sha_state =
  sa :: word32  sb :: word32  sc :: word32  sd :: word32
  se :: word32  sf :: word32  sg :: word32  sh :: word32

definition sha_init :: sha_state where
  "sha_init = \<lparr>sa = 1779033703, sb = 3144134277, sc = 1013904242, sd = 2773480762,
               se = 1359893119, sf = 2600822924, sg = 528734635, sh = 1541459225\<rparr>"

definition sha_k :: "word32 list" where
  "sha_k =
    [1116352408, 1899447441, 3049323471, 3921009573, 961987163, 1508970993, 2453635748, 2870763221,
     3624381080, 310598401, 607225278, 1426881987, 1925078388, 2162078206, 2614888103, 3248222580,
     3835390401, 4022224774, 264347078, 604807628, 770255983, 1249150122, 1555081692, 1996064986,
     2554220882, 2821834349, 2952996808, 3210313671, 3336571891, 3584528711, 113926993, 338241895,
     666307205, 773529912, 1294757372, 1396182291, 1695183700, 1986661051, 2177026350, 2456956037,
     2730485921, 2820302411, 3259730800, 3345764771, 3516065817, 3600352804, 4094571909, 275423344,
     430227734, 506948616, 659060556, 883997877, 958139571, 1322822218, 1537002063, 1747873779,
     1955562222, 2024104815, 2227730452, 2361852424, 2428436474, 2756734187, 3204031479, 3329325298]"

definition big_sigma0 :: "word32 \<Rightarrow> word32" where
  "big_sigma0 x = word_rotr 2 x XOR word_rotr 13 x XOR word_rotr 22 x"
definition big_sigma1 :: "word32 \<Rightarrow> word32" where
  "big_sigma1 x = word_rotr 6 x XOR word_rotr 11 x XOR word_rotr 25 x"
definition sigma0 :: "word32 \<Rightarrow> word32" where
  "sigma0 x = word_rotr 7 x XOR word_rotr 18 x XOR drop_bit 3 x"
definition sigma1 :: "word32 \<Rightarrow> word32" where
  "sigma1 x = word_rotr 17 x XOR word_rotr 19 x XOR drop_bit 10 x"

definition sha_round :: "sha_state \<Rightarrow> word32 \<Rightarrow> sha_state" where
  "sha_round s kw =
    (let t1 = sh s + big_sigma1 (se s) + ((se s AND sf s) XOR (NOT (se s) AND sg s)) + kw;
         t2 = big_sigma0 (sa s) + ((sa s AND sb s) XOR (sa s AND sc s) XOR (sb s AND sc s))
     in \<lparr>sa = t1 + t2, sb = sa s, sc = sb s, sd = sc s,
         se = sd s + t1, sf = se s, sg = sf s, sh = sg s\<rparr>)"

text \<open>The message schedule, latest word first.\<close>

fun sha_schedule :: "nat \<Rightarrow> word32 list \<Rightarrow> word32 list" where
  "sha_schedule 0 ws = ws"
| "sha_schedule (Suc n) ws =
     (let w = sigma1 (ws ! 1) + ws ! 6 + sigma0 (ws ! 14) + ws ! 15
      in sha_schedule n (w # ws))"

definition word32_be :: "byte list \<Rightarrow> word32" where
  "word32_be bs = word_of_int (foldl (\<lambda>a b. 256 * a + uint b) 0 bs)"

definition bytes_be :: "nat \<Rightarrow> int \<Rightarrow> byte list" where
  "bytes_be n x = map (\<lambda>i. word_of_int (x div 256 ^ i)) (rev [0..<n])"

fun chunks :: "nat \<Rightarrow> nat \<Rightarrow> 'a list \<Rightarrow> 'a list list" where
  "chunks k 0 xs = []"
| "chunks k (Suc n) xs = take k xs # chunks k n (drop k xs)"

definition sha_block :: "sha_state \<Rightarrow> byte list \<Rightarrow> sha_state" where
  "sha_block s blk =
    (let ws = rev (sha_schedule 48 (rev (map word32_be (chunks 4 16 blk))));
         r = foldl sha_round s (map2 (+) sha_k ws)
     in \<lparr>sa = sa s + sa r, sb = sb s + sb r, sc = sc s + sc r, sd = sd s + sd r,
         se = se s + se r, sf = sf s + sf r, sg = sg s + sg r, sh = sh s + sh r\<rparr>)"

definition sha_pad :: "byte list \<Rightarrow> byte list" where
  "sha_pad bs =
     bs @ 128 # replicate ((119 - length bs mod 64) mod 64) 0 @ bytes_be 8 (8 * int (length bs))"

definition sha256 :: "byte list \<Rightarrow> byte list" where
  "sha256 bs =
    (let msg = sha_pad bs;
         r = foldl sha_block sha_init (chunks 64 (length msg div 64) msg)
     in concat (map (\<lambda>w. bytes_be 4 (uint w)) [sa r, sb r, sc r, sd r, se r, sf r, sg r, sh r]))"

lemma length_bytes_be [simp]: "length (bytes_be n x) = n"
  by (simp add: bytes_be_def)

lemma length_sha256 [simp]: "length (sha256 bs) = 32"
  by (simp add: sha256_def Let_def)

section \<open>HMAC-SHA256\<close>

definition hmac_key :: "byte list \<Rightarrow> byte list" where
  "hmac_key k = (let k' = if length k > 64 then sha256 k else k in k' @ replicate (64 - length k') 0)"

definition hmac_sha256 :: "byte list \<Rightarrow> byte list \<Rightarrow> byte list" where
  "hmac_sha256 k m =
     sha256 (map (\<lambda>b. b XOR 0x5c) (hmac_key k) @ sha256 (map (\<lambda>b. b XOR 0x36) (hmac_key k) @ m))"

lemma length_hmac_sha256 [simp]: "length (hmac_sha256 k m) = 32"
  by (simp add: hmac_sha256_def)

text \<open>The published test vector of SHA-256 for ''abc'', computed by the kernel.\<close>

lemma sha256_abc:
  "hex_encode (sha256 (bytes_of ''abc'')) =
   ''ba7816bf8f01cfea414140de5dae2223b00361a396177a9cb410ff61f20015ad''"
  by code_simp

end
