(* ===== verification/Redis_Server.thy ===== *)
theory Redis_Server
  imports Domain "HOL-Library.AList"
begin

text \<open>
  The Redis server as the store sees it. Neither the server nor the client library is code of
  the repository, so both are parameters: \<open>exec\<close> runs one command on the server at a server time
  and \<open>px\<close> is the client library's rounding of an expiration to milliseconds. The locale
  \<open>redis_server\<close> states the documented behaviour that the store relies on, through \<open>look\<close>, the
  keyspace that can be observed at a time. \<open>Mem\<close>, a server in memory, interprets it.
\<close>

section \<open>Commands, replies, and the observable keyspace\<close>

datatype cmd = GET string | SET_PX string string int | SET_NX_EX string string int
  | SET_NX_PX string string int | DEL "string list" | HINCRBY string string int
  | HGETALL string | EXPIRE string int | INCR string

datatype reply = RNil | ROk | RBulk string | RInt int | RPairs "(string \<times> string) list" | RErr string

datatype redis_val = RStr string | RHash "string \<rightharpoonup> string"

text \<open>A value and the instant it expires at, if any.\<close>

type_synonym entry = "redis_val \<times> time option"
type_synonym keyspace = "string \<rightharpoonup> entry"

record 'r client =
  exec :: "time \<Rightarrow> cmd \<Rightarrow> 'r \<Rightarrow> 'r \<times> reply"
  px :: "duration \<Rightarrow> int"

definition ms_after :: "time \<Rightarrow> int \<Rightarrow> time" where
  "ms_after t ms = t + ms * Millisecond"
definition s_after :: "time \<Rightarrow> int \<Rightarrow> time" where
  "s_after t s = t + s * Second"

definition alive :: "time \<Rightarrow> entry \<Rightarrow> bool" where
  "alive t e \<longleftrightarrow> (case snd e of None \<Rightarrow> True | Some d \<Rightarrow> t < d)"

definition unexpired :: "time \<Rightarrow> keyspace \<Rightarrow> keyspace" where
  "unexpired t m k = (case m k of None \<Rightarrow> None | Some e \<Rightarrow> if alive t e then Some e else None)"

text \<open>The number that a string value or a hash field counts, when it is one.\<close>

definition counter_of :: "string option \<Rightarrow> int option" where
  "counter_of v = (case v of None \<Rightarrow> Some 0 | Some s \<Rightarrow> parse_int64 s)"

definition hash_field :: "entry option \<Rightarrow> string \<Rightarrow> string option" where
  "hash_field e f = (case e of Some (RHash h, d) \<Rightarrow> h f | _ \<Rightarrow> None)"

definition hash_of :: "entry option \<Rightarrow> (string \<rightharpoonup> string)" where
  "hash_of e = (case e of Some (RHash h, d) \<Rightarrow> h | _ \<Rightarrow> Map.empty)"

definition deadline_of :: "entry option \<Rightarrow> time option" where
  "deadline_of e = (case e of Some (v, d) \<Rightarrow> d | None \<Rightarrow> None)"

definition is_str :: "entry option \<Rightarrow> bool" where
  "is_str e \<longleftrightarrow> (case e of Some (RStr s, d) \<Rightarrow> True | _ \<Rightarrow> False)"
definition is_hash :: "entry option \<Rightarrow> bool" where
  "is_hash e \<longleftrightarrow> (case e of Some (RHash h, d) \<Rightarrow> True | _ \<Rightarrow> False)"

definition str_of :: "entry option \<Rightarrow> string option" where
  "str_of e = (case e of Some (RStr s, d) \<Rightarrow> Some s | _ \<Rightarrow> None)"

section \<open>The documented behaviour\<close>

locale redis_server =
  fixes C :: "'r client" and look :: "'r \<Rightarrow> time \<Rightarrow> keyspace"
  assumes look_later: "t \<le> t' \<Longrightarrow> look r t' = unexpired t' (look r t)"
    and GET_state: "look (fst (exec C t (GET k) r)) t = look r t"
    and GET_reply: "snd (exec C t (GET k) r) =
      (case look r t k of None \<Rightarrow> RNil | Some (RStr s, d) \<Rightarrow> RBulk s
       | Some (RHash h, d) \<Rightarrow> RErr ''WRONGTYPE'')"
    and SET_PX_state: "0 < ms \<Longrightarrow>
      look (fst (exec C t (SET_PX k v ms) r)) t = (look r t)(k \<mapsto> (RStr v, Some (ms_after t ms)))"
    and SET_PX_reply: "0 < ms \<Longrightarrow> snd (exec C t (SET_PX k v ms) r) = ROk"
    and SET_NX_EX_state: "0 < s \<Longrightarrow> look (fst (exec C t (SET_NX_EX k v s) r)) t =
      (if look r t k = None then (look r t)(k \<mapsto> (RStr v, Some (s_after t s))) else look r t)"
    and SET_NX_EX_reply: "0 < s \<Longrightarrow> snd (exec C t (SET_NX_EX k v s) r) =
      (if look r t k = None then ROk else RNil)"
    and SET_NX_PX_state: "0 < ms \<Longrightarrow> look (fst (exec C t (SET_NX_PX k v ms) r)) t =
      (if look r t k = None then (look r t)(k \<mapsto> (RStr v, Some (ms_after t ms))) else look r t)"
    and SET_NX_PX_reply: "0 < ms \<Longrightarrow> snd (exec C t (SET_NX_PX k v ms) r) =
      (if look r t k = None then ROk else RNil)"
    and DEL_state: "look (fst (exec C t (DEL ks) r)) t = (look r t) |` (- set ks)"
    and DEL_reply: "snd (exec C t (DEL ks) r) = RInt (int (card (set ks \<inter> dom (look r t))))"
    and HINCRBY_ok: "\<not> is_str (look r t k) \<Longrightarrow> counter_of (hash_field (look r t k) f) = Some c \<Longrightarrow>
      in64 (c + n) \<Longrightarrow>
      look (fst (exec C t (HINCRBY k f n) r)) t =
        (look r t)(k \<mapsto> (RHash ((hash_of (look r t k))(f \<mapsto> itoa (c + n))), deadline_of (look r t k))) \<and>
      snd (exec C t (HINCRBY k f n) r) = RInt (c + n)"
    and HINCRBY_fails: "is_str (look r t k) \<or> counter_of (hash_field (look r t k) f) = None \<or>
      counter_of (hash_field (look r t k) f) = Some c \<and> \<not> in64 (c + n) \<Longrightarrow>
      look (fst (exec C t (HINCRBY k f n) r)) t = look r t \<and>
      (\<exists>m. snd (exec C t (HINCRBY k f n) r) = RErr m)"
    and HGETALL_state: "look (fst (exec C t (HGETALL k) r)) t = look r t"
    and HGETALL_reply: "\<not> is_str (look r t k) \<Longrightarrow>
      \<exists>l. snd (exec C t (HGETALL k) r) = RPairs l \<and> distinct (map fst l) \<and>
          map_of l = hash_of (look r t k)"
    and EXPIRE_state: "0 < s \<Longrightarrow> look (fst (exec C t (EXPIRE k s) r)) t =
      (case look r t k of None \<Rightarrow> look r t
       | Some (v, d) \<Rightarrow> (look r t)(k \<mapsto> (v, Some (s_after t s))))"
    and EXPIRE_reply: "0 < s \<Longrightarrow> snd (exec C t (EXPIRE k s) r) =
      RInt (if look r t k = None then 0 else 1)"
    and INCR_ok: "\<not> is_hash (look r t k) \<Longrightarrow> counter_of (str_of (look r t k)) = Some c \<Longrightarrow>
      in64 (c + 1) \<Longrightarrow>
      look (fst (exec C t (INCR k) r)) t =
        (look r t)(k \<mapsto> (RStr (itoa (c + 1)), deadline_of (look r t k))) \<and>
      snd (exec C t (INCR k) r) = RInt (c + 1)"
    and INCR_fails: "is_hash (look r t k) \<or> counter_of (str_of (look r t k)) = None \<or>
      counter_of (str_of (look r t k)) = Some c \<and> \<not> in64 (c + 1) \<Longrightarrow>
      look (fst (exec C t (INCR k) r)) t = look r t \<and>
      (\<exists>m. snd (exec C t (INCR k) r) = RErr m)"
    and px_ms: "Millisecond \<le> d \<Longrightarrow> px C d = d div Millisecond"
    and px_pos: "0 < d \<Longrightarrow> 0 < px C d"
begin

lemmas reply_simps = GET_reply SET_PX_reply SET_NX_EX_reply SET_NX_PX_reply DEL_reply EXPIRE_reply
lemmas state_simps = GET_state SET_PX_state SET_NX_EX_state SET_NX_PX_state DEL_state
  HGETALL_state EXPIRE_state

lemma look_alive:
  assumes "look r t k = Some e"
  shows "alive t e"
proof -
  have "unexpired t (look r t) k = Some e"
    using look_later [of t t r] assms by (metis order_refl)
  then show ?thesis by (simp add: unexpired_def split: option.splits if_splits)
qed

lemma look_later_Some: "look r t' k = Some e \<Longrightarrow> t \<le> t' \<Longrightarrow> look r t k = Some e"
  by (simp add: look_later [of t t'] unexpired_def split: option.splits if_splits)

lemma look_still: "look r t k = Some e \<Longrightarrow> alive t' e \<Longrightarrow> t \<le> t' \<Longrightarrow> look r t' k = Some e"
  by (simp add: look_later [of t t'] unexpired_def)

lemma look_eq_later:
  assumes "look r t = look r' t" and "t \<le> t'"
  shows "look r t' = look r' t'"
  using assms by (simp add: look_later [of t t'])

end

section \<open>A server in memory\<close>

datatype mem_val = MStr string | MHash "(string \<times> string) list"

type_synonym mem = "(string \<times> mem_val \<times> time option) list"

fun val_of :: "mem_val \<Rightarrow> redis_val" where
  "val_of (MStr s) = RStr s"
| "val_of (MHash h) = RHash (map_of h)"

definition mem_get :: "mem \<Rightarrow> time \<Rightarrow> string \<Rightarrow> (mem_val \<times> time option) option" where
  "mem_get r t k =
     (case map_of r k of None \<Rightarrow> None
      | Some (v, d) \<Rightarrow> if alive t (val_of v, d) then Some (v, d) else None)"

definition mem_look :: "mem \<Rightarrow> time \<Rightarrow> keyspace" where
  "mem_look r t k = map_option (\<lambda>(v, d). (val_of v, d)) (mem_get r t k)"

definition mem_put :: "string \<Rightarrow> mem_val \<Rightarrow> time option \<Rightarrow> mem \<Rightarrow> mem" where
  "mem_put k v d r = AList.update k (v, d) r"

fun mem_exec :: "time \<Rightarrow> cmd \<Rightarrow> mem \<Rightarrow> mem \<times> reply" where
  "mem_exec t (GET k) r =
     (r, case mem_get r t k of None \<Rightarrow> RNil | Some (MStr s, d) \<Rightarrow> RBulk s
         | Some (MHash h, d) \<Rightarrow> RErr ''WRONGTYPE'')"
| "mem_exec t (SET_PX k v ms) r =
     (if ms \<le> 0 then (r, RErr ''invalid expire'')
      else (mem_put k (MStr v) (Some (ms_after t ms)) r, ROk))"
| "mem_exec t (SET_NX_EX k v s) r =
     (if s \<le> 0 then (r, RErr ''invalid expire'')
      else if mem_get r t k = None then (mem_put k (MStr v) (Some (s_after t s)) r, ROk)
      else (r, RNil))"
| "mem_exec t (SET_NX_PX k v ms) r =
     (if ms \<le> 0 then (r, RErr ''invalid expire'')
      else if mem_get r t k = None then (mem_put k (MStr v) (Some (ms_after t ms)) r, ROk)
      else (r, RNil))"
| "mem_exec t (DEL ks) r =
     (filter (\<lambda>e. fst e \<notin> set ks) r,
      RInt (int (length (filter (\<lambda>k. mem_get r t k \<noteq> None) (remdups ks)))))"
| "mem_exec t (HINCRBY k f n) r =
     (case mem_get r t k of
        Some (MStr s, d) \<Rightarrow> (r, RErr ''WRONGTYPE'')
      | e \<Rightarrow>
        let (h, d) = (case e of Some (MHash h, d) \<Rightarrow> (h, d) | _ \<Rightarrow> ([], None)) in
        case counter_of (map_of h f) of
          None \<Rightarrow> (r, RErr ''hash value is not an integer'')
        | Some c \<Rightarrow>
          if in64 (c + n) then (mem_put k (MHash (AList.update f (itoa (c + n)) h)) d r, RInt (c + n))
          else (r, RErr ''increment or decrement would overflow''))"
| "mem_exec t (HGETALL k) r =
     (r, case mem_get r t k of None \<Rightarrow> RPairs [] | Some (MHash h, d) \<Rightarrow> RPairs (AList.clearjunk h)
         | Some (MStr s, d) \<Rightarrow> RErr ''WRONGTYPE'')"
| "mem_exec t (EXPIRE k s) r =
     (case mem_get r t k of None \<Rightarrow> (r, RInt 0)
      | Some (v, d) \<Rightarrow> (mem_put k v (Some (s_after t s)) r, RInt 1))"
| "mem_exec t (INCR k) r =
     (case mem_get r t k of
        Some (MHash h, d) \<Rightarrow> (r, RErr ''WRONGTYPE'')
      | e \<Rightarrow>
        let (v, d) = (case e of Some (MStr s, d) \<Rightarrow> (Some s, d) | _ \<Rightarrow> (None, None)) in
        case counter_of v of
          None \<Rightarrow> (r, RErr ''value is not an integer'')
        | Some c \<Rightarrow>
          if in64 (c + 1) then (mem_put k (MStr (itoa (c + 1))) d r, RInt (c + 1))
          else (r, RErr ''increment or decrement would overflow''))"

definition mem_px :: "duration \<Rightarrow> int" where
  "mem_px d = (if 0 < d \<and> d < Millisecond then 1 else d div Millisecond)"

definition Mem :: "mem client" where
  "Mem = \<lparr>exec = mem_exec, px = mem_px\<rparr>"

lemma mem_get_alive: "mem_get r t k = Some (v, d) \<Longrightarrow> alive t (val_of v, d)"
  by (auto simp: mem_get_def split: option.splits if_splits)

lemma alive_mono: "alive t' e \<Longrightarrow> t \<le> t' \<Longrightarrow> alive t e"
  by (auto simp: alive_def split: option.splits)

lemma mem_get_put:
  "alive t (val_of v, d) \<Longrightarrow>
   mem_get (mem_put k v d r) t k' = (if k' = k then Some (v, d) else mem_get r t k')"
  by (simp add: mem_get_def mem_put_def update_conv')

lemma mem_look_put:
  "alive t (val_of v, d) \<Longrightarrow> mem_look (mem_put k v d r) t = (mem_look r t)(k \<mapsto> (val_of v, d))"
  by (rule ext) (simp add: mem_look_def mem_get_put)

lemma mem_look_later: "t \<le> t' \<Longrightarrow> mem_look r t' = unexpired t' (mem_look r t)"
  by (rule ext)
     (auto simp: mem_look_def mem_get_def unexpired_def split: option.splits intro: alive_mono)

lemma alive_after [simp]:
  "0 < n \<Longrightarrow> alive t (v, Some (ms_after t n))" "0 < n \<Longrightarrow> alive t (v, Some (s_after t n))"
  by (simp_all add: alive_def ms_after_def s_after_def Millisecond_def Second_def)

lemma map_of_filter_key: "map_of (filter (\<lambda>e. fst e \<notin> A) r) = (map_of r) |` (- A)"
  by (rule ext, induction r) (auto simp: restrict_map_def)

lemma mem_look_del: "mem_look (filter (\<lambda>e. fst e \<notin> A) r) t = (mem_look r t) |` (- A)"
  by (rule ext) (simp add: mem_look_def mem_get_def map_of_filter_key restrict_map_def)

lemma mem_look_None: "mem_look r t k = None \<longleftrightarrow> mem_get r t k = None"
  by (simp add: mem_look_def)

lemma mem_look_eq:
  "mem_look r t k = (case mem_get r t k of None \<Rightarrow> None | Some (v, d) \<Rightarrow> Some (val_of v, d))"
  by (simp add: mem_look_def split: option.split)

lemma mem_del_count:
  "int (length (filter (\<lambda>k. mem_get r t k \<noteq> None) (remdups ks))) =
   int (card (set ks \<inter> dom (mem_look r t)))"
proof -
  have "length (filter (\<lambda>k. mem_get r t k \<noteq> None) (remdups ks)) =
      card (set (filter (\<lambda>k. mem_get r t k \<noteq> None) (remdups ks)))"
    by (rule distinct_card [symmetric]) simp
  also have "set (filter (\<lambda>k. mem_get r t k \<noteq> None) (remdups ks)) = set ks \<inter> dom (mem_look r t)"
    by (auto simp: dom_def mem_look_None [symmetric])
  finally show ?thesis by (rule arg_cong [where f = int])
qed

lemmas mem_simps = Mem_def mem_look_put mem_look_eq is_str_def is_hash_def hash_of_def hash_field_def
  deadline_of_def str_of_def

lemma mem_HINCRBY_ok:
  assumes "\<not> is_str (mem_look r t k)" and "counter_of (hash_field (mem_look r t k) f) = Some c"
    and "in64 (c + n)"
  shows "mem_look (fst (mem_exec t (HINCRBY k f n) r)) t = (mem_look r t)(k \<mapsto>
      (RHash ((hash_of (mem_look r t k))(f \<mapsto> itoa (c + n))), deadline_of (mem_look r t k))) \<and>
    snd (mem_exec t (HINCRBY k f n) r) = RInt (c + n)"
proof (cases "mem_get r t k")
  case None
  with assms show ?thesis
    by (simp add: mem_simps alive_def update_conv' map_fun_upd del: fun_upd_apply)
next
  case (Some e)
  with assms obtain h d where e: "mem_get r t k = Some (MHash h, d)"
    by (cases e; cases "fst e") (auto simp: mem_simps)
  then have "alive t (RHash (map_of (AList.update f (itoa (c + n)) h)), d)"
    using mem_get_alive [OF e] by (simp add: alive_def)
  with assms e show ?thesis
    by (simp add: mem_simps update_conv' del: fun_upd_apply)
qed

lemma mem_INCR_ok:
  assumes "\<not> is_hash (mem_look r t k)" and "counter_of (str_of (mem_look r t k)) = Some c"
    and "in64 (c + 1)"
  shows "mem_look (fst (mem_exec t (INCR k) r)) t =
      (mem_look r t)(k \<mapsto> (RStr (itoa (c + 1)), deadline_of (mem_look r t k))) \<and>
    snd (mem_exec t (INCR k) r) = RInt (c + 1)"
proof (cases "mem_get r t k")
  case None
  with assms show ?thesis by (simp add: mem_simps alive_def del: fun_upd_apply)
next
  case (Some e)
  with assms obtain s d where e: "mem_get r t k = Some (MStr s, d)"
    by (cases e; cases "fst e") (auto simp: mem_simps)
  then have "alive t (RStr (itoa (c + 1)), d)"
    using mem_get_alive [OF e] by (simp add: alive_def)
  with assms e show ?thesis by (simp add: mem_simps del: fun_upd_apply)
qed

interpretation mem: redis_server Mem mem_look
proof
  fix r :: mem and t t' :: time and k f v s :: string and n c ms :: int and ks d
  show "t \<le> t' \<Longrightarrow> mem_look r t' = unexpired t' (mem_look r t)" by (rule mem_look_later)
  show "mem_look (fst (exec Mem t (GET k) r)) t = mem_look r t" by (simp add: Mem_def)
  show "snd (exec Mem t (GET k) r) =
      (case mem_look r t k of None \<Rightarrow> RNil | Some (RStr s, d) \<Rightarrow> RBulk s
       | Some (RHash h, d) \<Rightarrow> RErr ''WRONGTYPE'')"
    by (simp add: mem_simps split: option.split mem_val.split)
  show "mem_look (fst (exec Mem t (DEL ks) r)) t = (mem_look r t) |` (- set ks)"
    by (simp add: Mem_def mem_look_del)
  show "snd (exec Mem t (DEL ks) r) = RInt (int (card (set ks \<inter> dom (mem_look r t))))"
    by (simp only: Mem_def client.simps mem_exec.simps snd_conv mem_del_count)
  show "\<not> is_str (mem_look r t k) \<Longrightarrow> counter_of (hash_field (mem_look r t k) f) = Some c \<Longrightarrow>
      in64 (c + n) \<Longrightarrow>
      mem_look (fst (exec Mem t (HINCRBY k f n) r)) t = (mem_look r t)(k \<mapsto>
        (RHash ((hash_of (mem_look r t k))(f \<mapsto> itoa (c + n))), deadline_of (mem_look r t k))) \<and>
      snd (exec Mem t (HINCRBY k f n) r) = RInt (c + n)"
    using mem_HINCRBY_ok by (simp add: Mem_def)
  show "is_str (mem_look r t k) \<or> counter_of (hash_field (mem_look r t k) f) = None \<or>
      counter_of (hash_field (mem_look r t k) f) = Some c \<and> \<not> in64 (c + n) \<Longrightarrow>
      mem_look (fst (exec Mem t (HINCRBY k f n) r)) t = mem_look r t \<and>
      (\<exists>m. snd (exec Mem t (HINCRBY k f n) r) = RErr m)"
    by (cases "mem_get r t k")
       (auto simp: mem_simps Let_def split: option.splits mem_val.splits prod.splits)
  show "mem_look (fst (exec Mem t (HGETALL k) r)) t = mem_look r t" by (simp add: Mem_def)
  show "\<not> is_str (mem_look r t k) \<Longrightarrow> \<exists>l. snd (exec Mem t (HGETALL k) r) = RPairs l \<and>
      distinct (map fst l) \<and> map_of l = hash_of (mem_look r t k)"
    by (auto simp: mem_simps distinct_clearjunk map_of_clearjunk split: option.splits mem_val.splits)
  show "\<not> is_hash (mem_look r t k) \<Longrightarrow> counter_of (str_of (mem_look r t k)) = Some c \<Longrightarrow>
      in64 (c + 1) \<Longrightarrow> mem_look (fst (exec Mem t (INCR k) r)) t =
        (mem_look r t)(k \<mapsto> (RStr (itoa (c + 1)), deadline_of (mem_look r t k))) \<and>
      snd (exec Mem t (INCR k) r) = RInt (c + 1)"
    using mem_INCR_ok by (simp add: Mem_def)
  show "is_hash (mem_look r t k) \<or> counter_of (str_of (mem_look r t k)) = None \<or>
      counter_of (str_of (mem_look r t k)) = Some c \<and> \<not> in64 (c + 1) \<Longrightarrow>
      mem_look (fst (exec Mem t (INCR k) r)) t = mem_look r t \<and>
      (\<exists>m. snd (exec Mem t (INCR k) r) = RErr m)"
    by (cases "mem_get r t k")
       (auto simp: mem_simps Let_def split: option.splits mem_val.splits prod.splits)
qed (auto simp: mem_simps mem_look_None mem_px_def Millisecond_def
       pos_imp_zdiv_pos_iff split: option.splits)

end
