(* ===== verification/Go_Float.thy ===== *)
theory Go_Float
  imports Prelude Complex_Main
begin

text \<open>
  The \<open>float64\<close> arithmetic that the source uses: a finite value is a rational, and an operation
  is the exact one followed by rounding to 53 significant bits, ties to even. The source's
  values stay far from overflow and from the subnormal range, which are left out.
\<close>

section \<open>Rounding to 53 bits\<close>

fun ilog2 :: "nat \<Rightarrow> nat" where
  "ilog2 n = (if n \<le> 1 then 0 else Suc (ilog2 (n div 2)))"

declare ilog2.simps [simp del]

lemma ilog2_bounds: "0 < n \<Longrightarrow> 2 ^ ilog2 n \<le> n \<and> n < 2 ^ Suc (ilog2 n)"
proof (induction n rule: ilog2.induct)
  case (1 n)
  show ?case
  proof (cases "n \<le> 1")
    case True
    with "1.prems" show ?thesis by (simp add: ilog2.simps)
  next
    case False
    with "1.IH" have "2 ^ ilog2 (n div 2) \<le> n div 2" and "n div 2 < 2 ^ Suc (ilog2 (n div 2))"
      by auto
    then have "2 * 2 ^ ilog2 (n div 2) \<le> n" and "n < 2 * 2 ^ Suc (ilog2 (n div 2))"
      by linarith+
    with False show ?thesis by (simp add: ilog2.simps [of n])
  qed
qed

text \<open>The exponent of a positive rational: the power of two at or below it.\<close>

definition exponent :: "rat \<Rightarrow> int" where
  "exponent x =
    (let (a, b) = quotient_of x; k = int (ilog2 (nat a)) - int (ilog2 (nat b))
     in if 2 powi k \<le> x then k else k - 1)"

definition round_half_even :: "rat \<Rightarrow> int" where
  "round_half_even y =
    (let f = \<lfloor>y\<rfloor>; r = y - of_int f in
     if r < 1 / 2 then f else if r > 1 / 2 then f + 1 else if even f then f else f + 1)"

definition ulp :: "rat \<Rightarrow> rat" where
  "ulp x = 2 powi (exponent x - 52)"

definition float_round :: "rat \<Rightarrow> rat" where
  "float_round x =
    (if x = 0 then 0
     else if x < 0 then - (of_int (round_half_even (- x / ulp (- x))) * ulp (- x))
     else of_int (round_half_even (x / ulp x)) * ulp x)"

lemma powi_add_rat: "(2 :: rat) powi (i + j) = 2 powi i * 2 powi j"
  by (simp add: power_int_add)

lemma exponent_bounds:
  assumes "0 < x"
  shows "2 powi exponent x \<le> x \<and> x < 2 powi (exponent x + 1)"
proof -
  obtain a b where q: "quotient_of x = (a, b)" by (cases "quotient_of x")
  have b: "0 < b" using quotient_of_denom_pos [OF q] .
  have x: "x = of_int a / of_int b" using quotient_of_div [OF q] .
  with assms b have a: "0 < a" by (simp add: zero_less_divide_iff)
  let ?la = "ilog2 (nat a)" and ?lb = "ilog2 (nat b)"
  let ?k = "int ?la - int ?lb"
  have "2 ^ ?la \<le> nat a" "nat a < 2 ^ Suc ?la" "2 ^ ?lb \<le> nat b" "nat b < 2 ^ Suc ?lb"
    using ilog2_bounds [of "nat a"] ilog2_bounds [of "nat b"] a b by auto
  then have "2 ^ ?la \<le> a" "a < 2 * 2 ^ ?la" "2 ^ ?lb \<le> b" "b < 2 * 2 ^ ?lb"
    using a b by (simp_all add: le_nat_iff nat_less_iff)
  then have r: "(2 :: rat) ^ ?la \<le> of_int a" "of_int a < (2 :: rat) * 2 ^ ?la"
      "(2 :: rat) ^ ?lb \<le> of_int b" "of_int b < (2 :: rat) * 2 ^ ?lb"
    by (metis of_int_le_iff of_int_numeral of_int_power,
        metis of_int_less_iff of_int_mult of_int_numeral of_int_power,
        metis of_int_le_iff of_int_numeral of_int_power,
        metis of_int_less_iff of_int_mult of_int_numeral of_int_power)
  have pk: "(2 :: rat) powi ?k = 2 ^ ?la / 2 ^ ?lb"
    by (simp add: power_int_diff)
  have bp: "(0 :: rat) < of_int b" using b by simp
  have up: "x < 2 powi ?k * 2"
  proof -
    have "of_int a * (2 :: rat) ^ ?lb < (2 * 2 ^ ?la) * of_int b"
      using r a b by (intro mult_less_le_imp_less) auto
    then show ?thesis unfolding x pk using bp by (simp add: field_simps)
  qed
  have lo: "2 powi ?k / 2 < x"
  proof -
    have "(2 :: rat) ^ ?la * of_int b < of_int a * (2 * 2 ^ ?lb)"
      using r a b by (intro mult_le_less_imp_less) auto
    then show ?thesis unfolding x pk using bp by (simp add: field_simps)
  qed
  have e: "exponent x = (if 2 powi ?k \<le> x then ?k else ?k - 1)"
    by (simp add: exponent_def q)
  have p1: "(2 :: rat) powi (?k + 1) = 2 powi ?k * 2" and m1: "(2 :: rat) powi (?k - 1) = 2 powi ?k / 2"
    by (simp_all add: power_int_add power_int_diff)
  show ?thesis
  proof (cases "2 powi ?k \<le> x")
    case True
    with e up p1 show ?thesis by simp
  next
    case False
    with e lo m1 show ?thesis by simp
  qed
qed

lemma ulp_pos: "0 < ulp x"
  by (simp add: ulp_def)

lemma round_half_even_error: "\<bar>of_int (round_half_even y) - y\<bar> \<le> 1 / 2"
proof -
  have "of_int \<lfloor>y\<rfloor> \<le> y" and "y < of_int \<lfloor>y\<rfloor> + 1"
    by linarith+
  then show ?thesis
    by (auto simp: round_half_even_def Let_def abs_le_iff)
qed

lemma float_round_error:
  assumes "0 < x"
  shows "\<bar>float_round x - x\<bar> \<le> ulp x / 2"
proof -
  let ?u = "ulp x"
  have u: "0 < ?u" by (rule ulp_pos)
  have "float_round x - x = (of_int (round_half_even (x / ?u)) - x / ?u) * ?u"
    using assms u by (simp add: float_round_def field_simps)
  then have "\<bar>float_round x - x\<bar> = \<bar>of_int (round_half_even (x / ?u)) - x / ?u\<bar> * ?u"
    using u by (simp add: abs_mult)
  also have "\<dots> \<le> 1 / 2 * ?u"
    using round_half_even_error u by (intro mult_right_mono) auto
  finally show ?thesis by simp
qed

lemma ulp_le:
  assumes "0 < x" and "x < 2 powi k"
  shows "ulp x \<le> 2 powi (k - 53)"
proof -
  have "(2 :: rat) powi exponent x < 2 powi k"
    using exponent_bounds [OF assms(1)] assms(2) by linarith
  then have "exponent x < k"
    using power_int_increasing [of k "exponent x" "2 :: rat"] by (cases "exponent x < k") auto
  then show ?thesis by (simp add: ulp_def power_int_increasing)
qed

section \<open>Durations in seconds\<close>

text \<open>\<open>Duration.Seconds()\<close>: \<open>float64(sec) + float64(nsec)/1e9\<close>. Both conversions are exact.\<close>

definition duration_seconds :: "duration \<Rightarrow> rat" where
  "duration_seconds d = float_round (of_int (d div 1000000000) + float_round (of_int (d mod 1000000000) / 1000000000))"

text \<open>\<open>int64(math.Ceil(d.Seconds()))\<close> for a positive duration.\<close>

definition ceil_seconds :: "duration \<Rightarrow> int" where
  "ceil_seconds d = \<lceil>duration_seconds d\<rceil>"

lemma float_round_0 [simp]: "float_round 0 = 0"
  by (simp add: float_round_def)

lemma fraction_round:
  assumes "1 \<le> n" and "n < (1000000000 :: int)"
  shows "1 / 2000000000 < float_round (of_int n / 1000000000)"
    and "float_round (of_int n / 1000000000) \<le> 2"
proof -
  let ?x = "of_int n / 1000000000 :: rat"
  have n: "(1 :: rat) \<le> of_int n" "(of_int n :: rat) < 1000000000"
    using assms by simp_all
  then have x: "0 < ?x" "?x < 2 powi 0" "1 / 1000000000 \<le> ?x" by simp_all
  have "ulp ?x \<le> 2 powi (0 - 53)" by (rule ulp_le) (use x in auto)
  then have "ulp ?x \<le> 1 / 9007199254740992" by (simp add: power_int_def power_divide)
  with float_round_error [OF x(1)] have "\<bar>float_round ?x - ?x\<bar> \<le> 1 / 9007199254740992"
    by linarith
  with x n show "1 / 2000000000 < float_round ?x" and "float_round ?x \<le> 2"
    by linarith+
qed

text \<open>Below \<open>2 ^ 22\<close> seconds (48 days) the rounded number of seconds is never below the duration
  by as much as its fraction of a second, so rounding up covers the whole duration.\<close>

lemma ceil_seconds_ge:
  assumes "0 < d" and "d < 2 ^ 22 * 1000000000"
  shows "d \<le> ceil_seconds d * 1000000000"
proof -
  let ?s = "d div 1000000000" and ?n = "d mod 1000000000"
  have d: "d = ?s * 1000000000 + ?n" by simp
  have s: "0 \<le> ?s" "?s < 2 ^ 22" and n: "0 \<le> ?n" "?n < 1000000000"
    using assms by auto
  have sr: "(0 :: rat) \<le> of_int ?s" "(of_int ?s :: rat) \<le> 4194303"
    using s by auto
  show ?thesis
  proof (cases "?n = 0")
    case True
    then have s0: "0 < ?s" using assms(1) d by linarith
    let ?x = "of_int ?s :: rat"
    have x: "0 < ?x" "?x < 2 powi 22" using s0 s by (auto simp: power_int_def)
    have "ulp ?x \<le> 2 powi (22 - 53)" by (rule ulp_le) (use x in auto)
    then have "ulp ?x \<le> 1 / 2147483648" by (simp add: power_int_def power_divide)
    with float_round_error [OF x(1)] have "?x - 1 < float_round ?x" by linarith
    then have "?s \<le> \<lceil>float_round ?x\<rceil>" by linarith
    with True d show ?thesis by (simp add: ceil_seconds_def duration_seconds_def)
  next
    case False
    with n have n1: "1 \<le> ?n" by linarith
    let ?q = "float_round (of_int ?n / 1000000000)"
    let ?x = "of_int ?s + ?q"
    have q: "1 / 2000000000 < ?q" "?q \<le> 2" using fraction_round [OF n1 n(2)] by auto
    have x: "0 < ?x" "?x < 2 powi 23" using q sr by (auto simp: power_int_def)
    have "ulp ?x \<le> 2 powi (23 - 53)" by (rule ulp_le) (use x in auto)
    then have "ulp ?x \<le> 1 / 1073741824" by (simp add: power_int_def power_divide)
    with float_round_error [OF x(1)] have "?x - 1 / 2147483648 \<le> float_round ?x"
      by linarith
    with q have "of_int ?s < float_round ?x" by simp
    then have "?s + 1 \<le> \<lceil>float_round ?x\<rceil>" by linarith
    with d n show ?thesis by (simp add: ceil_seconds_def duration_seconds_def)
  qed
qed

end
