(* ===== verification/Redis_Store.thy ===== *)
theory Redis_Store
  imports Redis_Server Go_Crypto Go_Float
begin

text \<open>
  The package internal/redisstore: the key layout, the bucket of a device, the TTL, the Lua
  scripts (vote.lua, the rate limiter and the unlock of votes.go) and the operations of \<open>Store\<close>.
  Every operation takes the delivery of its round trip: how often the server ran it before the
  reply that the client got, or did not get.
\<close>

record 'r store =
  client :: "'r client"
  buckets :: nat
  retention :: duration
  maxTTL :: duration

section \<open>Delivery of a round trip\<close>

text \<open>
  The client library sends a script or a pipeline again after a network error. Each attempt ran
  some prefix of the steps on the server; then the last attempt was answered, or none was.
\<close>

datatype delivery = Reply "nat list" | NoReply "nat list"

type_synonym 'r step = "'r \<Rightarrow> 'r \<times> reply"

fun run_steps :: "'r step list \<Rightarrow> 'r \<Rightarrow> 'r \<times> reply list" where
  "run_steps [] r = (r, [])"
| "run_steps (f # fs) r =
     (let (r1, x) = f r; (r2, xs) = run_steps fs r1 in (r2, x # xs))"

fun attempts :: "nat list \<Rightarrow> 'r step list \<Rightarrow> 'r \<Rightarrow> 'r" where
  "attempts [] fs r = r"
| "attempts (n # ns) fs r = attempts ns fs (fst (run_steps (take n fs) r))"

definition deliver :: "delivery \<Rightarrow> 'r step list \<Rightarrow> 'r \<Rightarrow> 'r \<times> (err + reply list)" where
  "deliver d fs r =
     (case d of
        Reply ns \<Rightarrow> (let (r', xs) = run_steps fs (attempts ns fs r) in (r', Inr xs))
      | NoReply ns \<Rightarrow> (attempts ns fs r, Inl (Other ''redis: connection failed'')))"

text \<open>The error of a pipeline: that of its first failed command.\<close>

fun first_error :: "reply list \<Rightarrow> err option" where
  "first_error [] = None"
| "first_error (RErr m # xs) = Some (Other m)"
| "first_error (x # xs) = first_error xs"

definition exec_err :: "err + reply list \<Rightarrow> err option" where
  "exec_err x = (case x of Inl e \<Rightarrow> Some e | Inr xs \<Rightarrow> first_error xs)"

text \<open>The reply of a round trip of one step.\<close>

definition one_reply :: "err + reply list \<Rightarrow> err + reply" where
  "one_reply x = (case x of Inl e \<Rightarrow> Inl e
     | Inr xs \<Rightarrow> (case xs of RErr m # _ \<Rightarrow> Inl (Other m) | y # _ \<Rightarrow> Inr y | [] \<Rightarrow> Inl (Other ''redis: nil'')))"

text \<open>\<open>Cmd.Int()\<close>.\<close>

definition int_reply :: "err + reply \<Rightarrow> err + int" where
  "int_reply x = (case x of Inl e \<Rightarrow> Inl e | Inr (RInt n) \<Rightarrow> Inr n | Inr _ \<Rightarrow> Inl (Other ''redis: not an integer''))"

section \<open>Keys and buckets\<close>

definition u64_be :: "byte list \<Rightarrow> nat" where
  "u64_be bs = foldl (\<lambda>a b. 256 * a + unat b) 0 bs"

definition Bucket :: "string \<Rightarrow> nat \<Rightarrow> nat" where
  "Bucket deviceHash n = u64_be (take 8 (sha256 (bytes_of deviceHash))) mod n"

definition keyTag :: "string \<Rightarrow> nat \<Rightarrow> string" where
  "keyTag pollID b = ''{'' @ pollID @ '':'' @ itoa (int b) @ ''}''"

definition GateKey :: "string \<Rightarrow> nat \<Rightarrow> string" where
  "GateKey pollID b = ''poll-gate:'' @ keyTag pollID b"
definition DedupKey :: "string \<Rightarrow> nat \<Rightarrow> string \<Rightarrow> string" where
  "DedupKey pollID b deviceHash = ''poll-dedup:'' @ keyTag pollID b @ '':'' @ deviceHash"
definition CountsKey :: "string \<Rightarrow> nat \<Rightarrow> string" where
  "CountsKey pollID b = ''poll-counts:'' @ keyTag pollID b"

definition TTL :: "'r store \<Rightarrow> time \<Rightarrow> time \<Rightarrow> duration" where
  "TTL s endsAt now =
    (let ttl = dur_add (time_sub endsAt now) (retention s);
         ttl1 = (if ttl < Second then Second else ttl)
     in if ttl1 > maxTTL s then maxTTL s else ttl1)"

section \<open>Scripts\<close>

text \<open>\<open>redis.call\<close> raises on an error reply, which ends the script with that error; what the
  script did before stays done.\<close>

definition lua_call :: "'r client \<Rightarrow> time \<Rightarrow> cmd \<Rightarrow> 'r \<Rightarrow> ('r \<Rightarrow> reply \<Rightarrow> 'r \<times> reply) \<Rightarrow> 'r \<times> reply" where
  "lua_call C t c r k =
     (let (r', x) = exec C t c r in case x of RErr m \<Rightarrow> (r', RErr m) | _ \<Rightarrow> k r' x)"

fun hincr_all :: "'r client \<Rightarrow> time \<Rightarrow> string \<Rightarrow> string list \<Rightarrow> 'r \<Rightarrow> ('r \<Rightarrow> 'r \<times> reply) \<Rightarrow> 'r \<times> reply" where
  "hincr_all C t key [] r k = k r"
| "hincr_all C t key (f # fs) r k = lua_call C t (HINCRBY key f 1) r (\<lambda>r' _. hincr_all C t key fs r' k)"

text \<open>vote.lua: \<open>KEYS\<close> are the gate, the dedup marker and the counters; \<open>ARGV\<close> is the TTL in seconds and
  the option IDs.\<close>

definition vote_lua :: "'r client \<Rightarrow> time \<Rightarrow> string \<Rightarrow> string \<Rightarrow> string \<Rightarrow> int \<Rightarrow> string list \<Rightarrow> 'r step" where
  "vote_lua C t gate dedup counts ttl ids r =
     lua_call C t (GET gate) r (\<lambda>r1 g.
       if g \<noteq> RBulk ''active'' then (r1, RInt (-1))
       else lua_call C t (SET_NX_EX dedup ''1'' ttl) r1 (\<lambda>r2 inserted.
         if inserted = RNil then (r2, RInt 0)
         else lua_call C t (HINCRBY counts ''__participants'' 1) r2 (\<lambda>r3 _.
           hincr_all C t counts ids r3 (\<lambda>r4.
             lua_call C t (EXPIRE counts ttl) r4 (\<lambda>r5 _. (r5, RInt 1))))))"

definition rate_lua :: "'r client \<Rightarrow> time \<Rightarrow> string \<Rightarrow> int \<Rightarrow> int \<Rightarrow> 'r step" where
  "rate_lua C t key limit secs r =
     lua_call C t (INCR key) r (\<lambda>r1 x.
       let n = (case x of RInt n \<Rightarrow> n | _ \<Rightarrow> 0);
           reply = RInt (if n > limit then 0 else 1)
       in if n = 1 then lua_call C t (EXPIRE key secs) r1 (\<lambda>r2 _. (r2, reply)) else (r1, reply))"

definition unlock_lua :: "'r client \<Rightarrow> time \<Rightarrow> string \<Rightarrow> string \<Rightarrow> 'r step" where
  "unlock_lua C t key token r =
     lua_call C t (GET key) r (\<lambda>r1 g.
       if g = RBulk token then lua_call C t (DEL [key]) r1 (\<lambda>r2 x. (r2, x)) else (r1, RInt 0))"

section \<open>Operations of the store\<close>

text \<open>\<open>now\<close> is the clock of the API process and \<open>t\<close> that of the server.\<close>

definition set_gate :: "'r store \<Rightarrow> time \<Rightarrow> string \<Rightarrow> string \<Rightarrow> duration \<Rightarrow> nat \<Rightarrow> 'r step" where
  "set_gate s t pollID v ttl b = exec (client s) t (SET_PX (GateKey pollID b) v (px (client s) ttl))"

definition SetupGates :: "'r store \<Rightarrow> delivery \<Rightarrow> time \<Rightarrow> time \<Rightarrow> string \<Rightarrow> time \<Rightarrow> 'r \<Rightarrow> 'r \<times> err option" where
  "SetupGates s d now t pollID endsAt r =
     (let ttl = TTL s endsAt now;
          (r', x) = deliver d (map (set_gate s t pollID ''active'' ttl) [0..<buckets s]) r
      in (r', exec_err x))"

definition CloseGates :: "'r store \<Rightarrow> delivery \<Rightarrow> time \<Rightarrow> time \<Rightarrow> string \<Rightarrow> time \<Rightarrow> 'r \<Rightarrow> 'r \<times> err option" where
  "CloseGates s d now t pollID endsAt r =
     (let ttl = TTL s endsAt now;
          (r', x) = deliver d (map (set_gate s t pollID ''closed'' ttl) [0..<buckets s]) r
      in (r', exec_err x))"

definition DeleteGates :: "'r store \<Rightarrow> delivery \<Rightarrow> time \<Rightarrow> string \<Rightarrow> 'r \<Rightarrow> 'r \<times> err option" where
  "DeleteGates s d t pollID r =
     (let (r', x) = deliver d [exec (client s) t (DEL (map (GateKey pollID) [0..<buckets s]))] r
      in (r', exec_err x))"

definition vote_step :: "'r store \<Rightarrow> time \<Rightarrow> time \<Rightarrow> vote_command \<Rightarrow> 'r step" where
  "vote_step s now t cmd =
     (let b = Bucket (vc_DeviceHash cmd) (buckets s);
          ttlSeconds = ceil_seconds (TTL s (vc_EndsAt cmd) now)
      in vote_lua (client s) t (GateKey (vc_PollID cmd) b)
           (DedupKey (vc_PollID cmd) b (vc_DeviceHash cmd)) (CountsKey (vc_PollID cmd) b)
           ttlSeconds (vc_OptionIDs cmd))"

definition Record :: "'r store \<Rightarrow> delivery \<Rightarrow> time \<Rightarrow> time \<Rightarrow> vote_command \<Rightarrow> 'r \<Rightarrow> 'r \<times> (err + vote_status)" where
  "Record s d now t cmd r =
     (let (r', x) = deliver d [vote_step s now t cmd] r
      in (r', case int_reply (one_reply x) of
                Inl e \<Rightarrow> Inl e
              | Inr n \<Rightarrow> if n = 1 then Inr VoteRecorded
                         else if n = 0 then Inr VoteAlreadyRecorded
                         else if n = -1 then Inl (Sentinel ErrNotActive)
                         else Inl (Other (''unexpected vote script result '' @ itoa n))))"

definition max_int64 :: int where "max_int64 = 2 ^ 63 - 1"

text \<open>The loop of \<open>addCounters\<close> over the fields of one bucket, in the order the map yields them.\<close>

fun addCounters :: "totals \<Rightarrow> string set \<Rightarrow> (string \<times> string) list \<Rightarrow> err + totals" where
  "addCounters t valid [] = Inr t"
| "addCounters t valid ((field, raw) # vs) =
     (case parse_int64 raw of
        None \<Rightarrow> Inl (Other (''invalid counter '' @ field))
      | Some n \<Rightarrow>
        if n < 0 then Inl (Other (''invalid counter '' @ field))
        else if field = ''__participants'' then
          (if max_int64 - tot_Participants t < n then Inl (Other ''participants counter overflow'')
           else addCounters (t\<lparr>tot_Participants := tot_Participants t + n\<rparr>) valid vs)
        else if field \<notin> valid then addCounters t valid vs
        else if max_int64 - map_get (tot_Options t) field < n then Inl (Other ''option counter overflow'')
        else addCounters (t\<lparr>tot_Options := (tot_Options t)(field \<mapsto> map_get (tot_Options t) field + n)\<rparr>)
               valid vs)"

text \<open>The loop of \<open>Totals\<close> over the buckets.\<close>

fun sum_buckets :: "totals \<Rightarrow> string set \<Rightarrow> reply list \<Rightarrow> err + totals" where
  "sum_buckets t valid [] = Inr t"
| "sum_buckets t valid (x # xs) =
     (case x of
        RPairs vs \<Rightarrow> (case addCounters t valid vs of Inl e \<Rightarrow> Inl e | Inr t' \<Rightarrow> sum_buckets t' valid xs)
      | RErr m \<Rightarrow> Inl (Other m)
      | _ \<Rightarrow> Inl (Other ''redis: unexpected reply''))"

definition zero_totals :: "string list \<Rightarrow> time \<Rightarrow> totals" where
  "zero_totals ids now =
     \<lparr>tot_Participants = 0, tot_Options = (\<lambda>k. if k \<in> set ids then Some 0 else None), tot_AsOf = now\<rparr>"

definition Totals :: "'r store \<Rightarrow> delivery \<Rightarrow> time \<Rightarrow> time \<Rightarrow> string \<Rightarrow> string list \<Rightarrow> 'r \<Rightarrow> 'r \<times> (err + totals)" where
  "Totals s d now t pollID ids r =
     (let (r', x) = deliver d (map (\<lambda>b. exec (client s) t (HGETALL (CountsKey pollID b))) [0..<buckets s]) r
      in (r', case exec_err x of Some e \<Rightarrow> Inl e
              | None \<Rightarrow> sum_buckets (zero_totals ids now) (set ids) (case x of Inr xs \<Rightarrow> xs | Inl _ \<Rightarrow> [])))"

definition rate_key :: "string \<Rightarrow> time \<Rightarrow> string" where
  "rate_key networkHash now = ''vote-rate:'' @ networkHash @ '':'' @ itoa (now div Second div 60)"

definition AllowRate :: "'r store \<Rightarrow> delivery \<Rightarrow> time \<Rightarrow> time \<Rightarrow> string \<Rightarrow> int \<Rightarrow> 'r \<Rightarrow> 'r \<times> (err + bool)" where
  "AllowRate s d now t networkHash limit r =
     (let (r', x) = deliver d [rate_lua (client s) t (rate_key networkHash now) limit 65] r
      in (r', case int_reply (one_reply x) of Inl e \<Rightarrow> Inl e | Inr n \<Rightarrow> Inr (n = 1)))"

definition lock_key :: "string \<Rightarrow> string" where
  "lock_key pollID = ''snapshot-lock:'' @ pollID"

definition AcquireSnapshotLock ::
  "'r store \<Rightarrow> delivery \<Rightarrow> time \<Rightarrow> string \<Rightarrow> string \<Rightarrow> duration \<Rightarrow> 'r \<Rightarrow> 'r \<times> (err + bool)" where
  "AcquireSnapshotLock s d t pollID token ttl r =
     (let (r', x) = deliver d [exec (client s) t (SET_NX_PX (lock_key pollID) token (px (client s) ttl))] r
      in (r', case one_reply x of Inl e \<Rightarrow> Inl e | Inr v \<Rightarrow> Inr (v = ROk)))"

definition ReleaseSnapshotLock ::
  "'r store \<Rightarrow> delivery \<Rightarrow> time \<Rightarrow> string \<Rightarrow> string \<Rightarrow> 'r \<Rightarrow> 'r \<times> err option" where
  "ReleaseSnapshotLock s d t pollID token r =
     (let (r', x) = deliver d [unlock_lua (client s) t (lock_key pollID) token] r
      in (r', case one_reply x of Inl e \<Rightarrow> Some e | Inr _ \<Rightarrow> None))"

section \<open>Keys do not collide\<close>

lemma Bucket_less: "0 < n \<Longrightarrow> Bucket h n < n"
  by (simp add: Bucket_def)

lemma keyTag_inject [key_simps]: "keyTag p b = keyTag p' b' \<longleftrightarrow> p = p' \<and> b = b'"
proof -
  have "CHR '':'' \<notin> set (itoa (int b) @ ''}'')" and "CHR '':'' \<notin> set (itoa (int b') @ ''}'')"
    by (auto dest: itoa_no_sep)
  from append_sep_inject [OF this, of p p'] show ?thesis
    by (simp add: keyTag_def)
qed

lemma GateKey_inject [key_simps]: "GateKey p b = GateKey p' b' \<longleftrightarrow> p = p' \<and> b = b'"
  by (simp add: GateKey_def keyTag_inject)

lemma CountsKey_inject [key_simps]: "CountsKey p b = CountsKey p' b' \<longleftrightarrow> p = p' \<and> b = b'"
  by (simp add: CountsKey_def keyTag_inject)

text \<open>A device hash holds no colon, as it is hexadecimal.\<close>

definition plain_hash :: "string \<Rightarrow> bool" where
  "plain_hash h \<longleftrightarrow> CHR '':'' \<notin> set h"

lemma DedupKey_inject [key_simps]:
  assumes "plain_hash h" and "plain_hash h'"
  shows "DedupKey p b h = DedupKey p' b' h' \<longleftrightarrow> p = p' \<and> b = b' \<and> h = h'"
  using append_sep_inject [of "CHR '':''" h h' "keyTag p b" "keyTag p' b'"] assms
  by (simp add: DedupKey_def plain_hash_def keyTag_inject)

lemma keys_disjoint [key_simps, simp]:
  "GateKey p b \<noteq> DedupKey p' b' h" "DedupKey p' b' h \<noteq> GateKey p b"
  "GateKey p b \<noteq> CountsKey p' b'" "CountsKey p' b' \<noteq> GateKey p b"
  "DedupKey p b h \<noteq> CountsKey p' b'" "CountsKey p' b' \<noteq> DedupKey p b h"
  "lock_key q \<noteq> GateKey p b" "GateKey p b \<noteq> lock_key q" "lock_key q \<noteq> DedupKey p b h"
  "DedupKey p b h \<noteq> lock_key q" "lock_key q \<noteq> CountsKey p b" "CountsKey p b \<noteq> lock_key q"
  "rate_key n w \<noteq> GateKey p b" "GateKey p b \<noteq> rate_key n w" "rate_key n w \<noteq> DedupKey p b h"
  "DedupKey p b h \<noteq> rate_key n w" "rate_key n w \<noteq> CountsKey p b" "CountsKey p b \<noteq> rate_key n w"
  "rate_key n w \<noteq> lock_key q" "lock_key q \<noteq> rate_key n w"
  by (simp_all add: GateKey_def DedupKey_def CountsKey_def lock_key_def rate_key_def)

end
