(* ===== verification/Redis_Totals.thy ===== *)
theory Redis_Totals
  imports Redis_Store "HOL-Library.Multiset"
begin

text \<open>
  The sums of internal/redisstore/votes.go: what \<open>addCounters\<close> adds, when it refuses, and that
  neither depends on the order in which Go iterates over the fields of a bucket; then the bounds
  of \<open>TTL\<close>.
\<close>

section \<open>The counters of one bucket\<close>

abbreviation parts :: string where "parts \<equiv> ''__participants''"

definition field_val :: "(string \<times> string) list \<Rightarrow> string \<Rightarrow> int" where
  "field_val vs f = (case map_of vs f of None \<Rightarrow> 0
     | Some raw \<Rightarrow> (case parse_int64 raw of None \<Rightarrow> 0 | Some n \<Rightarrow> n))"

text \<open>Whether a field can be added to running totals.\<close>

definition field_ok :: "totals \<Rightarrow> string set \<Rightarrow> string \<times> string \<Rightarrow> bool" where
  "field_ok t valid fr =
     (case parse_int64 (snd fr) of None \<Rightarrow> False
      | Some n \<Rightarrow> 0 \<le> n \<and>
          (if fst fr = parts then tot_Participants t + n \<le> max_int64
           else if fst fr \<in> valid then map_get (tot_Options t) (fst fr) + n \<le> max_int64
           else True))"

definition add_fields :: "totals \<Rightarrow> string set \<Rightarrow> (string \<times> string) list \<Rightarrow> totals" where
  "add_fields t valid vs =
     t\<lparr>tot_Participants := tot_Participants t + field_val vs parts,
       tot_Options := (\<lambda>f. if f \<in> valid \<and> f \<noteq> parts \<and> f \<in> fst ` set vs
                           then Some (map_get (tot_Options t) f + field_val vs f)
                           else tot_Options t f)\<rparr>"

lemma field_val_Cons:
  "field_val ((f, raw) # vs) g =
     (if g = f then (case parse_int64 raw of None \<Rightarrow> 0 | Some n \<Rightarrow> n) else field_val vs g)"
  by (simp add: field_val_def)

lemma field_val_notin: "f \<notin> fst ` set vs \<Longrightarrow> field_val vs f = 0"
  by (simp add: field_val_def map_of_eq_None_iff [symmetric])

lemma field_ok_other:
  "fst fr \<noteq> parts \<Longrightarrow> field_ok (t\<lparr>tot_Participants := n\<rparr>) valid fr = field_ok t valid fr"
  "fst fr \<noteq> f \<Longrightarrow> field_ok (t\<lparr>tot_Options := (tot_Options t)(f \<mapsto> n)\<rparr>) valid fr = field_ok t valid fr"
  by (auto simp: field_ok_def split: option.split)

lemma fields_ok_parts:
  assumes "parts \<notin> fst ` set vs"
  shows "list_all (field_ok (t\<lparr>tot_Participants := n\<rparr>) valid) vs = list_all (field_ok t valid) vs"
proof (rule list.pred_cong)
  fix z assume "z \<in> set vs"
  with assms have "fst z \<noteq> parts" by (metis image_eqI)
  then show "field_ok (t\<lparr>tot_Participants := n\<rparr>) valid z = field_ok t valid z"
    by (rule field_ok_other)
qed simp

lemma fields_ok_option:
  assumes "f \<notin> fst ` set vs"
  shows "list_all (field_ok (t\<lparr>tot_Options := (tot_Options t)(f \<mapsto> n)\<rparr>) valid) vs = list_all (field_ok t valid) vs"
proof (rule list.pred_cong)
  fix z assume "z \<in> set vs"
  with assms have "fst z \<noteq> f" by (metis image_eqI)
  then show "field_ok (t\<lparr>tot_Options := (tot_Options t)(f \<mapsto> n)\<rparr>) valid z = field_ok t valid z"
    by (rule field_ok_other)
qed simp

lemma field_ok_parsed:
  "parse_int64 raw = None \<Longrightarrow> \<not> field_ok t valid (f, raw)"
  "parse_int64 raw = Some n \<Longrightarrow> field_ok t valid (f, raw) \<longleftrightarrow> 0 \<le> n \<and>
     (if f = parts then tot_Participants t + n \<le> max_int64
      else if f \<in> valid then map_get (tot_Options t) f + n \<le> max_int64 else True)"
  by (simp_all add: field_ok_def)

lemma add_fields_Cons_parts:
  assumes "parts \<notin> fst ` set vs" and "parse_int64 raw = Some n"
  shows "add_fields (t\<lparr>tot_Participants := tot_Participants t + n\<rparr>) valid vs =
         add_fields t valid ((parts, raw) # vs)"
  using assms by (auto simp: add_fields_def field_val_Cons field_val_notin fun_eq_iff)

lemma add_fields_Cons_other:
  assumes "f \<notin> valid" and "f \<noteq> parts"
  shows "add_fields t valid vs = add_fields t valid ((f, raw) # vs)"
  using assms by (auto simp: add_fields_def field_val_Cons fun_eq_iff)

lemma add_fields_Cons_option:
  assumes "f \<notin> fst ` set vs" and "parse_int64 raw = Some n" and "f \<in> valid" and "f \<noteq> parts"
  shows "add_fields (t\<lparr>tot_Options := (tot_Options t)(f \<mapsto> map_get (tot_Options t) f + n)\<rparr>) valid vs =
         add_fields t valid ((f, raw) # vs)"
  using assms by (auto simp: add_fields_def field_val_Cons field_val_notin fun_eq_iff)

lemma addCounters_Inr_iff:
  "distinct (map fst vs) \<Longrightarrow>
   addCounters t valid vs = Inr t' \<longleftrightarrow> list_all (field_ok t valid) vs \<and> t' = add_fields t valid vs"
proof (induction vs arbitrary: t)
  case Nil
  then show ?case by (auto simp: add_fields_def field_val_def)
next
  case (Cons fr vs)
  obtain f raw where fr: "fr = (f, raw)" by (cases fr)
  from Cons.prems fr have f: "f \<notin> fst ` set vs" and d: "distinct (map fst vs)" by auto
  note IH = Cons.IH [OF d]
  show ?case
  proof (cases "parse_int64 raw")
    case None
    with fr show ?thesis by (simp add: field_ok_parsed)
  next
    case (Some n)
    consider "n < 0" | "0 \<le> n" "f = parts" | "0 \<le> n" "f \<noteq> parts" "f \<notin> valid"
      | "0 \<le> n" "f \<noteq> parts" "f \<in> valid" by linarith
    then show ?thesis
    proof cases
      case 1
      with fr Some show ?thesis by (simp add: field_ok_parsed)
    next
      case 2
      with fr Some f show ?thesis
        using IH [of "t\<lparr>tot_Participants := tot_Participants t + n\<rparr>"]
        by (auto simp: field_ok_parsed fields_ok_parts fields_ok_option add_fields_Cons_parts [of vs raw n t valid])
    next
      case 3
      with fr Some f show ?thesis
        using IH [of t] add_fields_Cons_other [of f valid t vs raw] by (auto simp: field_ok_parsed)
    next
      case 4
      with fr Some f show ?thesis
        using IH [of "t\<lparr>tot_Options := (tot_Options t)(f \<mapsto> map_get (tot_Options t) f + n)\<rparr>"]
          add_fields_Cons_option [of f vs raw n valid t]
        by (auto simp: field_ok_parsed fields_ok_parts fields_ok_option)
    qed
  qed
qed

lemma addCounters_ok:
  "distinct (map fst vs) \<Longrightarrow> list_all (field_ok t valid) vs \<Longrightarrow>
   addCounters t valid vs = Inr (add_fields t valid vs)"
  by (simp add: addCounters_Inr_iff)

lemma field_val_mset:
  assumes "distinct (map fst vs)" and "mset vs = mset vs'"
  shows "field_val vs = field_val vs'"
proof -
  have "distinct (map fst vs')"
    using assms by (metis mset_eq_imp_distinct_iff mset_map)
  with assms have "map_of vs = map_of vs'"
    by (metis map_of_inject_set set_mset_mset)
  then show ?thesis by (simp add: field_val_def fun_eq_iff)
qed

lemma add_fields_mset:
  "distinct (map fst vs) \<Longrightarrow> mset vs = mset vs' \<Longrightarrow> add_fields t valid vs = add_fields t valid vs'"
  using field_val_mset [of vs vs'] mset_eq_setD [of vs vs'] by (simp add: add_fields_def cong: if_cong)

section \<open>Bounds of the TTL\<close>

lemma TTL_bounds:
  assumes "0 < maxTTL s"
  shows "0 < TTL s endsAt now" and "TTL s endsAt now \<le> maxTTL s"
    and "Second \<le> maxTTL s \<Longrightarrow> Second \<le> TTL s endsAt now"
  using assms by (auto simp: TTL_def Let_def Second_def)

lemma TTL_exact:
  assumes "in64 (endsAt - now)" and "in64 (endsAt - now + retention s)"
  shows "TTL s endsAt now = min (max (endsAt - now + retention s) Second) (maxTTL s)"
  using assms by (auto simp: TTL_def Let_def time_sub_exact dur_add_exact)

lemma TTL_overflow:
  assumes "0 < retention s" "retention s < 2 ^ 63" and "Second \<le> maxTTL s"
    and "2 ^ 63 \<le> endsAt - now + retention s"
  shows "TTL s endsAt now = Second"
proof -
  let ?d = "time_sub endsAt now"
  have d: "2 ^ 63 \<le> ?d + retention s" "?d + retention s < 2 ^ 64"
    using assms by (auto simp: time_sub_def max_duration_def min_duration_def)
  then have "dur_add ?d (retention s) = ?d + retention s - 2 ^ 64"
    by (simp add: dur_add_def wrap64_high)
  with d have "dur_add ?d (retention s) < Second" by (simp add: Second_def)
  with assms(3) show ?thesis by (simp add: TTL_def)
qed

lemma totals_eq_iff:
  "(a :: totals) = b \<longleftrightarrow> tot_Participants a = tot_Participants b \<and> tot_AsOf a = tot_AsOf b \<and>
     tot_Options a = tot_Options b"
  by auto

section \<open>Properties\<close>

text \<open>C12. Totals do not depend on the order in which Go iterates over the fields of a bucket: two
  orders of the same fields succeed together and give the same totals.\<close>

theorem addCounters_order_independent:
  assumes "distinct (map fst vs)" and "mset vs = mset vs'"
  shows "addCounters t valid vs = Inr t' \<longleftrightarrow> addCounters t valid vs' = Inr t'"
proof -
  have d: "distinct (map fst vs')"
    using assms by (metis mset_eq_imp_distinct_iff mset_map)
  have "set vs = set vs'" using assms(2) by (rule mset_eq_setD)
  then have "list_all (field_ok t valid) vs = list_all (field_ok t valid) vs'"
    by (simp add: list_all_iff)
  then show ?thesis
    unfolding addCounters_Inr_iff [OF assms(1)] addCounters_Inr_iff [OF d] add_fields_mset [OF assms]
    by (rule arg_cong)
qed

theorem addCounters_order_independent_witness:
  "addCounters (zero_totals [''a''] 0) {''a''} [(parts, ''2''), (''a'', ''1'')] =
     Inr (add_fields (zero_totals [''a''] 0) {''a''} [(parts, ''2''), (''a'', ''1'')]) \<longleftrightarrow>
   addCounters (zero_totals [''a''] 0) {''a''} [(''a'', ''1''), (parts, ''2'')] =
     Inr (add_fields (zero_totals [''a''] 0) {''a''} [(parts, ''2''), (''a'', ''1'')])"
  by (rule addCounters_order_independent) (simp, simp add: add_mset_commute)

text \<open>The fields of a bucket are added exactly when every one is a decimal number that is not
  negative and no 64-bit sum overflows; then participants and each option of the poll grow by
  their field, and a field that is no option of the poll changes nothing.\<close>

theorem addCounters_adds_or_refuses:
  assumes "distinct (map fst vs)"
  shows "addCounters t valid vs = Inr t' \<longleftrightarrow>
     (list_all (\<lambda>(f, raw). pred_option (\<lambda>n. 0 \<le> n \<and>
          (if f = parts then tot_Participants t + n \<le> 2 ^ 63 - 1
           else if f \<in> valid then map_get (tot_Options t) f + n \<le> 2 ^ 63 - 1 else True))
        (parse_int64 raw) \<and> parse_int64 raw \<noteq> None) vs \<and>
      tot_Participants t' = tot_Participants t + field_val vs parts \<and>
      tot_AsOf t' = tot_AsOf t \<and>
      tot_Options t' = (\<lambda>f. if f \<in> valid \<and> f \<noteq> parts \<and> f \<in> fst ` set vs
                             then Some (map_get (tot_Options t) f + field_val vs f) else tot_Options t f))"
proof -
  have "field_ok t valid = (\<lambda>(f, raw). pred_option (\<lambda>n. 0 \<le> n \<and>
          (if f = parts then tot_Participants t + n \<le> 2 ^ 63 - 1
           else if f \<in> valid then map_get (tot_Options t) f + n \<le> 2 ^ 63 - 1 else True))
        (parse_int64 raw) \<and> parse_int64 raw \<noteq> None)" (is "_ = ?ok")
  proof
    fix z :: "string \<times> string"
    obtain f raw where "z = (f, raw)" by (cases z)
    then show "field_ok t valid z = ?ok z"
      by (cases "parse_int64 raw") (simp_all add: field_ok_parsed max_int64_def)
  qed
  then show ?thesis
    unfolding addCounters_Inr_iff [OF assms] totals_eq_iff
    by (simp add: add_fields_def)
qed

theorem addCounters_adds_or_refuses_witness:
  "\<exists>t'. addCounters (zero_totals [''a''] 0) {''a''} [(parts, ''2''), (''a'', ''1''), (''x'', ''7'')] = Inr t' \<and>
     tot_Participants t' = 2 \<and> tot_Options t' = [''a'' \<mapsto> 1]"
proof -
  let ?t = "\<lparr>tot_Participants = 2, tot_Options = [''a'' \<mapsto> 1], tot_AsOf = 0\<rparr>"
  let ?vs = "[(parts, ''2''), (''a'', ''1''), (''x'', ''7'')]"
  have p: "parse_int64 ''2'' = Some 2" "parse_int64 ''1'' = Some 1" "parse_int64 ''7'' = Some 7"
    by (simp_all add: parse_int64_def is_digit_def)
  have "distinct (map fst ?vs)" by simp
  then have "addCounters (zero_totals [''a''] 0) {''a''} ?vs = Inr ?t"
    unfolding addCounters_adds_or_refuses [OF \<open>distinct (map fst ?vs)\<close>]
    by (simp add: p zero_totals_def field_val_def map_get_def fun_eq_iff)
  then show ?thesis by auto
qed

text \<open>A TTL is between one second and the configured maximum, and it is the time to the end of
  the poll plus the retention whenever that lies between them and nothing leaves 64 bits.\<close>

theorem TTL_clamped:
  assumes "Second \<le> maxTTL s"
  shows "Second \<le> TTL s endsAt now \<and> TTL s endsAt now \<le> maxTTL s \<and>
    (in64 (endsAt - now) \<and> in64 (endsAt - now + retention s) \<longrightarrow>
       TTL s endsAt now = min (max (endsAt - now + retention s) Second) (maxTTL s))"
  using TTL_bounds [of s endsAt now] TTL_exact [of endsAt now s] assms by (auto simp: Second_def)

theorem TTL_clamped_witness:
  "TTL \<lparr>client = Mem, buckets = 64, retention = 24 * Hour, maxTTL = 720 * Hour\<rparr> Hour 0 = 25 * Hour"
  using TTL_clamped [of "\<lparr>client = Mem, buckets = 64, retention = 24 * Hour, maxTTL = 720 * Hour\<rparr>" Hour 0]
  by (simp add: in64_def duration_unit_defs)

text \<open>A poll that ends more than 2^63 nanoseconds (292 years) minus the retention from now gets a
  TTL of one second, not the maximum: the sum of the saturated difference and the retention
  wraps around to a negative duration.\<close>

theorem TTL_far_future_wraps:
  assumes "0 < retention s" and "retention s < 2 ^ 63" and "Second \<le> maxTTL s"
    and "2 ^ 63 \<le> endsAt - now + retention s"
  shows "TTL s endsAt now = Second"
  using assms by (rule TTL_overflow)

theorem TTL_far_future_wraps_witness:
  "TTL \<lparr>client = Mem, buckets = 64, retention = 24 * Hour, maxTTL = 720 * Hour\<rparr> (2 ^ 63) 0 = Second"
  by (rule TTL_far_future_wraps) (simp_all add: duration_unit_defs)

end
