(* ===== verification/Redis_Ballots.thy ===== *)
theory Redis_Ballots
  imports Redis_Totals
begin

text \<open>
  The specification that the Redis side of the program implements: a box of ballots with one
  gate per poll and bucket. Every command that any process of the program sends to Redis is an
  atomic event; any interleaving of such events on a server that behaves as documented is
  simulated by the box, so that a device is counted at most once per poll, only through an open
  gate, and the counters are exactly the tallies of the ballots.
\<close>

section \<open>Events: the commands that the program sends\<close>

datatype event =
    SetGate string nat string int
  | DropGates string
  | Cast string string "string list" int
  | Peek string nat
  | Lock string string int
  | Unlock string string
  | Hit string time int

fun ev_step :: "'r client \<Rightarrow> nat \<Rightarrow> time \<Rightarrow> event \<Rightarrow> 'r step" where
  "ev_step C n t (SetGate p b v ms) = exec C t (SET_PX (GateKey p b) v ms)"
| "ev_step C n t (DropGates p) = exec C t (DEL (map (GateKey p) [0..<n]))"
| "ev_step C n t (Cast p h ids ttl) =
     vote_lua C t (GateKey p (Bucket h n)) (DedupKey p (Bucket h n) h) (CountsKey p (Bucket h n)) ttl ids"
| "ev_step C n t (Peek p b) = exec C t (HGETALL (CountsKey p b))"
| "ev_step C n t (Lock p token ms) = exec C t (SET_NX_PX (lock_key p) token ms)"
| "ev_step C n t (Unlock p token) = unlock_lua C t (lock_key p) token"
| "ev_step C n t (Hit network now limit) = rate_lua C t (rate_key network now) limit 65"

fun ev_run :: "'r client \<Rightarrow> nat \<Rightarrow> (time \<times> event) list \<Rightarrow> 'r \<Rightarrow> 'r \<times> reply list" where
  "ev_run C n [] r = (r, [])"
| "ev_run C n ((t, e) # es) r =
     (let (r1, x) = ev_step C n t e r; (r2, xs) = ev_run C n es r1 in (r2, x # xs))"

section \<open>The specification: a box of ballots\<close>

type_synonym ballot = "string \<times> string \<times> string list"

record box =
  gate :: "string \<times> nat \<rightharpoonup> string \<times> time"
  ballots :: "ballot list"

definition empty_box :: box where
  "empty_box = \<lparr>gate = Map.empty, ballots = []\<rparr>"

definition gate_open :: "box \<Rightarrow> time \<Rightarrow> string \<Rightarrow> nat \<Rightarrow> bool" where
  "gate_open bx t p b = (case gate bx (p, b) of None \<Rightarrow> False | Some (v, d) \<Rightarrow> v = ''active'' \<and> t < d)"

definition voters :: "ballot list \<Rightarrow> (string \<times> string) list" where
  "voters bl = map (\<lambda>(p, h, ids). (p, h)) bl"

fun box_step :: "nat \<Rightarrow> time \<Rightarrow> event \<Rightarrow> box \<Rightarrow> box \<times> int" where
  "box_step n t (SetGate p b v ms) bx = (bx\<lparr>gate := (gate bx)((p, b) \<mapsto> (v, ms_after t ms))\<rparr>, 0)"
| "box_step n t (DropGates p) bx = (bx\<lparr>gate := (gate bx) |` (- (Pair p ` {0..<n}))\<rparr>, 0)"
| "box_step n t (Cast p h ids ttl) bx =
     (if \<not> gate_open bx t p (Bucket h n) then (bx, -1)
      else if (p, h) \<in> set (voters (ballots bx)) then (bx, 0)
      else (bx\<lparr>ballots := (p, h, ids) # ballots bx\<rparr>, 1))"
| "box_step n t e bx = (bx, 0)"

fun box_run :: "nat \<Rightarrow> (time \<times> event) list \<Rightarrow> box \<Rightarrow> box" where
  "box_run n [] bx = bx"
| "box_run n ((t, e) # es) bx = box_run n es (fst (box_step n t e bx))"

text \<open>What the ballots of a poll in one bucket add up to in one field.\<close>

definition counts_for :: "nat \<Rightarrow> string \<Rightarrow> nat \<Rightarrow> string \<Rightarrow> ballot \<Rightarrow> bool" where
  "counts_for n p b f bal = (case bal of (q, h, ids) \<Rightarrow>
     q = p \<and> Bucket h n = b \<and> (f = parts \<or> f \<in> set ids))"

definition tally :: "nat \<Rightarrow> ballot list \<Rightarrow> string \<Rightarrow> nat \<Rightarrow> string \<Rightarrow> nat" where
  "tally n bl p b f = length (filter (counts_for n p b f) bl)"

definition tally_hash :: "nat \<Rightarrow> ballot list \<Rightarrow> string \<Rightarrow> nat \<Rightarrow> (string \<rightharpoonup> string)" where
  "tally_hash n bl p b f =
     (if tally n bl p b f = 0 then None else Some (itoa (int (tally n bl p b f))))"

lemma tally_Nil [simp]: "tally n [] p b f = 0"
  by (simp add: tally_def)

lemma tally_Cons:
  "tally n ((q, h, ids) # bl) p b f =
     (if q = p \<and> Bucket h n = b \<and> (f = parts \<or> f \<in> set ids) then Suc (tally n bl p b f) else tally n bl p b f)"
  by (simp add: tally_def counts_for_def)

lemma tally_le_length: "tally n bl p b f \<le> length bl"
  by (simp add: tally_def)

lemma tally_parts_ge: "tally n bl p b f \<le> tally n bl p b parts"
  by (induction bl) (auto simp: tally_Cons)

section \<open>Well-formed events\<close>

text \<open>
  Events up to a horizon \<open>T\<close>: a vote's TTL reaches past it, so that no marker and no counter
  expires before. The option IDs of a vote are those that \<open>ValidateSelection\<close> passed: distinct,
  and no reserved field; the device hash is hexadecimal.
\<close>

fun event_ok :: "time \<Rightarrow> time \<times> event \<Rightarrow> bool" where
  "event_ok T (t, SetGate p b v ms) = (t \<le> T \<and> 0 < ms)"
| "event_ok T (t, Cast p h ids ttl) =
     (t \<le> T \<and> plain_hash h \<and> distinct ids \<and> parts \<notin> set ids \<and> 0 < ttl \<and> T < s_after t ttl)"
| "event_ok T (t, Lock p token ms) = (t \<le> T \<and> 0 < ms)"
| "event_ok T (t, e) = (t \<le> T)"

lemma event_ok_time: "event_ok T (t, e) \<Longrightarrow> t \<le> T"
  by (cases e) auto

section \<open>The simulation relation\<close>

definition gates_match :: "box \<Rightarrow> keyspace \<Rightarrow> time \<Rightarrow> bool" where
  "gates_match bx m t \<longleftrightarrow> (\<forall>p b. m (GateKey p b) =
     (case gate bx (p, b) of None \<Rightarrow> None | Some (v, d) \<Rightarrow> if t < d then Some (RStr v, Some d) else None))"

definition markers_match :: "nat \<Rightarrow> time \<Rightarrow> ballot list \<Rightarrow> keyspace \<Rightarrow> bool" where
  "markers_match n T bl m \<longleftrightarrow> (\<forall>p h. plain_hash h \<longrightarrow>
     (if (p, h) \<in> set (voters bl)
      then \<exists>d > T. m (DedupKey p (Bucket h n) h) = Some (RStr ''1'', Some d)
      else m (DedupKey p (Bucket h n) h) = None))"

definition counts_match :: "nat \<Rightarrow> time \<Rightarrow> ballot list \<Rightarrow> keyspace \<Rightarrow> bool" where
  "counts_match n T bl m \<longleftrightarrow> (\<forall>p b.
     (if tally n bl p b parts = 0 then m (CountsKey p b) = None
      else \<exists>d > T. m (CountsKey p b) = Some (RHash (tally_hash n bl p b), Some d)))"

definition sim :: "nat \<Rightarrow> time \<Rightarrow> box \<Rightarrow> keyspace \<Rightarrow> time \<Rightarrow> bool" where
  "sim n T bx m t \<longleftrightarrow>
     t \<le> T \<and> gates_match bx m t \<and> markers_match n T (ballots bx) m \<and> counts_match n T (ballots bx) m"

lemma gates_matchD:
  "gates_match bx m t \<Longrightarrow> m (GateKey p b) =
     (case gate bx (p, b) of None \<Rightarrow> None | Some (v, d) \<Rightarrow> if t < d then Some (RStr v, Some d) else None)"
  by (simp add: gates_match_def)

lemma markers_matchD:
  "markers_match n T bl m \<Longrightarrow> plain_hash h \<Longrightarrow> (p, h) \<in> set (voters bl) \<Longrightarrow>
     \<exists>d > T. m (DedupKey p (Bucket h n) h) = Some (RStr ''1'', Some d)"
  by (auto simp: markers_match_def split: if_splits)

lemma gate_open_iff:
  assumes "gates_match bx m t"
  shows "gate_open bx t p b \<longleftrightarrow> (\<exists>d. m (GateKey p b) = Some (RStr ''active'', Some d))"
  by (auto simp: gates_matchD [OF assms] gate_open_def split: option.splits if_splits)

lemma sim_frame:
  assumes "sim n T bx m t"
    and "\<And>p b. m' (GateKey p b) = m (GateKey p b)"
    and "\<And>p b h. m' (DedupKey p b h) = m (DedupKey p b h)"
    and "\<And>p b. m' (CountsKey p b) = m (CountsKey p b)"
  shows "sim n T bx m' t"
  using assms by (simp add: sim_def gates_match_def markers_match_def counts_match_def)

lemma unexpired_None: "m k = None \<Longrightarrow> unexpired t m k = None"
  by (simp add: unexpired_def)

lemma unexpired_alive: "m k = Some (v, Some d) \<Longrightarrow> t < d \<Longrightarrow> unexpired t m k = Some (v, Some d)"
  by (simp add: unexpired_def alive_def)

lemma sim_later:
  assumes "sim n T bx m t" and "t \<le> t'" and "t' \<le> T"
  shows "sim n T bx (unexpired t' m) t'"
proof -
  have "gates_match bx (unexpired t' m) t'"
    using assms by (auto simp: sim_def gates_match_def unexpired_def alive_def split: option.splits)
  moreover have "markers_match n T (ballots bx) (unexpired t' m)"
    unfolding markers_match_def
  proof (intro allI impI)
    fix p h assume "plain_hash h"
    with assms(1) have "if (p, h) \<in> set (voters (ballots bx))
      then \<exists>d > T. m (DedupKey p (Bucket h n) h) = Some (RStr ''1'', Some d)
      else m (DedupKey p (Bucket h n) h) = None" by (simp add: sim_def markers_match_def)
    with assms(3) show "if (p, h) \<in> set (voters (ballots bx))
      then \<exists>d > T. unexpired t' m (DedupKey p (Bucket h n) h) = Some (RStr ''1'', Some d)
      else unexpired t' m (DedupKey p (Bucket h n) h) = None"
      by (fastforce intro: unexpired_None unexpired_alive split: if_splits)
  qed
  moreover have "counts_match n T (ballots bx) (unexpired t' m)"
    unfolding counts_match_def
  proof (intro allI)
    fix p b
    from assms(1) have "if tally n (ballots bx) p b parts = 0 then m (CountsKey p b) = None
      else \<exists>d > T. m (CountsKey p b) = Some (RHash (tally_hash n (ballots bx) p b), Some d)"
      by (simp add: sim_def counts_match_def)
    with assms(3) show "if tally n (ballots bx) p b parts = 0 then unexpired t' m (CountsKey p b) = None
      else \<exists>d > T. unexpired t' m (CountsKey p b) = Some (RHash (tally_hash n (ballots bx) p b), Some d)"
      by (fastforce intro: unexpired_None unexpired_alive split: if_splits)
  qed
  ultimately show ?thesis using assms(3) by (simp add: sim_def)
qed

definition bump :: "string list \<Rightarrow> (string \<rightharpoonup> string) \<Rightarrow> (string \<rightharpoonup> string)" where
  "bump fs h = (\<lambda>f. if f \<in> set fs then map_option (\<lambda>c. itoa (c + 1)) (counter_of (h f)) else h f)"

lemma counter_of_tally:
  assumes "int (length bl) + 1 < 2 ^ 63"
  shows "counter_of (tally_hash n bl p b f) = Some (int (tally n bl p b f))"
    and "in64 (int (tally n bl p b f) + 1)"
proof -
  have t: "int (tally n bl p b f) + 1 < 2 ^ 63"
    using tally_le_length [of n bl p b f] assms by linarith
  then show "in64 (int (tally n bl p b f) + 1)" by (simp add: in64_def)
  from t have "in64 (int (tally n bl p b f))" by (simp add: in64_def)
  then show "counter_of (tally_hash n bl p b f) = Some (int (tally n bl p b f))"
    by (simp add: tally_hash_def counter_of_def parse_int64_itoa)
qed

lemma bump_tally:
  assumes "int (length bl) + 1 < 2 ^ 63"
  shows "bump (parts # ids) (tally_hash n bl p (Bucket h n)) = tally_hash n ((p, h, ids) # bl) p (Bucket h n)"
proof
  fix f
  let ?b = "Bucket h n"
  show "bump (parts # ids) (tally_hash n bl p ?b) f = tally_hash n ((p, h, ids) # bl) p ?b f"
  proof (cases "f \<in> set (parts # ids)")
    case True
    then have "bump (parts # ids) (tally_hash n bl p ?b) f = Some (itoa (int (tally n bl p ?b f) + 1))"
      unfolding bump_def counter_of_tally(1) [OF assms] by simp
    with True show ?thesis by (auto simp: tally_hash_def tally_Cons add.commute)
  next
    case False
    then show ?thesis by (simp add: bump_def tally_hash_def tally_Cons)
  qed
qed

lemma tally_hash_other:
  "q \<noteq> p \<or> Bucket h n \<noteq> b \<Longrightarrow> tally_hash n ((q, h, ids) # bl) p b = tally_hash n bl p b"
  by (rule ext) (auto simp: tally_hash_def tally_Cons)

section \<open>The scripts and commands on a documented server\<close>

text \<open>What is left of vote.lua after the gate is read, after the marker is set, and after the
  participants are counted.\<close>

abbreviation after_count where
  "after_count C t ck ttl ids \<equiv> \<lambda>r3 (_ :: reply). hincr_all C t ck ids r3
     (\<lambda>r4. lua_call C t (EXPIRE ck ttl) r4 (\<lambda>r5 _. (r5, RInt 1)))"

abbreviation after_marker where
  "after_marker C t ck ttl ids \<equiv> \<lambda>r2 inserted. if inserted = RNil then (r2, RInt 0)
     else lua_call C t (HINCRBY ck ''__participants'' 1) r2 (after_count C t ck ttl ids)"

abbreviation after_gate where
  "after_gate C t dk ck ttl ids \<equiv> \<lambda>r1 g. if g \<noteq> RBulk ''active'' then (r1, RInt (-1))
     else lua_call C t (SET_NX_EX dk ''1'' ttl) r1 (after_marker C t ck ttl ids)"

lemma vote_lua_eq:
  "vote_lua C t gk dk ck ttl ids r = lua_call C t (GET gk) r (after_gate C t dk ck ttl ids)"
  by (simp add: vote_lua_def)

context redis_server
begin

lemma lua_GET:
  "look r t k = None \<Longrightarrow> \<exists>r'. lua_call C t (GET k) r K = K r' RNil \<and> look r' t = look r t"
  "look r t k = Some (RStr s, d) \<Longrightarrow> \<exists>r'. lua_call C t (GET k) r K = K r' (RBulk s) \<and> look r' t = look r t"
  using GET_state [of t k r] GET_reply [of t k r]
  by (auto simp: lua_call_def split_beta)

lemma lua_SET_NX_EX:
  "0 < s \<Longrightarrow> look r t k = None \<Longrightarrow> \<exists>r'. lua_call C t (SET_NX_EX k v s) r K = K r' ROk \<and>
     look r' t = (look r t)(k \<mapsto> (RStr v, Some (s_after t s)))"
  "0 < s \<Longrightarrow> look r t k \<noteq> None \<Longrightarrow> \<exists>r'. lua_call C t (SET_NX_EX k v s) r K = K r' RNil \<and>
     look r' t = look r t"
  using SET_NX_EX_state [of s t k v r] SET_NX_EX_reply [of s t k v r]
  by (auto simp: lua_call_def split_beta)

lemma lua_HINCRBY:
  assumes "\<not> is_str (look r t k)" and "counter_of (hash_field (look r t k) f) = Some c"
    and "in64 (c + 1)"
  shows "\<exists>r'. lua_call C t (HINCRBY k f 1) r K = K r' (RInt (c + 1)) \<and>
     look r' t = (look r t)(k \<mapsto> (RHash ((hash_of (look r t k))(f \<mapsto> itoa (c + 1))), deadline_of (look r t k)))"
  using HINCRBY_ok [OF assms] by (auto simp: lua_call_def split_beta)

lemma lua_EXPIRE:
  assumes "0 < s" and "look r t k = Some (v, d)"
  shows "\<exists>r'. lua_call C t (EXPIRE k s) r K = K r' (RInt 1) \<and>
     look r' t = (look r t)(k \<mapsto> (v, Some (s_after t s)))"
  using EXPIRE_state [of s t k r] EXPIRE_reply [of s t k r] assms
  by (auto simp: lua_call_def split_beta)

lemma hincr_all_hash:
  assumes "look r t k = Some (RHash h, d)" and "distinct fs"
    and "\<forall>f \<in> set fs. \<exists>c. counter_of (h f) = Some c \<and> in64 (c + 1)"
  shows "\<exists>r'. hincr_all C t k fs r K = K r' \<and> look r' t = (look r t)(k \<mapsto> (RHash (bump fs h), d))"
  using assms
proof (induction fs arbitrary: r h)
  case Nil
  have "look r t = (look r t)(k \<mapsto> (RHash (bump [] h), d))"
    using Nil.prems(1) by (auto simp: bump_def fun_eq_iff)
  then show ?case by auto
next
  case (Cons f fs)
  then obtain c where c: "counter_of (h f) = Some c" "in64 (c + 1)" by auto
  let ?h = "h(f \<mapsto> itoa (c + 1))"
  obtain r1 where r1: "lua_call C t (HINCRBY k f 1) r (\<lambda>r' _. hincr_all C t k fs r' K) = hincr_all C t k fs r1 K"
    and l1: "look r1 t = (look r t)(k \<mapsto> (RHash ?h, d))"
    using lua_HINCRBY [of r t k f c] Cons.prems(1) c
    by (auto simp: is_str_def hash_field_def hash_of_def deadline_of_def)
  have "look r1 t k = Some (RHash ?h, d)" using l1 by simp
  moreover have "\<forall>g \<in> set fs. \<exists>c. counter_of (?h g) = Some c \<and> in64 (c + 1)"
    using Cons.prems by auto
  moreover have "distinct fs" using Cons.prems(2) by simp
  ultimately obtain r2 where r2: "hincr_all C t k fs r1 K = K r2"
    and l2: "look r2 t = (look r1 t)(k \<mapsto> (RHash (bump fs ?h), d))"
    using Cons.IH [of r1 ?h] by blast
  have b: "bump fs ?h = bump (f # fs) h"
    using Cons.prems(2) c by (auto simp: bump_def)
  have "look r2 t = (look r t)(k \<mapsto> (RHash (bump (f # fs) h), d))"
    unfolding l2 l1 b by simp
  moreover have "hincr_all C t k (f # fs) r K = K r2" using r1 r2 by simp
  ultimately show ?case by blast
qed

lemma vote_closed:
  assumes "\<forall>d. look r t gk \<noteq> Some (RStr ''active'', d)" and "\<not> is_hash (look r t gk)"
  shows "\<exists>r'. vote_lua C t gk dk ck ttl ids r = (r', RInt (-1)) \<and> look r' t = look r t"
proof (cases "look r t gk")
  case None
  from lua_GET(1) [OF None, of "after_gate C t dk ck ttl ids"] show ?thesis
    unfolding vote_lua_eq by auto
next
  case (Some e)
  with assms obtain s d where s: "look r t gk = Some (RStr s, d)" "s \<noteq> ''active''"
    by (cases e; cases "fst e") (auto simp: is_hash_def)
  from lua_GET(2) [OF s(1), of "after_gate C t dk ck ttl ids"] s(2) show ?thesis
    unfolding vote_lua_eq by auto
qed

lemma vote_again:
  assumes "look r t gk = Some (RStr ''active'', d)" and "look r t dk \<noteq> None" and "0 < ttl"
  shows "\<exists>r'. vote_lua C t gk dk ck ttl ids r = (r', RInt 0) \<and> look r' t = look r t"
proof -
  obtain r1 where r1: "vote_lua C t gk dk ck ttl ids r = after_gate C t dk ck ttl ids r1 (RBulk ''active'')"
    and l1: "look r1 t = look r t"
    using lua_GET(2) [OF assms(1), of "after_gate C t dk ck ttl ids"] by (auto simp: vote_lua_eq)
  from l1 assms(2) have "look r1 t dk \<noteq> None" by simp
  from lua_SET_NX_EX(2) [OF assms(3) this, of "''1''" "after_marker C t ck ttl ids"] l1 show ?thesis
    unfolding r1 by auto
qed

lemma vote_accepted:
  assumes g: "look r t gk = Some (RStr ''active'', d)" and n: "look r t dk = None" and ttl: "0 < ttl"
    and k: "dk \<noteq> ck" and s: "\<not> is_str (look r t ck)" and h: "h = hash_of (look r t ck)"
    and ids: "distinct (parts # ids)"
    and c: "\<forall>f \<in> set (parts # ids). \<exists>c. counter_of (h f) = Some c \<and> in64 (c + 1)"
  shows "\<exists>r'. vote_lua C t gk dk ck ttl ids r = (r', RInt 1) \<and>
     look r' t = (look r t)(dk \<mapsto> (RStr ''1'', Some (s_after t ttl)),
                            ck \<mapsto> (RHash (bump (parts # ids) h), Some (s_after t ttl)))"
proof -
  let ?K4 = "\<lambda>r4. lua_call C t (EXPIRE ck ttl) r4 (\<lambda>r5 _. (r5, RInt 1))"
  let ?K3 = "after_count C t ck ttl ids"
  let ?K2 = "after_marker C t ck ttl ids"
  let ?K1 = "after_gate C t dk ck ttl ids"
  let ?v = "vote_lua C t gk dk ck ttl ids r"
  obtain r1 where v1: "?v = ?K1 r1 (RBulk ''active'')" and l1: "look r1 t = look r t"
    using lua_GET(2) [OF g, of ?K1] by (auto simp: vote_lua_eq)
  obtain r2 where v2: "?v = ?K2 r2 ROk"
    and l2: "look r2 t = (look r t)(dk \<mapsto> (RStr ''1'', Some (s_after t ttl)))"
    using lua_SET_NX_EX(1) [OF ttl, of r1 t dk "''1''" ?K2] n l1 v1 by auto
  obtain c0 where c0: "counter_of (h parts) = Some c0" "in64 (c0 + 1)" using c by auto
  have h2: "hash_of (look r2 t ck) = h" "\<not> is_str (look r2 t ck)"
      "hash_field (look r2 t ck) parts = h parts"
    using l2 k s h by (auto simp: hash_of_def hash_field_def split: option.splits redis_val.splits)
  obtain r3 where v3: "?v = hincr_all C t ck ids r3 ?K4"
    and l3: "look r3 t = (look r2 t)(ck \<mapsto> (RHash (h(parts \<mapsto> itoa (c0 + 1))), deadline_of (look r2 t ck)))"
    using lua_HINCRBY [of r2 t ck parts c0 ?K3] c0 h2 v2 by auto
  let ?h = "h(parts \<mapsto> itoa (c0 + 1))"
  have "look r3 t ck = Some (RHash ?h, deadline_of (look r2 t ck))" using l3 by simp
  moreover have "\<forall>f \<in> set ids. \<exists>c. counter_of (?h f) = Some c \<and> in64 (c + 1)"
    using c ids by auto
  ultimately obtain r4 where v4: "?v = ?K4 r4"
    and l4: "look r4 t = (look r3 t)(ck \<mapsto> (RHash (bump ids ?h), deadline_of (look r2 t ck)))"
    using hincr_all_hash [of r3 t ck ?h _ ids ?K4] ids v3 by auto
  have b: "bump ids ?h = bump (parts # ids) h" using ids c0 by (auto simp: bump_def)
  have "look r4 t ck = Some (RHash (bump (parts # ids) h), deadline_of (look r2 t ck))"
    using l4 b by simp
  then obtain r5 where "?v = (r5, RInt 1)"
    and "look r5 t = (look r4 t)(ck \<mapsto> (RHash (bump (parts # ids) h), Some (s_after t ttl)))"
    using lua_EXPIRE [OF ttl, of r4 t ck _ _ "\<lambda>r5 _. (r5, RInt 1)"] v4 by auto
  with l2 l3 l4 show ?thesis by auto
qed

lemma INCR_frame: "k' \<noteq> k \<Longrightarrow> look (fst (exec C t (INCR k) r)) t k' = look r t k'"
proof -
  assume k: "k' \<noteq> k"
  show ?thesis
  proof (cases "is_hash (look r t k) \<or> counter_of (str_of (look r t k)) = None")
    case True
    then show ?thesis using INCR_fails [of r t k undefined] by auto
  next
    case False
    then obtain c where c: "counter_of (str_of (look r t k)) = Some c" "\<not> is_hash (look r t k)" by auto
    show ?thesis
    proof (cases "in64 (c + 1)")
      case True
      then show ?thesis using INCR_ok [OF c(2,1)] k by simp
    next
      case False
      then show ?thesis using INCR_fails [of r t k c] c by auto
    qed
  qed
qed

lemma EXPIRE_frame: "0 < s \<Longrightarrow> k' \<noteq> k \<Longrightarrow> look (fst (exec C t (EXPIRE k s) r)) t k' = look r t k'"
  using EXPIRE_state [of s t k r] by (auto split: option.splits)

lemma lua_call_frame:
  assumes "look (fst (exec C t c r)) t k = look r t k"
    and "\<And>r' x. look r' t k = look r t k \<Longrightarrow> look (fst (K r' x)) t k = look r t k"
  shows "look (fst (lua_call C t c r K)) t k = look r t k"
  using assms by (auto simp: lua_call_def split: prod.split reply.split)

lemma rate_frame:
  assumes "k \<noteq> key"
  shows "look (fst (rate_lua C t key limit 65 r)) t k = look r t k"
  unfolding rate_lua_def
proof (rule lua_call_frame)
  show "look (fst (exec C t (INCR key) r)) t k = look r t k"
    using assms by (rule INCR_frame)
next
  fix r1 x assume l: "look r1 t k = look r t k"
  have "look (fst (lua_call C t (EXPIRE key 65) r1 (\<lambda>r2 _. (r2, z)))) t k = look r1 t k" for z
    by (rule lua_call_frame) (simp_all add: EXPIRE_frame assms)
  with l show "look (fst (let n = case x of RInt n \<Rightarrow> n | _ \<Rightarrow> 0; reply = RInt (if limit < n then 0 else 1)
      in if n = 1 then lua_call C t (EXPIRE key 65) r1 (\<lambda>r2 _. (r2, reply)) else (r1, reply))) t k = look r t k"
    by (simp add: Let_def)
qed

lemma unlock_frame:
  assumes "k \<noteq> key"
  shows "look (fst (unlock_lua C t key token r)) t k = look r t k"
  unfolding unlock_lua_def
proof (rule lua_call_frame)
  show "look (fst (exec C t (GET key) r)) t k = look r t k" by (simp add: GET_state)
next
  fix r1 g assume l: "look r1 t k = look r t k"
  have "look (fst (lua_call C t (DEL [key]) r1 Pair)) t k = look r1 t k"
    by (rule lua_call_frame) (simp_all add: DEL_state assms)
  with l show "look (fst (if g = RBulk token then lua_call C t (DEL [key]) r1 Pair else (r1, RInt 0))) t k
      = look r t k" by simp
qed

lemma lock_frame:
  "0 < ms \<Longrightarrow> k \<noteq> key \<Longrightarrow> look (fst (exec C t (SET_NX_PX key v ms) r)) t k = look r t k"
  by (simp add: SET_NX_PX_state)

section \<open>Every event is simulated by the box\<close>

lemma sim_set_gate:
  assumes "sim n T bx (look r t) t" and "0 < ms"
  shows "sim n T (bx\<lparr>gate := (gate bx)((p, b) \<mapsto> (v, ms_after t ms))\<rparr>)
     (look (fst (exec C t (SET_PX (GateKey p b) v ms) r)) t) t"
proof -
  have "t < ms_after t ms" using assms(2) by (simp add: ms_after_def Millisecond_def)
  with assms show ?thesis
    by (simp add: SET_PX_state sim_def gates_match_def markers_match_def counts_match_def key_simps)
qed

lemma GateKey_range: "GateKey q b \<in> GateKey p ` {0..<n} \<longleftrightarrow> (q, b) \<in> Pair p ` {0..<n}"
  by (auto simp: key_simps)

lemma sim_drop_gates:
  assumes "sim n T bx (look r t) t"
  shows "sim n T (bx\<lparr>gate := (gate bx) |` (- (Pair p ` {0..<n}))\<rparr>)
     (look (fst (exec C t (DEL (map (GateKey p) [0..<n])) r)) t) t"
proof -
  have "GateKey q b \<in> set (map (GateKey p) [0..<n]) \<longleftrightarrow> (q, b) \<in> Pair p ` {0..<n}" for q b
    using GateKey_range by simp
  moreover have "DedupKey q b h \<notin> set (map (GateKey p) [0..<n])"
    and "CountsKey q b \<notin> set (map (GateKey p) [0..<n])" for q b h by auto
  ultimately show ?thesis
    using assms unfolding DEL_state sim_def gates_match_def markers_match_def counts_match_def
    by (simp add: restrict_map_def)
qed

lemma is_hash_gate:
  "gates_match bx m t \<Longrightarrow> \<not> is_hash (m (GateKey p b))"
  by (auto simp: gates_matchD is_hash_def split: option.split)

lemma sim_cast_new:
  assumes s: "sim n T bx (look r t) t"
    and ok: "event_ok T (t, Cast p h ids ttl)"
    and len: "int (length (ballots bx)) + 1 < 2 ^ 63"
    and g: "gate_open bx t p (Bucket h n)" and new: "(p, h) \<notin> set (voters (ballots bx))"
  shows "\<exists>r'. ev_step C n t (Cast p h ids ttl) r = (r', RInt 1) \<and>
     sim n T (bx\<lparr>ballots := (p, h, ids) # ballots bx\<rparr>) (look r' t) t"
proof -
  let ?b = "Bucket h n" and ?bl = "ballots bx" and ?m = "look r t" and ?D = "s_after t ttl"
  let ?dk = "DedupKey p ?b h" and ?ck = "CountsKey p ?b" and ?bl' = "(p, h, ids) # ballots bx"
  from s have gm: "gates_match bx ?m t" and mm: "markers_match n T ?bl ?m"
    and cm: "counts_match n T ?bl ?m" and tT: "t \<le> T" by (simp_all add: sim_def)
  from ok have h: "plain_hash h" and ids: "distinct (parts # ids)" and ttl: "0 < ttl" and D: "T < ?D"
    by simp_all
  from gm g obtain d where d: "?m (GateKey p ?b) = Some (RStr ''active'', Some d)"
    by (auto simp: gate_open_iff)
  have dk: "?m ?dk = None" using mm h new by (simp add: markers_match_def)
  have ck: "\<not> is_str (?m ?ck)" "hash_of (?m ?ck) = tally_hash n ?bl p ?b"
  proof -
    have z: "tally_hash n ?bl p ?b = Map.empty" if "tally n ?bl p ?b parts = 0"
      using that tally_parts_ge [of n ?bl p ?b] by (auto simp: tally_hash_def fun_eq_iff)
    have "if tally n ?bl p ?b parts = 0 then ?m ?ck = None
      else \<exists>d > T. ?m ?ck = Some (RHash (tally_hash n ?bl p ?b), Some d)"
      using cm by (simp add: counts_match_def)
    then show "\<not> is_str (?m ?ck)" and "hash_of (?m ?ck) = tally_hash n ?bl p ?b"
      using z by (auto simp: is_str_def hash_of_def split: if_splits)
  qed
  have c: "\<forall>f \<in> set (parts # ids). \<exists>c. counter_of (tally_hash n ?bl p ?b f) = Some c \<and> in64 (c + 1)"
    using counter_of_tally [OF len] by blast
  obtain r' where r': "ev_step C n t (Cast p h ids ttl) r = (r', RInt 1)"
    and l: "look r' t = ?m(?dk \<mapsto> (RStr ''1'', Some ?D),
        ?ck \<mapsto> (RHash (bump (parts # ids) (tally_hash n ?bl p ?b)), Some ?D))"
    using vote_accepted [OF d dk ttl _ ck(1) ck(2) [symmetric] ids c] by auto
  have "gates_match (bx\<lparr>ballots := ?bl'\<rparr>) (look r' t) t"
    using gm by (simp add: gates_match_def l)
  moreover have "markers_match n T ?bl' (look r' t)"
    using mm h D by (auto simp: markers_match_def l voters_def key_simps)
  moreover have "counts_match n T ?bl' (look r' t)"
    unfolding counts_match_def
  proof (intro allI)
    fix q b
    show "if tally n ?bl' q b parts = 0 then look r' t (CountsKey q b) = None
      else \<exists>d > T. look r' t (CountsKey q b) = Some (RHash (tally_hash n ?bl' q b), Some d)"
    proof (cases "q = p \<and> b = ?b")
      case True
      then show ?thesis using D by (simp add: l tally_Cons bump_tally [OF len])
    next
      case False
      then have "tally_hash n ?bl' q b = tally_hash n ?bl q b" and "tally n ?bl' q b parts = tally n ?bl q b parts"
        by (auto intro!: tally_hash_other simp: tally_Cons)
      with False cm show ?thesis by (auto simp: l counts_match_def key_simps)
    qed
  qed
  ultimately show ?thesis using r' tT by (auto simp: sim_def)
qed

lemma sim_cast:
  assumes s: "sim n T bx (look r t) t"
    and ok: "event_ok T (t, Cast p h ids ttl)"
    and len: "int (length (ballots bx)) + 1 < 2 ^ 63"
  shows "\<exists>r' bx' x. ev_step C n t (Cast p h ids ttl) r = (r', RInt x) \<and>
     box_step n t (Cast p h ids ttl) bx = (bx', x) \<and> sim n T bx' (look r' t) t"
proof -
  let ?b = "Bucket h n"
  from s have gm: "gates_match bx (look r t) t" and mm: "markers_match n T (ballots bx) (look r t)"
    by (simp_all add: sim_def)
  from ok have h: "plain_hash h" and ttl: "0 < ttl" by simp_all
  consider "\<not> gate_open bx t p ?b" | "gate_open bx t p ?b" "(p, h) \<in> set (voters (ballots bx))"
    | "gate_open bx t p ?b" "(p, h) \<notin> set (voters (ballots bx))" by blast
  then show ?thesis
  proof cases
    case 1
    with gm have "\<forall>d. look r t (GateKey p ?b) \<noteq> Some (RStr ''active'', d)"
      by (auto simp: gate_open_def gates_matchD split: option.splits if_splits)
    from vote_closed [OF this is_hash_gate [OF gm]] 1 s show ?thesis by fastforce
  next
    case 2
    with gm obtain d where "look r t (GateKey p ?b) = Some (RStr ''active'', Some d)"
      by (auto simp: gate_open_iff)
    moreover have "look r t (DedupKey p ?b h) \<noteq> None"
      using markers_matchD [OF mm h 2(2)] by auto
    ultimately show ?thesis using vote_again [OF _ _ ttl] 2 s by fastforce
  next
    case 3
    with sim_cast_new [OF s ok len] show ?thesis by fastforce
  qed
qed

lemma sim_step:
  assumes s: "sim n T bx (look r t) t" and ok: "event_ok T (t, e)"
    and len: "int (length (ballots bx)) + 1 < 2 ^ 63"
  shows "sim n T (fst (box_step n t e bx)) (look (fst (ev_step C n t e r)) t) t"
proof (cases e)
  case (SetGate p b v ms)
  with s ok show ?thesis by (simp add: sim_set_gate)
next
  case (DropGates p)
  with s show ?thesis using sim_drop_gates [of n T bx r t p] by simp
next
  case (Cast p h ids ttl)
  with sim_cast [OF s _ len, of p h ids ttl] ok show ?thesis by fastforce
next
  case (Peek p b)
  with s show ?thesis by (simp add: HGETALL_state)
next
  case (Lock p token ms)
  with s ok show ?thesis by (auto intro!: sim_frame [OF s] lock_frame)
next
  case (Unlock p token)
  with s show ?thesis by (auto intro!: sim_frame [OF s] unlock_frame)
next
  case (Hit network now limit)
  with s show ?thesis by (auto intro!: sim_frame [OF s] rate_frame)
qed

end

section \<open>Runs\<close>

text \<open>The server time does not go back.\<close>

fun in_order :: "time \<Rightarrow> (time \<times> event) list \<Rightarrow> bool" where
  "in_order t [] = True"
| "in_order t ((t', e) # es) = (t \<le> t' \<and> in_order t' es)"

fun last_time :: "time \<Rightarrow> (time \<times> event) list \<Rightarrow> time" where
  "last_time t [] = t"
| "last_time t ((t', e) # es) = last_time t' es"

lemma length_box_step: "length (ballots (fst (box_step n t e bx))) \<le> Suc (length (ballots bx))"
  by (cases e) auto

context redis_server
begin

lemma sim_run:
  assumes "sim n T bx (look r t) t" and "list_all (event_ok T) es" and "in_order t es"
    and "int (length (ballots bx) + length es) < 2 ^ 63"
  shows "sim n T (box_run n es bx) (look (fst (ev_run C n es r)) (last_time t es)) (last_time t es)"
  using assms
proof (induction es arbitrary: bx r t)
  case Nil
  then show ?case by simp
next
  case (Cons te es)
  obtain t' e where te: "te = (t', e)" by (cases te)
  let ?bx = "fst (box_step n t' e bx)" and ?r = "fst (ev_step C n t' e r)"
  have "sim n T bx (look r t') t'"
    using sim_later [OF Cons.prems(1), of t'] Cons.prems(2,3) te event_ok_time look_later [of t t' r] by auto
  moreover have "int (length (ballots bx)) + 1 < 2 ^ 63" using Cons.prems(4) by simp
  ultimately have s: "sim n T ?bx (look ?r t') t'"
    using sim_step [of n T bx r t' e] Cons.prems(2) te by simp
  moreover have "int (length (ballots ?bx) + length es) < 2 ^ 63"
    using Cons.prems(4) length_box_step [of n t' e bx] by simp
  ultimately have "sim n T (box_run n es ?bx) (look (fst (ev_run C n es ?r)) (last_time t' es)) (last_time t' es)"
    using Cons.IH [of ?bx ?r t'] Cons.prems(2,3) te by simp
  then show ?case using te by (simp add: split_beta)
qed

end

text \<open>The box itself: a ballot stays, a device has at most one per poll, and only a vote through an
  open gate adds one.\<close>

definition box_ok :: "box \<Rightarrow> bool" where
  "box_ok bx \<longleftrightarrow> distinct (voters (ballots bx))"

lemma box_step_ok: "box_ok bx \<Longrightarrow> box_ok (fst (box_step n t e bx))"
  by (cases e) (auto simp: box_ok_def voters_def)

lemma box_run_ok: "box_ok bx \<Longrightarrow> box_ok (box_run n es bx)"
proof (induction es arbitrary: bx)
  case Nil
  then show ?case by simp
next
  case (Cons te es)
  then show ?case by (cases te) (simp add: box_step_ok)
qed

lemma box_step_grows: "\<exists>xs. ballots (fst (box_step n t e bx)) = xs @ ballots bx"
  by (cases e) auto

lemma box_run_grows: "\<exists>xs. ballots (box_run n es bx) = xs @ ballots bx"
proof (induction es arbitrary: bx)
  case Nil
  then show ?case by simp
next
  case (Cons te es)
  obtain t e where te: "te = (t, e)" by (cases te)
  obtain xs ys where "ballots (box_run n es (fst (box_step n t e bx))) = xs @ ballots (fst (box_step n t e bx))"
    and "ballots (fst (box_step n t e bx)) = ys @ ballots bx"
    using Cons.IH box_step_grows by blast
  with te show ?case by auto
qed

end
