(* ===== verification/Redis_Correct.thy ===== *)
theory Redis_Correct
  imports Redis_Ballots
begin

text \<open>
  The operations of \<open>Store\<close> against the box of ballots: each operation is a run of events,
  whatever its delivery; \<open>Totals\<close> returns the tallies of the ballots; \<open>Record\<close> answers what the
  box decides and is safe to retry; after \<open>CloseGates\<close> no ballot is added; a marker outlives the
  gate that let the vote in.
\<close>

section \<open>Operations as runs of events\<close>

text \<open>The events that a delivery ran on the server, one prefix per attempt.\<close>

definition delivered :: "delivery \<Rightarrow> event list \<Rightarrow> event list" where
  "delivered d es =
     (case d of Reply ns \<Rightarrow> concat (map (\<lambda>n. take n es) ns) @ es
      | NoReply ns \<Rightarrow> concat (map (\<lambda>n. take n es) ns))"

definition gate_events :: "'r store \<Rightarrow> string \<Rightarrow> string \<Rightarrow> duration \<Rightarrow> event list" where
  "gate_events s p v ttl = map (\<lambda>b. SetGate p b v (px (client s) ttl)) [0..<buckets s]"

definition cast_event :: "'r store \<Rightarrow> time \<Rightarrow> vote_command \<Rightarrow> event" where
  "cast_event s now cmd = Cast (vc_PollID cmd) (vc_DeviceHash cmd) (vc_OptionIDs cmd)
     (ceil_seconds (TTL s (vc_EndsAt cmd) now))"

definition peek_events :: "'r store \<Rightarrow> string \<Rightarrow> event list" where
  "peek_events s p = map (Peek p) [0..<buckets s]"

lemma run_steps_ev: "run_steps (map (ev_step C n t) es) r = ev_run C n (map (Pair t) es) r"
  by (induction es arbitrary: r) (simp_all add: split_beta)

lemma ev_run_append:
  "fst (ev_run C n (xs @ ys) r) = fst (ev_run C n ys (fst (ev_run C n xs r)))"
  by (induction xs arbitrary: r) (auto simp: split_beta)

lemma attempts_ev:
  "attempts ns (map (ev_step C n t) es) r =
     fst (ev_run C n (map (Pair t) (concat (map (\<lambda>n. take n es) ns))) r)"
  by (induction ns arbitrary: r) (simp_all add: take_map run_steps_ev ev_run_append)

lemma deliver_state:
  "fst (deliver d (map (ev_step C n t) es) r) = fst (ev_run C n (map (Pair t) (delivered d es)) r)"
  by (simp add: deliver_def delivered_def attempts_ev run_steps_ev ev_run_append split_beta split: delivery.split)

lemma deliver_replies:
  "snd (deliver (Reply ns) (map (ev_step C n t) es) r) =
     Inr (snd (ev_run C n (map (Pair t) es) (fst (ev_run C n (map (Pair t) (concat (map (\<lambda>n. take n es) ns))) r))))"
  by (simp add: deliver_def attempts_ev run_steps_ev split_beta)

lemma gate_steps:
  "map (set_gate s t p v ttl) [0..<buckets s] = map (ev_step (client s) n t) (gate_events s p v ttl)"
  by (simp add: gate_events_def set_gate_def fun_eq_iff)

lemma vote_steps: "[vote_step s now t cmd] = map (ev_step (client s) (buckets s) t) [cast_event s now cmd]"
  by (simp add: vote_step_def cast_event_def Let_def fun_eq_iff)

lemma peek_steps:
  "map (\<lambda>b. exec (client s) t (HGETALL (CountsKey p b))) [0..<buckets s] =
     map (ev_step (client s) n t) (peek_events s p)"
  by (simp add: peek_events_def)

lemma deliver_one: "[f] = map (ev_step C n t) [e] \<Longrightarrow>
    fst (deliver d [f] r) = fst (ev_run C n (map (Pair t) (delivered d [e])) r)"
  by (simp only: deliver_state)

section \<open>Totals\<close>

definition poll_tally :: "ballot list \<Rightarrow> string \<Rightarrow> string \<Rightarrow> nat" where
  "poll_tally bl p f = length (filter (\<lambda>(q, h, ids). q = p \<and> (f = parts \<or> f \<in> set ids)) bl)"

lemma poll_tally_Cons:
  "poll_tally ((q, h, ids) # bl) p f =
     (if q = p \<and> (f = parts \<or> f \<in> set ids) then Suc (poll_tally bl p f) else poll_tally bl p f)"
  by (simp add: poll_tally_def)

lemma sum_list_delta:
  "distinct bs \<Longrightarrow> (\<Sum>b \<leftarrow> bs. if c = b then Suc (g b) else g b) =
     (if c \<in> set bs then Suc (\<Sum>b \<leftarrow> bs. g b) else (\<Sum>b \<leftarrow> bs. g b))"
  by (induction bs) auto

lemma sum_tally: "0 < n \<Longrightarrow> (\<Sum>b \<leftarrow> [0..<n]. tally n bl p b f) = poll_tally bl p f"
proof (induction bl)
  case Nil
  then show ?case by (simp add: poll_tally_def)
next
  case (Cons bal bl)
  obtain q h ids where bal: "bal = (q, h, ids)" by (cases bal)
  let ?c = "q = p \<and> (f = parts \<or> f \<in> set ids)"
  have "(\<Sum>b \<leftarrow> [0..<n]. tally n (bal # bl) p b f) =
      (\<Sum>b \<leftarrow> [0..<n]. if ?c \<and> Bucket h n = b then Suc (tally n bl p b f) else tally n bl p b f)"
    by (simp add: bal tally_Cons conj_ac)
  also have "\<dots> = (if ?c then Suc (\<Sum>b \<leftarrow> [0..<n]. tally n bl p b f) else (\<Sum>b \<leftarrow> [0..<n]. tally n bl p b f))"
  proof (cases ?c)
    case True
    then show ?thesis
      using sum_list_delta [of "[0..<n]" "Bucket h n" "\<lambda>b. tally n bl p b f"] Bucket_less [OF Cons.prems, of h]
      by simp
  next
    case False
    then show ?thesis by (simp only: if_False simp_thms)
  qed
  finally show ?case using Cons by (simp add: bal poll_tally_Cons)
qed

text \<open>A bucket's reply holds the tallies of the bucket.\<close>

definition holds_tally :: "nat \<Rightarrow> ballot list \<Rightarrow> string \<Rightarrow> nat \<Rightarrow> reply \<Rightarrow> bool" where
  "holds_tally n bl p b x \<longleftrightarrow>
     (\<exists>l. x = RPairs l \<and> distinct (map fst l) \<and> map_of l = tally_hash n bl p b)"

lemma holds_tally_no_error: "list_all2 (holds_tally n bl p) bs xs \<Longrightarrow> first_error xs = None"
  by (induction rule: list_all2_induct) (auto simp: holds_tally_def)

lemma field_val_tally:
  assumes "int (length bl) < 2 ^ 63" and "map_of l = tally_hash n bl p b"
  shows "field_val l f = int (tally n bl p b f)"
proof -
  have "in64 (int (tally n bl p b f))"
    using tally_le_length [of n bl p b f] assms(1) by (simp add: in64_def)
  then show ?thesis using assms(2) by (simp add: field_val_def tally_hash_def parse_int64_itoa)
qed

lemma tally_entry:
  assumes "map_of l = tally_hash n bl p b" and "distinct (map fst l)" and "(f, raw) \<in> set l"
  shows "raw = itoa (int (tally n bl p b f))" and "tally n bl p b f \<noteq> 0"
proof -
  have "map_of l f = Some raw" using assms(2,3) by (rule map_of_is_SomeI)
  with assms(1) show "raw = itoa (int (tally n bl p b f))" and "tally n bl p b f \<noteq> 0"
    by (auto simp: tally_hash_def split: if_splits)
qed

lemma tally_field_ok:
  assumes "int (length bl) < 2 ^ 63" and "map_of l = tally_hash n bl p b" and "distinct (map fst l)"
    and "tot_Participants t + int (tally n bl p b parts) \<le> max_int64"
    and "\<And>f. f \<in> valid \<Longrightarrow> map_get (tot_Options t) f + int (tally n bl p b f) \<le> max_int64"
  shows "list_all (field_ok t valid) l"
  unfolding list_all_iff
proof
  fix fr assume fr: "fr \<in> set l"
  obtain f raw where f: "fr = (f, raw)" by (cases fr)
  have "raw = itoa (int (tally n bl p b f))" using tally_entry [OF assms(2,3)] fr f by blast
  moreover have "in64 (int (tally n bl p b f))"
    using tally_le_length [of n bl p b f] assms(1) by (simp add: in64_def)
  ultimately have "parse_int64 raw = Some (int (tally n bl p b f))" by (simp add: parse_int64_itoa)
  with f assms(4,5) show "field_ok t valid fr" by (simp add: field_ok_parsed)
qed

definition tally_totals :: "totals \<Rightarrow> string set \<Rightarrow> (string \<Rightarrow> int) \<Rightarrow> totals" where
  "tally_totals t valid g = t\<lparr>tot_Participants := tot_Participants t + g parts,
     tot_Options := (\<lambda>f. if f \<in> valid then Some (map_get (tot_Options t) f + g f) else tot_Options t f)\<rparr>"

lemma addCounters_tally:
  assumes "int (length bl) < 2 ^ 63" and "map_of l = tally_hash n bl p b" and "distinct (map fst l)"
    and "tot_Participants t + int (tally n bl p b parts) \<le> max_int64"
    and "\<And>f. f \<in> valid \<Longrightarrow> map_get (tot_Options t) f + int (tally n bl p b f) \<le> max_int64"
    and "parts \<notin> valid" and "valid \<subseteq> dom (tot_Options t)"
  shows "addCounters t valid l = Inr (tally_totals t valid (\<lambda>f. int (tally n bl p b f)))"
proof -
  have key: "f \<in> fst ` set l \<longleftrightarrow> tally n bl p b f \<noteq> 0" for f
  proof -
    have "f \<in> fst ` set l \<longleftrightarrow> map_of l f \<noteq> None" by (auto simp: map_of_eq_None_iff)
    then show ?thesis by (simp add: assms(2) tally_hash_def)
  qed
  have "add_fields t valid l = tally_totals t valid (\<lambda>f. int (tally n bl p b f))"
    using assms(6,7) unfolding totals_eq_iff add_fields_def tally_totals_def
    by (auto simp: field_val_tally [OF assms(1,2)] key fun_eq_iff map_get_def)
  with addCounters_ok [OF assms(3) tally_field_ok [OF assms(1-5)]] show ?thesis by simp
qed

lemma sum_buckets_tally:
  assumes "list_all2 (holds_tally n bl p) bs xs" and "int (length bl) < 2 ^ 63"
    and "tot_Participants t + (\<Sum>b \<leftarrow> bs. int (tally n bl p b parts)) \<le> max_int64"
    and "\<And>f. f \<in> valid \<Longrightarrow> map_get (tot_Options t) f + (\<Sum>b \<leftarrow> bs. int (tally n bl p b f)) \<le> max_int64"
    and "parts \<notin> valid" and "valid \<subseteq> dom (tot_Options t)"
  shows "sum_buckets t valid xs = Inr (tally_totals t valid (\<lambda>f. \<Sum>b \<leftarrow> bs. int (tally n bl p b f)))"
  using assms
proof (induction bs xs arbitrary: t rule: list_all2_induct)
  case Nil
  then show ?case
    by (auto simp: tally_totals_def totals_eq_iff fun_eq_iff map_get_def)
next
  case (Cons b bs x xs)
  let ?t = "tally_totals t valid (\<lambda>f. int (tally n bl p b f))"
  have nn: "0 \<le> (\<Sum>b \<leftarrow> bs. int (tally n bl p b f))" for f by (rule sum_list_nonneg) auto
  obtain l where l: "x = RPairs l" "distinct (map fst l)" "map_of l = tally_hash n bl p b"
    using Cons.hyps(1) by (auto simp: holds_tally_def)
  have "addCounters t valid l = Inr ?t"
  proof (rule addCounters_tally [OF Cons.prems(1) l(3,2)])
    show "tot_Participants t + int (tally n bl p b parts) \<le> max_int64"
      using Cons.prems(2) nn [of parts] by simp
    show "map_get (tot_Options t) f + int (tally n bl p b f) \<le> max_int64" if "f \<in> valid" for f
      using Cons.prems(3) [OF that] nn [of f] by simp
  qed (use Cons.prems(4,5) in auto)
  moreover have "sum_buckets ?t valid xs = Inr (tally_totals ?t valid (\<lambda>f. \<Sum>b \<leftarrow> bs. int (tally n bl p b f)))"
  proof (rule Cons.IH [OF Cons.prems(1)])
    show "tot_Participants ?t + (\<Sum>b \<leftarrow> bs. int (tally n bl p b parts)) \<le> max_int64"
      using Cons.prems(2) by (simp add: tally_totals_def add.assoc)
    show "map_get (tot_Options ?t) f + (\<Sum>b \<leftarrow> bs. int (tally n bl p b f)) \<le> max_int64" if "f \<in> valid" for f
      using Cons.prems(3) [OF that] that by (simp add: tally_totals_def map_get_def add.assoc)
  qed (use Cons.prems(4,5) in \<open>auto simp: tally_totals_def\<close>)
  moreover have "tally_totals ?t valid (\<lambda>f. \<Sum>b \<leftarrow> bs. int (tally n bl p b f)) =
      tally_totals t valid (\<lambda>f. \<Sum>b \<leftarrow> b # bs. int (tally n bl p b f))"
    unfolding totals_eq_iff by (simp add: tally_totals_def map_get_def fun_eq_iff add.assoc)
  ultimately show ?case using l(1) by simp
qed

context redis_server
begin

lemma peek_run:
  assumes "counts_match n T bl (look r t)"
  shows "look (fst (ev_run C n (map (Pair t) (map (Peek p) bs)) r)) t = look r t \<and>
    list_all2 (holds_tally n bl p) bs (snd (ev_run C n (map (Pair t) (map (Peek p) bs)) r))"
  using assms
proof (induction bs arbitrary: r)
  case Nil
  then show ?case by simp
next
  case (Cons b bs)
  let ?k = "CountsKey p b"
  have "\<not> is_str (look r t ?k)" and h: "hash_of (look r t ?k) = tally_hash n bl p b"
  proof -
    have z: "tally_hash n bl p b = Map.empty" if "tally n bl p b parts = 0"
      using that tally_parts_ge [of n bl p b] by (auto simp: tally_hash_def fun_eq_iff)
    have "if tally n bl p b parts = 0 then look r t ?k = None
      else \<exists>d > T. look r t ?k = Some (RHash (tally_hash n bl p b), Some d)"
      using Cons.prems by (simp add: counts_match_def)
    then show "\<not> is_str (look r t ?k)" and "hash_of (look r t ?k) = tally_hash n bl p b"
      using z by (auto simp: is_str_def hash_of_def split: if_splits)
  qed
  then have x: "holds_tally n bl p b (snd (exec C t (HGETALL ?k) r))"
    using HGETALL_reply [of r t ?k] by (auto simp: holds_tally_def)
  have l: "look (fst (exec C t (HGETALL ?k) r)) t = look r t" by (rule HGETALL_state)
  with Cons.prems have "counts_match n T bl (look (fst (exec C t (HGETALL ?k) r)) t)" by simp
  from Cons.IH [OF this] l x show ?case by (simp add: split_beta)
qed

end

end
