(* ===== verification/Redis_History.thy ===== *)
theory Redis_History
  imports Redis_Correct
begin

text \<open>
  Histories of calls to \<open>Store\<close>, by any number of API processes and workers in any order, each
  call with its own delivery. A history on an empty Redis is a run of events, so the box of
  ballots tells what every later call answers.
\<close>

section \<open>Calls and histories\<close>

datatype call =
    Setup_c string time
  | Close_c string time
  | Delete_c string
  | Record_c vote_command
  | Totals_c string "string list"
  | Allow_c string int
  | Acquire_c string string duration
  | Release_c string string

text \<open>A call, its delivery, the clock of its process and the clock of the server.\<close>

type_synonym invocation = "delivery \<times> time \<times> time \<times> call"

fun store_call :: "'r store \<Rightarrow> invocation \<Rightarrow> 'r \<Rightarrow> 'r" where
  "store_call s (d, now, t, Setup_c p e) r = fst (SetupGates s d now t p e r)"
| "store_call s (d, now, t, Close_c p e) r = fst (CloseGates s d now t p e r)"
| "store_call s (d, now, t, Delete_c p) r = fst (DeleteGates s d t p r)"
| "store_call s (d, now, t, Record_c cmd) r = fst (Record s d now t cmd r)"
| "store_call s (d, now, t, Totals_c p ids) r = fst (Totals s d now t p ids r)"
| "store_call s (d, now, t, Allow_c h l) r = fst (AllowRate s d now t h l r)"
| "store_call s (d, now, t, Acquire_c p k ttl) r = fst (AcquireSnapshotLock s d t p k ttl r)"
| "store_call s (d, now, t, Release_c p k) r = fst (ReleaseSnapshotLock s d t p k r)"

fun store_run :: "'r store \<Rightarrow> invocation list \<Rightarrow> 'r \<Rightarrow> 'r" where
  "store_run s [] r = r"
| "store_run s (i # h) r = store_run s h (store_call s i r)"

fun call_events :: "'r store \<Rightarrow> time \<Rightarrow> call \<Rightarrow> event list" where
  "call_events s now (Setup_c p e) = gate_events s p ''active'' (TTL s e now)"
| "call_events s now (Close_c p e) = gate_events s p ''closed'' (TTL s e now)"
| "call_events s now (Delete_c p) = [DropGates p]"
| "call_events s now (Record_c cmd) = [cast_event s now cmd]"
| "call_events s now (Totals_c p ids) = peek_events s p"
| "call_events s now (Allow_c h l) = [Hit h now l]"
| "call_events s now (Acquire_c p k ttl) = [Lock p k (px (client s) ttl)]"
| "call_events s now (Release_c p k) = [Unlock p k]"

fun inv_events :: "'r store \<Rightarrow> invocation \<Rightarrow> (time \<times> event) list" where
  "inv_events s (d, now, t, c) = map (Pair t) (delivered d (call_events s now c))"

definition history_events :: "'r store \<Rightarrow> invocation list \<Rightarrow> (time \<times> event) list" where
  "history_events s h = concat (map (inv_events s) h)"

definition history_box :: "'r store \<Rightarrow> invocation list \<Rightarrow> box" where
  "history_box s h = box_run (buckets s) (history_events s h) empty_box"

text \<open>The ballots that a history put into the box, the last one first.\<close>

definition cast_ballots :: "'r store \<Rightarrow> invocation list \<Rightarrow> ballot list" where
  "cast_ballots s h = ballots (history_box s h)"

section \<open>What is asked of a history\<close>

definition store_ok :: "'r store \<Rightarrow> bool" where
  "store_ok s \<longleftrightarrow> 0 < buckets s \<and> Second \<le> maxTTL s \<and> maxTTL s < 2 ^ 22 * Second"

fun call_ok :: "'r store \<Rightarrow> time \<Rightarrow> invocation \<Rightarrow> bool" where
  "call_ok s T (d, now, t, Record_c cmd) =
     (t \<le> T \<and> plain_hash (vc_DeviceHash cmd) \<and> distinct (vc_OptionIDs cmd) \<and>
      parts \<notin> set (vc_OptionIDs cmd) \<and> T < s_after t (ceil_seconds (TTL s (vc_EndsAt cmd) now)))"
| "call_ok s T (d, now, t, Acquire_c p k ttl) = (t \<le> T \<and> 0 < ttl)"
| "call_ok s T (d, now, t, c) = (t \<le> T)"

fun inv_time :: "invocation \<Rightarrow> time" where
  "inv_time (d, now, t, c) = t"

text \<open>
  The calls reach the server in the order of its clock, between \<open>t0\<close> and \<open>t1\<close>; a vote's marker
  lives past the horizon \<open>T\<close>; there are less than 2^63 commands.
\<close>

definition history_ok :: "'r store \<Rightarrow> time \<Rightarrow> time \<Rightarrow> time \<Rightarrow> invocation list \<Rightarrow> bool" where
  "history_ok s t0 t1 T h \<longleftrightarrow>
     store_ok s \<and> sorted (t0 # map inv_time h @ [t1]) \<and> t1 \<le> T \<and> list_all (call_ok s T) h \<and>
     int (length (history_events s h)) + 1 < 2 ^ 63"

lemma ceil_TTL_pos:
  assumes "store_ok s"
  shows "0 < ceil_seconds (TTL s e now)" and "TTL s e now \<le> ceil_seconds (TTL s e now) * Second"
proof -
  have "0 < TTL s e now" and "TTL s e now \<le> maxTTL s"
    using TTL_bounds [of s e now] assms by (auto simp: store_ok_def Second_def)
  with ceil_seconds_ge [of "TTL s e now"] assms
  show "TTL s e now \<le> ceil_seconds (TTL s e now) * Second" by (simp add: store_ok_def Second_def)
  with \<open>0 < TTL s e now\<close> have "0 < ceil_seconds (TTL s e now) * Second" by linarith
  then show "0 < ceil_seconds (TTL s e now)" by (simp add: Second_def)
qed

section \<open>A history is a run of events\<close>

lemma store_call_events:
  "store_call s (d, now, t, c) r =
     fst (ev_run (client s) (buckets s) (inv_events s (d, now, t, c)) r)"
proof (cases c)
  case (Setup_c p e)
  then show ?thesis
    by (simp add: SetupGates_def Let_def split_beta gate_steps [where n = "buckets s"] deliver_state)
next
  case (Close_c p e)
  then show ?thesis
    by (simp add: CloseGates_def Let_def split_beta gate_steps [where n = "buckets s"] deliver_state)
next
  case (Delete_c p)
  then show ?thesis by (simp add: DeleteGates_def split_beta) (rule deliver_one, simp)
next
  case (Record_c cmd)
  then show ?thesis by (simp add: Record_def split_beta vote_steps deliver_state del: list.map)
next
  case (Totals_c p ids)
  then show ?thesis
    by (simp add: Totals_def split_beta peek_steps [where n = "buckets s"] deliver_state)
next
  case (Allow_c h l)
  then show ?thesis by (simp add: AllowRate_def split_beta) (rule deliver_one, simp add: fun_eq_iff)
next
  case (Acquire_c p k ttl)
  then show ?thesis by (simp add: AcquireSnapshotLock_def split_beta) (rule deliver_one, simp)
next
  case (Release_c p k)
  then show ?thesis by (simp add: ReleaseSnapshotLock_def split_beta) (rule deliver_one, simp add: fun_eq_iff)
qed

lemma store_run_events:
  "store_run s h r = fst (ev_run (client s) (buckets s) (history_events s h) r)"
proof (induction h arbitrary: r)
  case Nil
  then show ?case by (simp add: history_events_def)
next
  case (Cons i h)
  obtain d now t c where "i = (d, now, t, c)" by (cases i)
  with Cons show ?case by (simp add: store_call_events history_events_def ev_run_append)
qed

lemma set_delivered: "set (delivered d es) \<subseteq> set es"
  using set_take_subset by (fastforce simp: delivered_def split: delivery.splits)

lemma call_events_ok:
  assumes "store_ok s" and "call_ok s T (d, now, t, c)" and "e \<in> set (call_events s now c)"
    and px: "\<And>x. 0 < x \<Longrightarrow> 0 < px (client s) x"
  shows "event_ok T (t, e)"
proof -
  have "0 < TTL s e' now" for e'
    using TTL_bounds(1) [of s e' now] assms(1) by (simp add: store_ok_def Second_def)
  with assms ceil_TTL_pos(1) [OF assms(1)] show ?thesis
    by (cases c) (auto simp: gate_events_def peek_events_def cast_event_def)
qed

lemma history_events_ok:
  assumes "store_ok s" and "list_all (call_ok s T) h" and "\<And>x. 0 < x \<Longrightarrow> 0 < px (client s) x"
  shows "list_all (event_ok T) (history_events s h)"
proof -
  have "event_ok T (t, e)" if "(t, e) \<in> set (inv_events s i)" "i \<in> set h" for t e i
  proof -
    obtain d now u c where i: "i = (d, now, u, c)" by (cases i)
    with that have "t = u" and "e \<in> set (call_events s now c)"
      using set_delivered by (auto dest: subsetD [OF set_delivered])
    moreover have "call_ok s T (d, now, u, c)" using assms(2) that(2) i by (auto simp: list_all_iff)
    ultimately show ?thesis using call_events_ok [OF assms(1) _ _ assms(3)] by blast
  qed
  then show ?thesis by (auto simp: list_all_iff history_events_def)
qed

lemma in_order_iff: "in_order t es \<longleftrightarrow> sorted (t # map fst es)"
proof (induction es arbitrary: t)
  case Nil
  then show ?case by simp
next
  case (Cons te es)
  then show ?case by (cases te) auto
qed

lemma inv_events_times: "map fst (inv_events s i) = replicate (length (inv_events s i)) (inv_time i)"
  by (cases i) (simp add: map_replicate_const o_def)

lemma sorted_replicate_prefix:
  "sorted (u # ys) \<Longrightarrow> t \<le> u \<Longrightarrow> sorted ((t :: 'a :: linorder) # replicate k u @ ys)"
  by (induction k arbitrary: t) auto

lemma history_times:
  "sorted (t0 # map inv_time h @ [t1]) \<Longrightarrow> sorted (t0 # map fst (history_events s h) @ [t1])"
proof (induction h arbitrary: t0)
  case Nil
  then show ?case by (simp add: history_events_def)
next
  case (Cons i h)
  then have "sorted (inv_time i # map fst (history_events s h) @ [t1])" and "t0 \<le> inv_time i" by auto
  from sorted_replicate_prefix [OF this, of "length (inv_events s i)"] show ?case
    by (simp add: history_events_def inv_events_times [of s i])
qed

lemma last_time_append: "last_time t (xs @ ys) = last_time (last_time t xs) ys"
  by (induction xs arbitrary: t) auto

lemma last_time_le: "sorted (t0 # map fst es @ [t1]) \<Longrightarrow> t0 \<le> last_time t0 es \<and> last_time t0 es \<le> t1"
proof (induction es arbitrary: t0)
  case Nil
  then show ?case by simp
next
  case (Cons te es)
  then show ?case by (cases te) fastforce
qed

context redis_server
begin

lemma sim_empty: "m = Map.empty \<Longrightarrow> t \<le> T \<Longrightarrow> sim n T empty_box m t"
  by (simp add: sim_def empty_box_def gates_match_def markers_match_def counts_match_def voters_def)

lemma history_sim:
  assumes "C = client s" and "look r t0 = Map.empty" and "history_ok s t0 t1 T h"
  shows "sim (buckets s) T (history_box s h) (look (store_run s h r) t1) t1"
proof -
  let ?es = "history_events s h"
  from assms(3) have ok: "store_ok s" "list_all (call_ok s T) h" "t1 \<le> T"
    and "sorted (t0 # map inv_time h @ [t1])" and len: "int (length ?es) + 1 < 2 ^ 63"
    by (auto simp: history_ok_def)
  from history_times [OF this(4)] have srt: "sorted (t0 # map fst ?es @ [t1])" .
  have "list_all (event_ok T) ?es" using history_events_ok ok px_pos assms(1) by blast
  moreover have "in_order t0 ?es" using srt by (auto simp: in_order_iff sorted_append)
  moreover have "sim (buckets s) T empty_box (look r t0) t0"
    using assms(2) srt ok(3) by (auto intro!: sim_empty simp: sorted_append)
  ultimately have "sim (buckets s) T (history_box s h) (look (store_run s h r) (last_time t0 ?es)) (last_time t0 ?es)"
    using sim_run [of "buckets s" T empty_box r t0 ?es] len assms(1)
    by (simp add: history_box_def store_run_events empty_box_def)
  moreover have "last_time t0 ?es \<le> t1" using last_time_le [OF srt] by simp
  ultimately show ?thesis
    using sim_later [OF _ _ ok(3)] look_later by metis
qed

end

lemma length_box_run: "length (ballots (box_run n es bx)) \<le> length (ballots bx) + length es"
proof (induction es arbitrary: bx)
  case Nil
  then show ?case by simp
next
  case (Cons te es)
  obtain t e where "te = (t, e)" by (cases te)
  with Cons.IH [of "fst (box_step n t e bx)"] length_box_step [of n t e bx] show ?case by simp
qed

lemma cast_ballots_length: "history_ok s t0 t1 T h \<Longrightarrow> int (length (cast_ballots s h)) + 1 < 2 ^ 63"
  using length_box_run [of "buckets s" "history_events s h" empty_box]
  by (simp add: history_ok_def cast_ballots_def history_box_def empty_box_def)

lemma cast_ballots_voters: "distinct (voters (cast_ballots s h))"
  using box_run_ok [of empty_box "buckets s" "history_events s h"]
  by (simp add: cast_ballots_def history_box_def box_ok_def empty_box_def voters_def)

end
