(* ===== verification/Redis_Props.thy ===== *)
theory Redis_Props
  imports Redis_History
begin

text \<open>
  What the operations of \<open>Store\<close> answer after any history: the properties of the Redis side.
\<close>

section \<open>Totals after a history\<close>

definition ballot_totals :: "ballot list \<Rightarrow> string \<Rightarrow> string list \<Rightarrow> time \<Rightarrow> totals" where
  "ballot_totals bl p ids now =
     \<lparr>tot_Participants = int (poll_tally bl p parts),
      tot_Options = (\<lambda>f. if f \<in> set ids then Some (int (poll_tally bl p f)) else None),
      tot_AsOf = now\<rparr>"

lemma poll_tally_le: "poll_tally bl p f \<le> length bl"
  by (simp add: poll_tally_def)

lemma poll_tally_parts: "poll_tally bl p parts = length (filter (\<lambda>(q, d, os). q = p) bl)"
  by (simp add: poll_tally_def)

lemma option_le_parts:
  "length (filter (\<lambda>(q, d, os). q = p \<and> f \<in> set os) bl) \<le> length (filter (\<lambda>(q, d, os). q = p) bl)"
  by (induction bl) auto

lemma poll_tally_option:
  "f \<in> set ids \<Longrightarrow> parts \<notin> set ids \<Longrightarrow>
     poll_tally bl p f = length (filter (\<lambda>(q, d, os). q = p \<and> f \<in> set os) bl)"
  by (induction bl) (auto simp: poll_tally_def)

lemma of_nat_sum_list: "int (\<Sum>x \<leftarrow> xs. g x) = (\<Sum>x \<leftarrow> xs. int (g x))"
  by (induction xs) simp_all

lemma sum_tally_int: "0 < n \<Longrightarrow> (\<Sum>b \<leftarrow> [0..<n]. int (tally n bl p b f)) = int (poll_tally bl p f)"
  using sum_tally [of n bl p f, symmetric] by (simp add: of_nat_sum_list o_def)

lemma sum_buckets_ballots:
  assumes "list_all2 (holds_tally n bl p) [0..<n] xs" and "0 < n" and "int (length bl) < 2 ^ 63"
    and "parts \<notin> set ids"
  shows "sum_buckets (zero_totals ids now) (set ids) xs = Inr (ballot_totals bl p ids now)"
proof -
  have le: "int (poll_tally bl p f) \<le> max_int64" for f
    using poll_tally_le [of bl p f] assms(3) by (simp add: max_int64_def)
  have "sum_buckets (zero_totals ids now) (set ids) xs =
      Inr (tally_totals (zero_totals ids now) (set ids) (\<lambda>f. \<Sum>b \<leftarrow> [0..<n]. int (tally n bl p b f)))"
    using le assms(4) sum_tally_int [OF assms(2), of bl p]
    by (intro sum_buckets_tally [OF assms(1,3)]) (auto simp: zero_totals_def map_get_def)
  also have "tally_totals (zero_totals ids now) (set ids) (\<lambda>f. \<Sum>b \<leftarrow> [0..<n]. int (tally n bl p b f)) =
      ballot_totals bl p ids now"
    unfolding totals_eq_iff sum_tally_int [OF assms(2)]
    by (auto simp: tally_totals_def zero_totals_def ballot_totals_def map_get_def fun_eq_iff)
  finally show ?thesis .
qed

lemma peek_prefixes:
  "concat (map (\<lambda>n. take n (peek_events s p)) ns) = map (Peek p) (concat (map (\<lambda>n. take n [0..<buckets s]) ns))"
  by (simp add: peek_events_def take_map map_concat o_def)

lemma markers_match_iff:
  assumes "markers_match n T bl m" and "plain_hash h"
  shows "(m (DedupKey p (Bucket h n) h) \<noteq> None) = ((p, h) \<in> set (voters bl))"
proof -
  have "if (p, h) \<in> set (voters bl)
      then \<exists>d > T. m (DedupKey p (Bucket h n) h) = Some (RStr ''1'', Some d)
      else m (DedupKey p (Bucket h n) h) = None"
    using assms by (simp add: markers_match_def)
  then show ?thesis by (auto split: if_splits)
qed

lemma counts_match_hash:
  assumes "counts_match n T bl m"
  shows "\<not> is_str (m (CountsKey p b)) \<and> hash_of (m (CountsKey p b)) = tally_hash n bl p b"
proof -
  have "tally_hash n bl p b = Map.empty" if "tally n bl p b parts = 0"
    using that tally_parts_ge [of n bl p b] by (auto simp: tally_hash_def fun_eq_iff)
  moreover have "if tally n bl p b parts = 0 then m (CountsKey p b) = None
      else \<exists>d > T. m (CountsKey p b) = Some (RHash (tally_hash n bl p b), Some d)"
    using assms by (simp add: counts_match_def)
  ultimately show ?thesis by (auto simp: is_str_def hash_of_def split: if_splits)
qed

context redis_server
begin

lemma Totals_sim:
  assumes "C = client s" and "sim (buckets s) T bx (look r t) t" and "0 < buckets s"
    and "int (length (ballots bx)) < 2 ^ 63" and "parts \<notin> set ids"
  shows "snd (Totals s (Reply ns) now t p ids r) = Inr (ballot_totals (ballots bx) p ids now)"
proof -
  let ?n = "buckets s"
  let ?r = "fst (ev_run C ?n (map (Pair t) (concat (map (\<lambda>n. take n (peek_events s p)) ns))) r)"
  let ?xs = "snd (ev_run C ?n (map (Pair t) (peek_events s p)) ?r)"
  have cm: "counts_match ?n T (ballots bx) (look r t)" using assms(2) by (simp add: sim_def)
  have "look ?r t = look r t"
    using peek_run [OF cm] unfolding peek_prefixes by blast
  with cm have "counts_match ?n T (ballots bx) (look ?r t)" by simp
  then have xs: "list_all2 (holds_tally ?n (ballots bx) p) [0..<?n] ?xs"
    unfolding peek_events_def by (intro conjunct2 [OF peek_run])
  have d: "snd (deliver (Reply ns) (map (\<lambda>b. exec C t (HGETALL (CountsKey p b))) [0..<?n]) r) = Inr ?xs"
    using peek_steps [of s t p ?n] by (simp add: assms(1) deliver_replies)
  have "exec_err (Inr ?xs) = None" using holds_tally_no_error [OF xs] by (simp add: exec_err_def)
  with d sum_buckets_ballots [OF xs assms(3,4,5)] assms(1) show ?thesis
    by (simp add: Totals_def split_beta)
qed

lemma Totals_history:
  assumes "C = client s" and "look r t0 = Map.empty" and "history_ok s t0 t T h" and "parts \<notin> set ids"
  shows "snd (Totals s (Reply ns) now t p ids (store_run s h r)) =
    Inr (ballot_totals (cast_ballots s h) p ids now)"
  using Totals_sim [OF assms(1) history_sim [OF assms(1-3)] _ _ assms(4)]
    cast_ballots_length [OF assms(3)] assms(3)
  by (simp add: cast_ballots_def history_ok_def store_ok_def)

end

section \<open>Record\<close>

text \<open>What the spec says of a vote: refused, already counted, or counted once.\<close>

definition vote_answer :: "nat \<Rightarrow> time \<Rightarrow> vote_command \<Rightarrow> box \<Rightarrow> err + vote_status" where
  "vote_answer n t cmd bx =
     (if \<not> gate_open bx t (vc_PollID cmd) (Bucket (vc_DeviceHash cmd) n) then Inl (Sentinel ErrNotActive)
      else if (vc_PollID cmd, vc_DeviceHash cmd) \<in> set (voters (ballots bx)) then Inr VoteAlreadyRecorded
      else Inr VoteRecorded)"

definition vote_box :: "nat \<Rightarrow> time \<Rightarrow> vote_command \<Rightarrow> box \<Rightarrow> box" where
  "vote_box n t cmd bx =
     (if vote_answer n t cmd bx = Inr VoteRecorded
      then bx\<lparr>ballots := (vc_PollID cmd, vc_DeviceHash cmd, vc_OptionIDs cmd) # ballots bx\<rparr> else bx)"

text \<open>Whether some attempt of a delivery ran the script.\<close>

definition ran_before :: "nat list \<Rightarrow> bool" where
  "ran_before ns \<longleftrightarrow> (\<exists>k \<in> set ns. 0 < k)"

lemma ran_before_iff: "ran_before ns \<longleftrightarrow> length (filter (\<lambda>n. 0 < n) ns) \<noteq> 0"
  by (auto simp: ran_before_def filter_empty_conv)

lemma cast_box_step: "fst (box_step n t (cast_event s now cmd) bx) = vote_box n t cmd bx"
  if "n = buckets s"
  using that by (simp add: cast_event_def vote_box_def vote_answer_def)

lemma vote_box_ballots:
  "ballots (vote_box n t cmd bx) = (if vote_answer n t cmd bx = Inr VoteRecorded
     then (vc_PollID cmd, vc_DeviceHash cmd, vc_OptionIDs cmd) # ballots bx else ballots bx)"
  by (simp add: vote_box_def)

lemma vote_box_gate: "gate (vote_box n t cmd bx) = gate bx"
  by (simp add: vote_box_def)

lemma vote_box_idem: "vote_box n t cmd (vote_box n t cmd bx) = vote_box n t cmd bx"
  by (auto simp: vote_box_def vote_answer_def voters_def gate_open_def)

lemma vote_answer_again:
  "vote_answer n t cmd (vote_box n t cmd bx) =
     (if vote_answer n t cmd bx = Inr VoteRecorded then Inr VoteAlreadyRecorded else vote_answer n t cmd bx)"
  by (auto simp: vote_box_def vote_answer_def voters_def gate_open_def)

lemma prefixes_one: "concat (map (\<lambda>n. take n [e]) ns) = replicate (length (filter (\<lambda>n. 0 < n) ns)) e"
  by (induction ns) (auto simp: take_Cons')

lemma last_time_same: "last_time t (replicate k (t, e)) = t"
  by (induction k) simp_all

lemma box_run_same:
  "box_run n (map (Pair t) (replicate k (cast_event s now cmd))) bx =
     (if k = 0 then bx else vote_box n t cmd bx)" if "n = buckets s"
proof (induction k arbitrary: bx)
  case 0
  then show ?case by simp
next
  case (Suc k)
  then show ?case using that by (simp add: cast_box_step vote_box_idem)
qed

context redis_server
begin

lemma Record_sim:
  assumes C: "C = client s" and bx: "sim (buckets s) T bx (look r t) t" and ok: "store_ok s"
    and c: "call_ok s T (d, now, t, Record_c cmd)"
    and len: "int (length (ballots bx)) + int (length (filter (\<lambda>n. 0 < n) ns)) + 1 < 2 ^ 63"
  shows "snd (Record s (Reply ns) now t cmd r) =
     vote_answer (buckets s) t cmd (if ran_before ns then vote_box (buckets s) t cmd bx else bx)"
proof -
  let ?n = "buckets s" and ?e = "cast_event s now cmd"
  let ?es = "map (Pair t) (concat (map (\<lambda>n. take n [?e]) ns))"
  let ?r = "fst (ev_run C ?n ?es r)"
  let ?bx = "if ran_before ns then vote_box ?n t cmd bx else bx"
  have e_ok: "event_ok T (t, ?e)"
    using call_events_ok [OF ok c, of ?e] px_pos C by simp
  have rep: "?es = map (Pair t) (replicate (length (filter (\<lambda>n. 0 < n) ns)) ?e)"
    by (simp only: prefixes_one)
  have same: "box_run ?n ?es bx = ?bx"
    using box_run_same [of ?n s t "length (filter (\<lambda>n. 0 < n) ns)" now cmd bx]
    by (simp only: rep ran_before_iff if_not_P) simp
  have lt: "last_time t ?es = t"
    unfolding rep map_replicate by (rule last_time_same)
  have "sim ?n T (box_run ?n ?es bx) (look ?r (last_time t ?es)) (last_time t ?es)"
  proof (rule sim_run [OF bx])
    show "list_all (event_ok T) ?es" using e_ok by (auto simp: rep list_all_iff)
    show "in_order t ?es" by (auto simp: rep in_order_iff map_replicate_const)
    show "int (length (ballots bx) + length ?es) < 2 ^ 63" using len by (simp add: rep)
  qed
  then have s: "sim ?n T ?bx (look ?r t) t" by (simp only: same lt)
  have "length (ballots ?bx) \<le> Suc (length (ballots bx))" by (simp add: vote_box_def)
  moreover have "ran_before ns \<Longrightarrow> 1 \<le> length (filter (\<lambda>n. 0 < n) ns)"
    by (simp add: ran_before_iff Suc_le_eq)
  ultimately have len': "int (length (ballots ?bx)) + 1 < 2 ^ 63" using len by (auto split: if_splits)
  obtain x where x: "snd (ev_step C ?n t ?e ?r) = RInt x" "snd (box_step ?n t ?e ?bx) = x"
    using sim_cast [OF s _ len', of "vc_PollID cmd" "vc_DeviceHash cmd" "vc_OptionIDs cmd"] e_ok
    unfolding cast_event_def by fastforce
  have "snd (deliver (Reply ns) [vote_step s now t cmd] r) = Inr [RInt x]"
    using deliver_replies [of ns C ?n t "[?e]" r] x(1) C by (simp add: vote_steps split_beta)
  then have "snd (Record s (Reply ns) now t cmd r) =
      (if x = 1 then Inr VoteRecorded else if x = 0 then Inr VoteAlreadyRecorded
       else if x = -1 then Inl (Sentinel ErrNotActive)
       else Inl (Other (''unexpected vote script result '' @ itoa x)))"
    by (simp add: Record_def split_beta one_reply_def int_reply_def)
  also have "\<dots> = vote_answer ?n t cmd ?bx"
    using x(2) by (auto simp: vote_answer_def cast_event_def split: if_splits)
  finally show ?thesis .
qed

end

section \<open>Appending to a history\<close>

lemma box_run_append: "box_run n (xs @ ys) bx = box_run n ys (box_run n xs bx)"
proof (induction xs arbitrary: bx)
  case Nil
  then show ?case by simp
next
  case (Cons te xs)
  then show ?case by (cases te) simp
qed

lemma history_box_append:
  "history_box s (h @ h') = box_run (buckets s) (history_events s h') (history_box s h)"
  by (simp add: history_box_def history_events_def box_run_append)

lemma history_ok_append:
  "history_ok s t0 t1 T (h @ [(d, now, t, c)]) \<Longrightarrow> history_ok s t0 t T h \<and> call_ok s T (d, now, t, c) \<and> t \<le> t1"
  by (auto simp: history_ok_def history_events_def sorted_append)

lemma length_box_history: "length (ballots (history_box s h)) \<le> length (history_events s h)"
  using length_box_run [of "buckets s" "history_events s h" empty_box]
  by (simp add: history_box_def empty_box_def)

definition ran :: "delivery \<Rightarrow> bool" where
  "ran d \<longleftrightarrow> (case d of Reply ns \<Rightarrow> True | NoReply ns \<Rightarrow> ran_before ns)"

lemma delivered_one:
  "delivered d [e] = replicate (case d of Reply ns \<Rightarrow> Suc (length (filter (\<lambda>n. 0 < n) ns))
     | NoReply ns \<Rightarrow> length (filter (\<lambda>n. 0 < n) ns)) e"
  by (simp add: delivered_def prefixes_one replicate_append_same split: delivery.split)

lemma history_box_vote:
  "history_box s (h @ [(d, now, t, Record_c cmd)]) =
     (if ran d then vote_box (buckets s) t cmd (history_box s h) else history_box s h)"
proof -
  let ?k = "case d of Reply ns \<Rightarrow> Suc (length (filter (\<lambda>n. 0 < n) ns))
     | NoReply ns \<Rightarrow> length (filter (\<lambda>n. 0 < n) ns)"
  have "history_box s (h @ [(d, now, t, Record_c cmd)]) =
      box_run (buckets s) (map (Pair t) (replicate ?k (cast_event s now cmd))) (history_box s h)"
    unfolding history_box_append by (simp only: history_events_def concat.simps list.map inv_events.simps
        call_events.simps delivered_one append_Nil2)
  also have "\<dots> = (if ?k = 0 then history_box s h else vote_box (buckets s) t cmd (history_box s h))"
    by (rule box_run_same) simp
  also have "(?k = 0) = (\<not> ran d)"
    by (simp add: ran_def ran_before_iff split: delivery.split)
  finally show ?thesis by simp
qed

section \<open>Closed gates\<close>

definition shut :: "nat \<Rightarrow> string \<Rightarrow> box \<Rightarrow> bool" where
  "shut n p bx \<longleftrightarrow> (\<forall>b < n. \<forall>v d. gate bx (p, b) = Some (v, d) \<longrightarrow> v \<noteq> ''active'')"

fun opens :: "string \<Rightarrow> event \<Rightarrow> bool" where
  "opens p (SetGate q b v ms) = (q = p \<and> v = ''active'')"
| "opens p e = False"

definition of_poll :: "string \<Rightarrow> ballot list \<Rightarrow> ballot list" where
  "of_poll p bl = filter (\<lambda>(q, h, ids). q = p) bl"

lemma poll_tally_of_poll: "poll_tally bl p f = poll_tally (of_poll p bl) p f"
  by (simp add: poll_tally_def of_poll_def case_prod_unfold conj_comms)

lemma ballot_totals_of_poll:
  "of_poll p bl = of_poll p bl' \<Longrightarrow> ballot_totals bl p ids now = ballot_totals bl' p ids now"
  unfolding ballot_totals_def
  using poll_tally_of_poll [of bl p] poll_tally_of_poll [of bl' p] by (simp cong: if_cong)

lemma shut_step:
  assumes "0 < n" and "shut n p bx" and "\<not> opens p e"
  shows "shut n p (fst (box_step n t e bx)) \<and>
    of_poll p (ballots (fst (box_step n t e bx))) = of_poll p (ballots bx)"
proof (cases e)
  case (SetGate q b v ms)
  with assms show ?thesis by (auto simp: shut_def)
next
  case (DropGates q)
  with assms show ?thesis by (auto simp: shut_def restrict_map_def)
next
  case (Cast q h ids ttl)
  have "\<not> gate_open bx t p (Bucket h n)"
    using assms Bucket_less [of n h] by (auto simp: gate_open_def shut_def split: option.split)
  with Cast assms show ?thesis by (auto simp: shut_def of_poll_def)
qed (use assms in simp_all)

lemma shut_run:
  assumes "0 < n" and "shut n p bx" and "\<forall>(t, e) \<in> set es. \<not> opens p e"
  shows "shut n p (box_run n es bx) \<and> of_poll p (ballots (box_run n es bx)) = of_poll p (ballots bx)"
  using assms(2,3)
proof (induction es arbitrary: bx)
  case Nil
  then show ?case by simp
next
  case (Cons te es)
  obtain t e where te: "te = (t, e)" by (cases te)
  with Cons.prems(2) have "\<not> opens p e" by simp
  note step = shut_step [OF assms(1) Cons.prems(1) this, of t]
  with Cons.IH [OF conjunct1 [OF step]] Cons.prems(2) te show ?case by simp
qed

text \<open>Setting a gate of one poll touches no ballot; setting them all leaves them all with that value.\<close>

lemma gates_run_ballots:
  "\<forall>(t, e) \<in> set es. \<exists>p b v ms. e = SetGate p b v ms \<Longrightarrow> ballots (box_run n es bx) = ballots bx"
proof (induction es arbitrary: bx)
  case Nil
  then show ?case by simp
next
  case (Cons te es)
  then show ?case by (cases te) (auto split: prod.splits)
qed

lemma gates_run_gate:
  "gate (box_run n (map (Pair t) (map (\<lambda>b. SetGate p b v ms) bs)) bx) (p, b) =
     (if b \<in> set bs then Some (v, ms_after t ms) else gate bx (p, b))"
  by (induction bs arbitrary: bx) auto

lemma close_shuts:
  "shut (buckets s) p (history_box s (h @ [(Reply ns, now, t, Close_c p e)])) \<and>
   ballots (history_box s (h @ [(Reply ns, now, t, Close_c p e)])) = ballots (history_box s h)"
proof -
  let ?es = "gate_events s p ''closed'' (TTL s e now)"
  let ?pre = "map (Pair t) (concat (map (\<lambda>n. take n ?es) ns))"
  have h: "history_box s (h @ [(Reply ns, now, t, Close_c p e)]) =
      box_run (buckets s) (map (Pair t) ?es) (box_run (buckets s) ?pre (history_box s h))"
    by (simp add: history_box_append history_events_def delivered_def box_run_append)
  have "shut (buckets s) p (box_run (buckets s) (map (Pair t) ?es) bx)" for bx
    unfolding gate_events_def by (simp add: shut_def gates_run_gate del: map_map list.map)
  moreover have "ballots (box_run (buckets s) (map (Pair t) ?es) (box_run (buckets s) ?pre bx)) = ballots bx" for bx
    by (subst gates_run_ballots, auto simp: gate_events_def dest: in_set_takeD)
       (subst gates_run_ballots, auto simp: gate_events_def dest!: in_set_takeD)
  ultimately show ?thesis by (simp add: h)
qed

definition opened_by :: "string \<Rightarrow> invocation \<Rightarrow> bool" where
  "opened_by p i = (case i of (d, now, t, Setup_c q e) \<Rightarrow> q = p | _ \<Rightarrow> False)"

lemma not_opened:
  assumes "\<forall>i \<in> set h. \<not> opened_by p i"
  shows "\<forall>(t, e) \<in> set (history_events s h). \<not> opens p e"
proof -
  have "\<not> opens p e" if "i \<in> set h" "(t, e) \<in> set (inv_events s i)" for i t e
  proof -
    obtain d now u c where i: "i = (d, now, u, c)" by (cases i)
    with that(2) have "e \<in> set (call_events s now c)" by (auto dest: subsetD [OF set_delivered])
    with assms that(1) i show ?thesis
      by (cases c) (auto simp: opened_by_def gate_events_def cast_event_def peek_events_def)
  qed
  then show ?thesis by (auto simp: history_events_def)
qed

lemma after_close_ballots:
  assumes "0 < buckets s" and "\<forall>i \<in> set h2. \<not> opened_by p i"
  shows "of_poll p (cast_ballots s (h1 @ [(Reply ns, now, t, Close_c p e)] @ h2)) = of_poll p (cast_ballots s h1)"
proof -
  let ?c = "h1 @ [(Reply ns, now, t, Close_c p e)]"
  have "history_box s (h1 @ [(Reply ns, now, t, Close_c p e)] @ h2) =
      box_run (buckets s) (history_events s h2) (history_box s ?c)"
    using history_box_append [of s ?c h2] by simp
  then show ?thesis
    using shut_run [OF assms(1) conjunct1 [OF close_shuts] not_opened [OF assms(2)], of s h1 ns now t e]
      close_shuts [of s p h1 ns now t e]
    by (simp add: cast_ballots_def)
qed

section \<open>A concrete store and history\<close>

text \<open>A poll of one hour is opened, a device votes (its script is sent twice), votes again, and the poll is
  closed and read.\<close>

definition demo_store :: "mem store" where
  "demo_store = \<lparr>client = Mem, buckets = 2, retention = 168 * Hour, maxTTL = 720 * Hour\<rparr>"

definition demo_vote :: vote_command where
  "demo_vote = \<lparr>vc_PollID = ''p'', vc_DeviceHash = ''d0'', vc_OptionIDs = [''a''], vc_EndsAt = Hour\<rparr>"

definition demo_open :: "invocation list" where
  "demo_open = [(Reply [], 0, 0, Setup_c ''p'' Hour)]"

definition demo_voted :: "invocation list" where
  "demo_voted = demo_open @ [(Reply [1], Second, Second, Record_c demo_vote)]"

definition demo_closed :: "invocation list" where
  "demo_closed = demo_voted @ [(Reply [], Minute, Minute, Close_c ''p'' Hour)] @
     [(Reply [], 2 * Minute, 2 * Minute, Record_c demo_vote)]"

lemmas demo_defs = demo_store_def demo_vote_def demo_open_def demo_voted_def demo_closed_def

lemma demo_ttls:
  "TTL demo_store Hour 0 = 169 * Hour" "TTL demo_store Hour Second = 169 * Hour - Second"
  "TTL demo_store Hour (2 * Minute) = 169 * Hour - 2 * Minute"
  by (simp_all add: TTL_def demo_store_def time_sub_exact dur_add_exact in64_def duration_unit_defs)

lemma demo_store_ok: "store_ok demo_store"
  by (simp add: store_ok_def demo_store_def duration_unit_defs)

lemma demo_TTL:
  "Hour < s_after Second (ceil_seconds (TTL demo_store Hour Second))"
  "Hour < s_after (2 * Minute) (ceil_seconds (TTL demo_store Hour (2 * Minute)))"
  using ceil_TTL_pos(2) [OF demo_store_ok, of Hour Second]
    ceil_TTL_pos(2) [OF demo_store_ok, of Hour "2 * Minute"]
  unfolding demo_ttls s_after_def by (simp_all add: duration_unit_defs)

lemma demo_ok:
  "history_ok demo_store 0 (Second) Hour (demo_open @ [(Reply [1], Second, Second, Record_c demo_vote)])"
  "history_ok demo_store 0 Minute Hour demo_voted"
  "history_ok demo_store 0 (3 * Minute) Hour demo_closed"
  using demo_TTL
  by (simp_all add: history_ok_def demo_defs store_ok_def duration_unit_defs plain_hash_def
      history_events_def delivered_def gate_events_def upt_rec numeral_2_eq_2)

lemma demo_mem: "redis_server (client demo_store) mem_look" "mem_look [] 0 = Map.empty"
  using mem.redis_server_axioms
  by (simp_all add: demo_store_def mem_look_def mem_get_def fun_eq_iff)

section \<open>Properties\<close>

text \<open>C1. Refinement: whatever calls any number of processes make in whatever order and however often
  the client library repeats their round trips, Redis holds at every later time exactly what the
  box of ballots says. A device has at most one ballot per poll; the gates are those of the box;
  a device's marker is there if and only if it has a ballot; and the counters of every bucket are
  the tallies of its ballots.\<close>

theorem history_refines_ballot_box:
  assumes "redis_server (client s) look" and "look r t0 = Map.empty"
    and "history_ok s t0 t1 T h"
  shows "distinct (voters (cast_ballots s h)) \<and>
    (\<forall>p b. look (store_run s h r) t1 (GateKey p b) =
       (case gate (history_box s h) (p, b) of None \<Rightarrow> None
        | Some (v, d) \<Rightarrow> if t1 < d then Some (RStr v, Some d) else None)) \<and>
    (\<forall>p h'. plain_hash h' \<longrightarrow>
       (look (store_run s h r) t1 (DedupKey p (Bucket h' (buckets s)) h') \<noteq> None) =
       ((p, h') \<in> set (voters (cast_ballots s h)))) \<and>
    (\<forall>p b. hash_of (look (store_run s h r) t1 (CountsKey p b)) =
       (\<lambda>f. if tally (buckets s) (cast_ballots s h) p b f = 0 then None
            else Some (itoa (int (tally (buckets s) (cast_ballots s h) p b f)))))"
proof -
  let ?m = "look (store_run s h r) t1" and ?bl = "cast_ballots s h" and ?n = "buckets s"
  have s: "sim ?n T (history_box s h) ?m t1"
    using redis_server.history_sim [OF assms(1) refl assms(2,3)] .
  then have g: "gates_match (history_box s h) ?m t1" and m: "markers_match ?n T ?bl ?m"
    and c: "counts_match ?n T ?bl ?m" by (simp_all add: sim_def cast_ballots_def)
  have marker: "(?m (DedupKey p (Bucket h' ?n) h') \<noteq> None) = ((p, h') \<in> set (voters ?bl))"
    if "plain_hash h'" for p h'
    using m that by (rule markers_match_iff)
  have "hash_of (?m (CountsKey p b)) = tally_hash ?n ?bl p b" for p b
    using counts_match_hash [OF c] by blast
  then have "hash_of (?m (CountsKey p b)) = (\<lambda>f. if tally ?n ?bl p b f = 0 then None
      else Some (itoa (int (tally ?n ?bl p b f))))" for p b
    by (simp add: tally_hash_def fun_eq_iff)
  with gates_matchD [OF g] marker cast_ballots_voters show ?thesis by blast
qed

theorem history_refines_ballot_box_witness:
  "distinct (voters (cast_ballots demo_store demo_closed)) \<and>
   (mem_look (store_run demo_store demo_closed []) (3 * Minute) (DedupKey ''p'' (Bucket ''d0'' 2) ''d0'') \<noteq> None) =
     ((''p'', ''d0'') \<in> set (voters (cast_ballots demo_store demo_closed)))"
  using history_refines_ballot_box [OF demo_mem demo_ok(3)]
  by (simp add: plain_hash_def demo_store_def)

text \<open>C5. Totals are the number of ballots of the poll, and of those the ballots that chose each
  option; an option never has more votes than there are participants.\<close>

theorem Totals_counts_the_ballots:
  assumes "redis_server (client s) look" and "look r t0 = Map.empty"
    and "history_ok s t0 t T h" and "parts \<notin> set ids"
  shows "\<exists>tot. snd (Totals s (Reply ns) now t p ids (store_run s h r)) = Inr tot \<and>
     tot_Participants tot = int (length (filter (\<lambda>(q, d, os). q = p) (cast_ballots s h))) \<and>
     dom (tot_Options tot) = set ids \<and>
     (\<forall>f. map_get (tot_Options tot) f =
        (if f \<in> set ids
         then int (length (filter (\<lambda>(q, d, os). q = p \<and> f \<in> set os) (cast_ballots s h))) else 0)) \<and>
     (\<forall>f. map_get (tot_Options tot) f \<le> tot_Participants tot) \<and> tot_AsOf tot = now"
proof -
  let ?tot = "ballot_totals (cast_ballots s h) p ids now"
  have "snd (Totals s (Reply ns) now t p ids (store_run s h r)) = Inr ?tot"
    using redis_server.Totals_history [OF assms(1) refl assms(2-4)] .
  then show ?thesis
    using poll_tally_option [OF _ assms(4), of _ "cast_ballots s h" p]
      option_le_parts [of p _ "cast_ballots s h"]
    by (intro exI [of _ ?tot])
       (auto simp: ballot_totals_def map_get_def poll_tally_parts dom_def)
qed

theorem Totals_counts_the_ballots_witness:
  "\<exists>tot. snd (Totals demo_store (Reply [3]) Minute Minute ''p'' [''a'', ''b'']
        (store_run demo_store demo_voted [])) = Inr tot \<and> dom (tot_Options tot) = {''a'', ''b''}"
  using Totals_counts_the_ballots [OF demo_mem demo_ok(2), of "[''a'', ''b'']" "[3]" Minute "''p''"]
  by auto

lemma Record_after_history:
  assumes "redis_server (client s) look" and "look r t0 = Map.empty"
    and "history_ok s t0 t T (h @ [(d, now, t, Record_c cmd)])"
  shows "cast_ballots s (h @ [(d, now, t, Record_c cmd)]) =
      (if ran d \<and> vote_answer (buckets s) t cmd (history_box s h) = Inr VoteRecorded
       then (vc_PollID cmd, vc_DeviceHash cmd, vc_OptionIDs cmd) # cast_ballots s h else cast_ballots s h) \<and>
    (case d of NoReply ns \<Rightarrow> \<exists>e. snd (Record s d now t cmd (store_run s h r)) = Inl e
     | Reply ns \<Rightarrow> snd (Record s d now t cmd (store_run s h r)) =
         (if ran_before ns \<and> vote_answer (buckets s) t cmd (history_box s h) = Inr VoteRecorded
          then Inr VoteAlreadyRecorded else vote_answer (buckets s) t cmd (history_box s h)))"
proof -
  note ok = history_ok_append [OF assms(3)]
  have sok: "store_ok s" using assms(3) by (simp add: history_ok_def)
  have bx: "sim (buckets s) T (history_box s h) (look (store_run s h r) t) t"
    using redis_server.history_sim [OF assms(1) refl assms(2)] ok by blast
  show ?thesis
  proof (cases d)
    case (NoReply ns)
    then show ?thesis
      by (simp add: cast_ballots_def history_box_vote vote_box_ballots Record_def deliver_def one_reply_def int_reply_def)
  next
    case (Reply ns)
    have "history_events s (h @ [(d, now, t, Record_c cmd)]) =
        history_events s h @ replicate (Suc (length (filter (\<lambda>n. 0 < n) ns))) (t, cast_event s now cmd)"
      unfolding Reply by (simp add: history_events_def delivered_one del: replicate_Suc)
    then have "int (length (ballots (history_box s h))) + int (length (filter (\<lambda>n. 0 < n) ns)) + 1 < 2 ^ 63"
      using assms(3) length_box_history [of s h] by (simp add: history_ok_def)
    from redis_server.Record_sim [OF assms(1) refl bx sok conjunct1 [OF conjunct2 [OF ok]] this] Reply
    show ?thesis
      by (simp add: cast_ballots_def history_box_vote vote_answer_again ran_def vote_box_ballots)
  qed
qed

text \<open>C2. Record answers what the ballot box decides - not active, already recorded, or recorded - and
  adds exactly one ballot when a vote is accepted, however often the client library sent the
  script again; after a lost reply the vote is counted at most once, and a retry by the client
  is then told that it was already recorded.\<close>

theorem Record_counts_once:
  assumes "redis_server (client s) look" and "look r t0 = Map.empty"
    and "history_ok s t0 t T (h @ [(d, now, t, Record_c cmd)])"
  shows "cast_ballots s (h @ [(d, now, t, Record_c cmd)]) =
      (if ran d \<and> vote_answer (buckets s) t cmd (history_box s h) = Inr VoteRecorded
       then (vc_PollID cmd, vc_DeviceHash cmd, vc_OptionIDs cmd) # cast_ballots s h else cast_ballots s h) \<and>
    (case d of NoReply ns \<Rightarrow> \<exists>e. snd (Record s d now t cmd (store_run s h r)) = Inl e
     | Reply ns \<Rightarrow> snd (Record s d now t cmd (store_run s h r)) =
         (if ran_before ns \<and> vote_answer (buckets s) t cmd (history_box s h) = Inr VoteRecorded
          then Inr VoteAlreadyRecorded else vote_answer (buckets s) t cmd (history_box s h)))"
  using assms by (rule Record_after_history)

theorem Record_counts_once_witness:
  "cast_ballots demo_store demo_voted = [(''p'', ''d0'', [''a''])] \<and>
   snd (Record demo_store (Reply [1]) Second Second demo_vote (store_run demo_store demo_open [])) =
     Inr VoteAlreadyRecorded"
proof -
  have box: "history_box demo_store demo_open =
      \<lparr>gate = [(''p'', 0) \<mapsto> (''active'', 169 * Hour), (''p'', 1) \<mapsto> (''active'', 169 * Hour)], ballots = []\<rparr>"
    unfolding history_box_def history_events_def demo_open_def
    by (simp add: delivered_def gate_events_def demo_ttls)
      (simp add: demo_store_def Mem_def mem_px_def ms_after_def empty_box_def upt_rec numeral_2_eq_2
        duration_unit_defs)
  have "Bucket ''d0'' 2 < 2" by (simp add: Bucket_less)
  then have "Bucket ''d0'' 2 = 0 \<or> Bucket ''d0'' 2 = 1" by linarith
  then have "vote_answer 2 Second demo_vote (history_box demo_store demo_open) = Inr VoteRecorded"
    by (auto simp: vote_answer_def box gate_open_def demo_vote_def voters_def duration_unit_defs)
  moreover have "ballots (history_box demo_store demo_open) = []" by (simp add: box)
  ultimately show ?thesis
    using Record_counts_once [OF demo_mem demo_ok(1)]
    by (simp add: demo_voted_def ran_def ran_before_def cast_ballots_def demo_vote_def demo_store_def)
qed

text \<open>C6. Once CloseGates has been answered, the totals of the poll stay what they were before it, until
  somebody sets up its gates again: no vote that arrives later is counted, whatever else
  happens in between. This is what makes the final snapshot final.\<close>

theorem totals_fixed_after_close:
  assumes "redis_server (client s) look" and "look r t0 = Map.empty"
    and "history_ok s t0 t1 T (h1 @ [(Reply ns, now, t, Close_c p e)] @ h2)"
    and "\<forall>i \<in> set h2. \<not> opened_by p i" and "parts \<notin> set ids"
  shows "snd (Totals s (Reply ns') now' t1 p ids
        (store_run s (h1 @ [(Reply ns, now, t, Close_c p e)] @ h2) r)) =
      Inr (ballot_totals (cast_ballots s h1) p ids now')"
proof -
  have "0 < buckets s" using assms(3) by (simp add: history_ok_def store_ok_def)
  from ballot_totals_of_poll [OF after_close_ballots [OF this assms(4)]]
    redis_server.Totals_history [OF assms(1) refl assms(2,3,5)]
  show ?thesis by simp
qed

theorem totals_fixed_after_close_witness:
  "snd (Totals demo_store (Reply []) 0 (3 * Minute) ''p'' [''a''] (store_run demo_store demo_closed [])) =
     Inr (ballot_totals (cast_ballots demo_store demo_voted) ''p'' [''a''] 0)"
  unfolding demo_closed_def
  by (rule totals_fixed_after_close [OF demo_mem demo_ok(3) [unfolded demo_closed_def]])
     (simp_all add: opened_by_def)

end
