(* ===== verification/Identity.thy ===== *)
theory Identity
  imports Go_Net Go_Base64 Go_Crypto Redis_Props
begin

text \<open>
  The package internal/identity: the signed device cookie (cookie.go), the hash of a device in
  a poll, and the hash of the client's network for the rate limit (network.go).
\<close>

section \<open>The device cookie\<close>

record cookie_manager =
  cm_key :: "byte list"
  cm_secure :: bool

record cookie =
  ck_Name :: string
  ck_Value :: string
  ck_Path :: string
  ck_HttpOnly :: bool
  ck_Secure :: bool
  ck_SameSiteLax :: bool
  ck_MaxAge :: int
  ck_Expires :: time

definition CookieName :: string where
  "CookieName = ''poll_device''"

definition cookie_sign :: "cookie_manager \<Rightarrow> string \<Rightarrow> string" where
  "cookie_sign m i =
     (let payload = ''v1.'' @ i
      in payload @ ''.'' @ b64_encode (hmac_sha256 (cm_key m) (bytes_of payload)))"

definition invalid_cookie :: err where
  "invalid_cookie = Other ''invalid cookie''"

definition cookie_verify :: "cookie_manager \<Rightarrow> string \<Rightarrow> err + string" where
  "cookie_verify m v =
     (case split (CHR ''.'') v of
        [a, i, s] \<Rightarrow>
          if a \<noteq> ''v1'' then Inl invalid_cookie
          else (case b64_decode i of
             None \<Rightarrow> Inl invalid_cookie
           | Some raw \<Rightarrow>
             if length raw \<noteq> 16 then Inl invalid_cookie
             else (case b64_decode s of
                None \<Rightarrow> Inl invalid_cookie
              | Some sig \<Rightarrow>
                if sig \<noteq> hmac_sha256 (cm_key m) (bytes_of (a @ ''.'' @ i)) then Inl invalid_cookie
                else Inr i))
      | _ \<Rightarrow> Inl invalid_cookie)"

text \<open>\<open>c\<close> is the value of the request's first cookie of that name; \<open>rnd\<close> is what \<open>rand.Read\<close> yields.\<close>

definition DeviceID ::
  "cookie_manager \<Rightarrow> time \<Rightarrow> byte list option \<Rightarrow> string option \<Rightarrow> err + string \<times> cookie option" where
  "DeviceID m now rnd c =
     (case (case c of None \<Rightarrow> Inl (Other ''http: named cookie not present'') | Some v \<Rightarrow> cookie_verify m v) of
        Inr i \<Rightarrow> Inr (i, None)
      | Inl _ \<Rightarrow>
        (case rnd of
           None \<Rightarrow> Inl (Other ''rand: read failed'')
         | Some b \<Rightarrow>
           let i = b64_encode b in
           Inr (i, Some \<lparr>ck_Name = CookieName, ck_Value = cookie_sign m i, ck_Path = ''/'', ck_HttpOnly = True,
             ck_Secure = cm_secure m, ck_SameSiteLax = True, ck_MaxAge = 365 * 24 * 60 * 60,
             ck_Expires = now + 365 * 24 * Hour\<rparr>)))"

definition DeviceHash :: "byte list \<Rightarrow> string \<Rightarrow> string \<Rightarrow> string" where
  "DeviceHash key pollID deviceID = hex_encode (hmac_sha256 key (bytes_of (pollID @ CHR 0x0A # deviceID)))"

text \<open>A device hash is a text that the keys of the store can hold.\<close>

lemma DeviceHash_plain [simp]: "plain_hash (DeviceHash key p d)"
  using hex_encode_is_hex is_hex_not_sep by (fastforce simp: plain_hash_def DeviceHash_def)

lemma DeviceHash_length: "length (DeviceHash key p d) = 64"
  by (simp add: DeviceHash_def)

lemma split_signed:
  assumes "CHR ''.'' \<notin> set i"
  shows "split (CHR ''.'') (''v1.'' @ i @ CHR ''.'' # b64_encode s) = [''v1'', i, b64_encode s]"
proof -
  have "CHR ''.'' \<notin> set (b64_encode s)" using b64_encode_plain by blast
  with assms show ?thesis
    using split_append_sep [of "CHR ''.''" "''v1''" "i @ CHR ''.'' # b64_encode s"]
      split_append_sep [of "CHR ''.''" i "b64_encode s"] split_no_sep [of "CHR ''.''" "b64_encode s"]
    by simp
qed

lemma verify_signed:
  assumes "b64_decode i = Some raw" and "length raw = 16" and "CHR ''.'' \<notin> set i" and "CHR ''.'' \<notin> set s"
  shows "cookie_verify m (''v1.'' @ i @ ''.'' @ s) =
    (if b64_decode s = Some (hmac_sha256 (cm_key m) (bytes_of (''v1.'' @ i))) then Inr i else Inl invalid_cookie)"
  using assms split_append_sep [of "CHR ''.''" "''v1''" "i @ CHR ''.'' # s"]
    split_append_sep [of "CHR ''.''" i s] split_no_sep [of "CHR ''.''" s]
  by (simp add: cookie_verify_def split: option.split)

lemma cookie_verify_Inr:
  assumes "cookie_verify m v = Inr i"
  shows "\<exists>raw s. v = ''v1.'' @ i @ ''.'' @ s \<and> b64_decode i = Some raw \<and> length raw = 16 \<and> CHR ''.'' \<notin> set i \<and>
    b64_decode s = Some (hmac_sha256 (cm_key m) (bytes_of (''v1.'' @ i)))"
proof -
  obtain a i' s where p: "split (CHR ''.'') v = [a, i', s]"
    using assms by (auto simp: cookie_verify_def split: list.splits)
  with assms have a: "a = ''v1''" "i' = i" and r: "\<exists>raw. b64_decode i = Some raw \<and> length raw = 16"
    and s: "b64_decode s = Some (hmac_sha256 (cm_key m) (bytes_of (''v1.'' @ i)))"
    by (auto simp: cookie_verify_def split: option.splits if_splits)
  have "v = ''v1'' @ CHR ''.'' # i @ CHR ''.'' # s"
    using join_split [of "CHR ''.''" v] p a by simp
  moreover have "CHR ''.'' \<notin> set i" using split_parts_no_sep [of i "CHR ''.''" v] p a by simp
  ultimately show ?thesis using r s by auto
qed

section \<open>The network of a client\<close>

definition network_text :: "string \<Rightarrow> string" where
  "network_text host =
     (case ParseIP host of
        None \<Rightarrow> ''invalid''
      | Some ip \<Rightarrow>
        (case To4 ip of
           Some ip4 \<Rightarrow> ip_text (and_bytes ip4 (CIDRMask 24 32)) @ ''/24''
         | None \<Rightarrow> ip_text (and_bytes ip (CIDRMask 56 128)) @ ''/56''))"

definition remote_host :: "string \<Rightarrow> string" where
  "remote_host remoteAddr = (case split_host remoteAddr of Some h \<Rightarrow> h | None \<Rightarrow> remoteAddr)"

definition trusted_proxy :: "ip_net list \<Rightarrow> string \<Rightarrow> bool" where
  "trusted_proxy proxies host =
     (case ParseIP host of None \<Rightarrow> False | Some ip \<Rightarrow> list_ex (\<lambda>n. net_contains n ip) proxies)"

text \<open>\<open>xff\<close> is the request's X-Forwarded-For header, empty when there is none.\<close>

definition client_host :: "string \<Rightarrow> string \<Rightarrow> ip_net list \<Rightarrow> string" where
  "client_host remoteAddr xff proxies =
     (let host = remote_host remoteAddr;
          forwarded = trim_space (hd (split (CHR '','') xff))
      in if trusted_proxy proxies host \<and> forwarded \<noteq> [] then forwarded else host)"

definition NetworkHash :: "string \<Rightarrow> string \<Rightarrow> byte list \<Rightarrow> ip_net list \<Rightarrow> string" where
  "NetworkHash remoteAddr xff key proxies =
     b64_encode (hmac_sha256 key (bytes_of (''rate'' @ CHR 0x0A # network_text (client_host remoteAddr xff proxies))))"

lemma split_join:
  assumes "\<forall>p \<in> set ps. c \<notin> set p" and "ps \<noteq> []"
  shows "split c (join c ps) = ps"
  using assms
proof (induction c ps rule: join.induct)
  case (3 c p q ps)
  then show ?case by (simp add: split_append_sep)
qed (simp_all add: split_no_sep)

lemma ipv4_text_inject:
  assumes "length b = 4" and "length b' = 4"
  shows "ipv4_text b = ipv4_text b' \<longleftrightarrow> b = b'"
proof
  assume e: "ipv4_text b = ipv4_text b'"
  let ?t = "map (\<lambda>x :: byte. itoa_nat (unat x))"
  have "\<forall>p \<in> set (?t x). CHR ''.'' \<notin> set p" for x
    by (auto dest!: itoa_nat_digits simp: is_digit_def)
  then have "split (CHR ''.'') (ipv4_text x) = ?t x" if "length x = 4" for x
    unfolding ipv4_text_def using that by (intro split_join) auto
  with e assms have "?t b = ?t b'" by metis
  moreover have "inj (\<lambda>x :: byte. itoa_nat (unat x))" by (simp add: inj_def word_unat_eq_iff)
  ultimately show "b = b'" by (simp add: inj_map_eq_map)
qed simp

lemma and_mask24: "and_bytes [a, b, c, d] (CIDRMask 24 32) = [a, b, c, 0]"
proof -
  have "CIDRMask 24 32 = [255, 255, 255, 0]" by (simp add: CIDRMask_def upt_rec)
  moreover have "x AND 255 = x" for x :: byte
  proof -
    have "(255 :: byte) = - 1" by simp
    then show ?thesis by (simp only: and.right_neutral)
  qed
  ultimately show ?thesis by (simp add: and_bytes_def)
qed

lemma network_text_v4:
  assumes "ParseIP h = Some (v4_prefix @ [a, b, c, d])"
  shows "network_text h = ipv4_text [a, b, c, 0] @ ''/24''"
  using assms by (simp add: network_text_def To4_def v4_prefix_def and_mask24 ip_text_def)

section \<open>Claims\<close>

lemma sign_verifies:
  assumes "length b = 16"
  shows "cookie_verify m (cookie_sign m (b64_encode b)) = Inr (b64_encode b)"
  using verify_signed [of "b64_encode b" b "b64_encode (hmac_sha256 (cm_key m) (bytes_of (''v1.'' @ b64_encode b)))" m]
    assms b64_encode_plain b64_decode_encode
  by (auto simp: cookie_sign_def Let_def)

text \<open>C35. The cookie that DeviceID sets for a new device gives that device's ID back in every later request and
  sets no new cookie; and whatever cookie value is accepted holds the ID that it gives with the
  HMAC of that ID under the server's key, so that no ID is accepted which was not signed.\<close>

theorem device_cookie_round_trip:
  assumes "length b = 16" and "DeviceID m now (Some b) c = Inr (i, Some ck)"
  shows "DeviceID m now' rnd (Some (ck_Value ck)) = Inr (i, None) \<and> ck_HttpOnly ck \<and> ck_Secure ck = cm_secure m \<and>
    (\<forall>v j. DeviceID m now' rnd (Some v) = Inr (j, None) \<longrightarrow>
       (\<exists>s. v = ''v1.'' @ j @ ''.'' @ s \<and> b64_decode s = Some (hmac_sha256 (cm_key m) (bytes_of (''v1.'' @ j)))))"
proof -
  have i: "i = b64_encode b" and v: "ck_Value ck = cookie_sign m (b64_encode b)" and f: "ck_HttpOnly ck" "ck_Secure ck = cm_secure m"
    using assms(2) by (auto simp: DeviceID_def Let_def split: sum.splits)
  have "cookie_verify m v = Inr j" if "DeviceID m now' rnd (Some v) = Inr (j, None)" for v j
    using that by (auto simp: DeviceID_def Let_def split: sum.splits option.splits)
  with cookie_verify_Inr show ?thesis
    by (fastforce simp: i v f DeviceID_def sign_verifies [OF assms(1)])
qed

definition demo_cookies :: cookie_manager where
  "demo_cookies = \<lparr>cm_key = replicate 32 7, cm_secure = True\<rparr>"

theorem device_cookie_round_trip_witness:
  "\<exists>i ck. DeviceID demo_cookies 0 (Some (replicate 16 1)) None = Inr (i, Some ck) \<and>
     DeviceID demo_cookies 5 None (Some (ck_Value ck)) = Inr (i, None)"
proof -
  obtain i ck where d: "DeviceID demo_cookies 0 (Some (replicate 16 1)) None = Inr (i, Some ck)"
    by (auto simp: DeviceID_def Let_def)
  from device_cookie_round_trip [OF _ this, of 5 None] d show ?thesis by auto
qed

text \<open>A cookie whose last character was changed can be accepted: the last character of the signature has two
  bits that the decoder drops.\<close>

lemma b64_32:
  assumes "length bs = 32"
  shows "\<exists>s x y z. b64_encode bs = s @ [x, y, z] \<and> length s = 40"
proof -
  have "length (drop 40 (b64_encode bs)) = 3" using assms by (simp add: length_b64_encode)
  then obtain x y z where "drop 40 (b64_encode bs) = [x, y, z]"
    by (auto simp: length_Suc_conv numeral_3_eq_3 simp del: length_drop)
  then have "b64_encode bs = take 40 (b64_encode bs) @ [x, y, z]" by (metis append_take_drop_id)
  moreover have "length (take 40 (b64_encode bs)) = 40" using assms by (simp add: length_b64_encode)
  ultimately show ?thesis by blast
qed

theorem tampered_cookie_accepted:
  assumes "length b = 16" and "cookie_sign m (b64_encode b) = v @ ''w''"
  shows "cookie_verify m (v @ ''x'') = Inr (b64_encode b)"
proof -
  let ?i = "b64_encode b" and ?mac = "hmac_sha256 (cm_key m) (bytes_of (''v1.'' @ b64_encode b))"
  obtain s x y z where e: "b64_encode ?mac = s @ [x, y, z]" "length s = 40" using b64_32 [of ?mac] by auto
  have "last (cookie_sign m ?i) = z" using e(1) by (simp add: cookie_sign_def Let_def)
  with assms(2) have z: "z = CHR ''w''" by simp
  note e = e [unfolded z]
  then have v: "v = ''v1.'' @ ?i @ ''.'' @ s @ [x, y]" using assms(2) by (simp add: cookie_sign_def Let_def)
  have plain: "\<not> line_break c \<and> c \<noteq> CHR ''.''" if "c \<in> set (s @ [x, y])" for c
    using b64_encode_plain [of c ?mac] that e(1) by auto
  have id: "filter (\<lambda>c. \<not> line_break c) (s @ [x, y]) = s @ [x, y]" using plain by (simp only: filter_id_conv) blast
  have "b64_quanta (s @ [x, y, CHR ''w'']) = Some ?mac" using b64_quanta_encode [of ?mac] e(1) by simp
  moreover have "b64_quanta [x, y, CHR ''x''] = b64_quanta [x, y, CHR ''w'']"
    by (rule b64_quanta_last3 [of _ 49 _ 48]) (simp_all add: b64_val_def)
  ultimately have "b64_quanta (s @ [x, y, CHR ''x'']) = Some ?mac"
    using b64_quanta_append4 [of s "[x, y, CHR ''x'']"] b64_quanta_append4 [of s "[x, y, CHR ''w'']"] e(2)
    by (simp only:) simp
  moreover have "filter (\<lambda>c. \<not> line_break c) (s @ [x, y, CHR ''x'']) = s @ [x, y, CHR ''x'']"
    using id by (auto simp: line_break_def)
  ultimately have "b64_decode (s @ [x, y, CHR ''x'']) = Some ?mac" by (simp add: b64_decode_def)
  moreover have "CHR ''.'' \<notin> set (s @ [x, y, CHR ''x''])" using plain by auto
  moreover have "CHR ''.'' \<notin> set ?i" using b64_encode_plain by blast
  ultimately show ?thesis
    using verify_signed [OF b64_decode_encode assms(1), of "s @ [x, y, CHR ''x'']" m] by (simp add: v)
qed

text \<open>C36. A client that does not come through a trusted proxy cannot choose its rate limit key: the forwarded
  header is ignored. And all addresses of one IPv4 /24 network share a key, which is made of
  that network only; another /24 network has another text under the HMAC.\<close>

theorem network_key_is_the_network:
  assumes "ParseIP (client_host ra xff ps) = Some (v4_prefix @ [a, b, c, d])"
    and "ParseIP (client_host ra' xff' ps') = Some (v4_prefix @ [a', b', c', d'])"
  shows "(\<not> trusted_proxy ps (remote_host ra) \<longrightarrow> NetworkHash ra h key ps = NetworkHash ra '''' key ps) \<and>
    ((a, b, c) = (a', b', c') \<longrightarrow> NetworkHash ra xff key ps = NetworkHash ra' xff' key ps') \<and>
    (network_text (client_host ra xff ps) = network_text (client_host ra' xff' ps') \<longleftrightarrow> (a, b, c) = (a', b', c'))"
  using network_text_v4 [OF assms(1)] network_text_v4 [OF assms(2)]
  by (simp add: NetworkHash_def client_host_def [of ra h] client_host_def [of ra "''''"] ipv4_text_inject)

theorem network_key_is_the_network_witness:
  "NetworkHash ''192.0.2.10:1234'' ''203.0.113.8'' (replicate 32 7) [] = NetworkHash ''192.0.2.99:9999'' '''' (replicate 32 7) []"
proof -
  have h: "client_host ''192.0.2.10:1234'' x [] = ''192.0.2.10''" "client_host ''192.0.2.99:9999'' x [] = ''192.0.2.99''" for x
    by (simp_all add: client_host_def remote_host_def trusted_proxy_def split_host_def cut_last_def cut_def Let_def
        split: option.split)
  have "ParseIP ''192.0.2.10'' = Some (v4_prefix @ [192, 0, 2, 10])"
    and "ParseIP ''192.0.2.99'' = Some (v4_prefix @ [192, 0, 2, 99])"
    by (simp_all add: ParseIP_def parse_addr_def parse_ipv4_def parse_octet_def is_digit_def)
  then show ?thesis
    using network_key_is_the_network [of "''192.0.2.10:1234''" "''203.0.113.8''" "[]" 192 0 2 10
        "''192.0.2.99:9999''" "''''" "[]" 192 0 2 99 "''''" "replicate 32 7"]
    by (simp add: h)
qed

text \<open>A proxy that appends the address of its peer to the header lets the client choose its key: only the
  first element counts, which is the client's own text.\<close>

theorem forwarded_header_chooses_network:
  assumes "trusted_proxy ps (remote_host ra)" and "CHR '','' \<notin> set spoof" and "trim_space spoof \<noteq> []"
  shows "client_host ra (spoof @ '','' @ appended) ps = trim_space spoof"
  using assms split_append_sep [of "CHR '',''" spoof appended] by (simp add: client_host_def Let_def)

end
