(* ===== verification/Services.thy ===== *)
theory Services
  imports Cache_Threads Identity
begin

text \<open>
  The package internal/service: the interfaces that the services call, as records of operations on a
  state \<open>'s\<close> (poll_service.go, vote_service.go, result_service.go), and the operations of
  \<open>PollService\<close>, \<open>VoteService\<close> and \<open>ResultService\<close>. An operation threads the state behind the
  interfaces and the poll cache of its process; readings of the clock are arguments.
\<close>

section \<open>The interfaces\<close>

record 's poll_repository =
  i_Create :: "create_poll \<Rightarrow> 's \<Rightarrow> 's \<times> (err + poll)"
  i_ListRecent :: "nat \<Rightarrow> 's \<Rightarrow> 's \<times> (err + poll list)"
  i_GetByID :: "string \<Rightarrow> 's \<Rightarrow> 's \<times> (err + poll)"
  i_GetBySlug :: "string \<Rightarrow> 's \<Rightarrow> 's \<times> (err + poll)"
  i_Publish :: "string \<Rightarrow> time \<Rightarrow> 's \<Rightarrow> 's \<times> (err + poll)"
  i_RevertPublish :: "string \<Rightarrow> time \<Rightarrow> 's \<Rightarrow> 's \<times> err option"

record 's gate_store =
  i_SetupGates :: "string \<Rightarrow> time \<Rightarrow> 's \<Rightarrow> 's \<times> err option"
  i_DeleteGates :: "string \<Rightarrow> 's \<Rightarrow> 's \<times> err option"

type_synonym 's poll_loader = "string \<Rightarrow> 's \<Rightarrow> 's \<times> (err + poll)"
type_synonym 's vote_store = "vote_command \<Rightarrow> 's \<Rightarrow> 's \<times> (err + vote_status)"

record 's result_repository =
  j_GetByID :: "string \<Rightarrow> 's \<Rightarrow> 's \<times> (err + poll)"
  j_SaveSnapshot :: "poll \<Rightarrow> totals \<Rightarrow> bool \<Rightarrow> 's \<Rightarrow> 's \<times> (err + poll_result)"
  j_LoadResult :: "string \<Rightarrow> 's \<Rightarrow> 's \<times> (err + poll_result)"

record 's result_store =
  j_Totals :: "string \<Rightarrow> string list \<Rightarrow> 's \<Rightarrow> 's \<times> (err + totals)"
  j_CloseGates :: "string \<Rightarrow> time \<Rightarrow> 's \<Rightarrow> 's \<times> err option"
  j_AcquireSnapshotLock :: "string \<Rightarrow> string \<Rightarrow> duration \<Rightarrow> 's \<Rightarrow> 's \<times> (err + bool)"
  j_ReleaseSnapshotLock :: "string \<Rightarrow> string \<Rightarrow> 's \<Rightarrow> 's \<times> err option"

section \<open>PollService\<close>

definition PollService_Create :: "'s poll_repository \<Rightarrow> create_poll \<Rightarrow> 's \<Rightarrow> 's \<times> (err + poll)" where
  "PollService_Create R input s = i_Create R input s"

definition PollService_ListRecent :: "'s poll_repository \<Rightarrow> nat \<Rightarrow> 's \<Rightarrow> 's \<times> (err + poll list)" where
  "PollService_ListRecent R limit s = i_ListRecent R limit s"

definition PollService_GetByID :: "'s poll_repository \<Rightarrow> string \<Rightarrow> 's \<Rightarrow> 's \<times> (err + poll)" where
  "PollService_GetByID R i s = i_GetByID R i s"

text \<open>\<open>clk\<close> is the clock at the start, \<open>clk'\<close> the clock when the poll is put into the cache.\<close>

definition PollService_Publish ::
  "'s poll_repository \<Rightarrow> 's gate_store \<Rightarrow> time \<Rightarrow> time \<Rightarrow> string \<Rightarrow> 's \<times> poll_cache \<Rightarrow> ('s \<times> poll_cache) \<times> (err + poll)" where
  "PollService_Publish R G clk clk' i st =
     (let (s, c) = st; now = Prelude.truncate clk Microsecond in
      case i_Publish R i now s of
        (s1, Inl e) \<Rightarrow> ((s1, c), Inl e)
      | (s1, Inr p) \<Rightarrow>
        (case i_SetupGates G (ID p) (EndsAt p) s1 of
           (s2, Some e) \<Rightarrow>
             ((if PublishedAt p = Some now then
                 (case i_RevertPublish R (ID p) now s2 of
                    (s3, None) \<Rightarrow> fst (i_DeleteGates G (ID p) s3)
                  | (s3, Some _) \<Rightarrow> s3)
               else s2, c), Inl e)
         | (s2, None) \<Rightarrow> ((s2, cache_put clk' p c), Inr p)))"

text \<open>\<open>p.Status != Active || now.Before(p.StartsAt) || !now.Before(p.EndsAt)\<close>, negated.\<close>

definition running :: "poll \<Rightarrow> time \<Rightarrow> bool" where
  "running p now \<longleftrightarrow> Status p = Active \<and> \<not> now < StartsAt p \<and> now < EndsAt p"

definition PollService_PublicBySlug :: "'s poll_repository \<Rightarrow> string \<Rightarrow> time \<Rightarrow> 's \<Rightarrow> 's \<times> (err + poll)" where
  "PollService_PublicBySlug R slug now s =
     (case i_GetBySlug R slug s of
        (s', Inl e) \<Rightarrow> (s', Inl e)
      | (s', Inr p) \<Rightarrow> (s', if running p now then Inr p else Inl (Sentinel ErrNotFound)))"

section \<open>VoteService\<close>

definition vote_loader :: "'s poll_loader \<Rightarrow> string \<Rightarrow> 's \<Rightarrow> 's \<times> (err + poll)" where
  "vote_loader L i s =
     (case L i s of
        (s', Inl e) \<Rightarrow> (s', Inl e)
      | (s', Inr p) \<Rightarrow> (s', if Status p \<noteq> Active then Inl (Sentinel ErrNotActive) else Inr p))"

definition VoteService_Vote ::
  "'s poll_loader \<Rightarrow> 's vote_store \<Rightarrow> byte list \<Rightarrow> time \<Rightarrow> time \<Rightarrow> string \<Rightarrow> string \<Rightarrow> string list \<Rightarrow> time
     \<Rightarrow> 's \<times> poll_cache \<Rightarrow> ('s \<times> poll_cache) \<times> (err + vote_status)" where
  "VoteService_Vote L V key clk clk' pollID deviceID ids now st =
     (case cache_get clk clk' pollID (vote_loader L) st of
        (st', Inl e) \<Rightarrow> (st', Inl e)
      | ((s, c), Inr p) \<Rightarrow>
        if \<not> running p now then ((s, c), Inl (Sentinel ErrNotActive))
        else (case ValidateSelection p ids of
           Some e \<Rightarrow> ((s, c), Inl e)
         | None \<Rightarrow>
           (let (s', x) = V \<lparr>vc_PollID = ID p, vc_DeviceHash = DeviceHash key (ID p) deviceID,
                             vc_OptionIDs = ids, vc_EndsAt = EndsAt p\<rparr> s
            in ((s', c), x))))"

section \<open>ResultService\<close>

definition optionIDs :: "poll \<Rightarrow> string list" where
  "optionIDs p = map opt_ID (Options p)"

text \<open>An error is returned next to a poll or a result that no caller looks at: only the error is kept.\<close>

definition with_poll :: "poll \<Rightarrow> err + 'a \<Rightarrow> err + poll \<times> 'a" where
  "with_poll p x = (case x of Inl e \<Rightarrow> Inl e | Inr r \<Rightarrow> Inr (p, r))"

definition ResultService_Results ::
  "'s result_repository \<Rightarrow> 's result_store \<Rightarrow> string \<Rightarrow> 's \<Rightarrow> 's \<times> (err + poll \<times> poll_result)" where
  "ResultService_Results R S i s =
     (case j_GetByID R i s of
        (s1, Inl e) \<Rightarrow> (s1, Inl e)
      | (s1, Inr p) \<Rightarrow>
        if Status p = Closed then (let (s2, x) = j_LoadResult R i s1 in (s2, with_poll p x))
        else if Status p \<noteq> Active then (s1, Inl (Sentinel ErrInvalidTransition))
        else (case j_Totals S i (optionIDs p) s1 of
           (s2, Inl e) \<Rightarrow> (s2, Inl e)
         | (s2, Inr t) \<Rightarrow> (s2, Inr (p, \<lparr>res_PollID = i, res_Status = Status p, res_Source = redis_live,
             res_AsOf = tot_AsOf t, res_FinalizedAt = None, res_Participants = tot_Participants t,
             res_Options = tot_Options t\<rparr>))))"

definition ResultService_Close ::
  "'s result_repository \<Rightarrow> 's result_store \<Rightarrow> string \<Rightarrow> 's \<times> poll_cache \<Rightarrow> ('s \<times> poll_cache) \<times> (err + poll \<times> poll_result)" where
  "ResultService_Close R S i st =
     (let (s, c) = st in
      case j_GetByID R i s of
        (s1, Inl e) \<Rightarrow> ((s1, c), Inl e)
      | (s1, Inr p) \<Rightarrow>
        if Status p = Closed then (let (s2, x) = j_LoadResult R i s1 in ((s2, c), with_poll p x))
        else if Status p \<noteq> Active then ((s1, c), Inl (Sentinel ErrInvalidTransition))
        else (case j_CloseGates S (ID p) (EndsAt p) s1 of
           (s2, Some e) \<Rightarrow> ((s2, c), Inl e)
         | (s2, None) \<Rightarrow>
           (case j_Totals S (ID p) (optionIDs p) s2 of
              (s3, Inl e) \<Rightarrow> ((s3, c), Inl e)
            | (s3, Inr t) \<Rightarrow>
              (case j_SaveSnapshot R p t True s3 of
                 (s4, Inl e) \<Rightarrow> ((s4, c), Inl e)
               | (s4, Inr r) \<Rightarrow>
                 ((s4, cache_delete i c), Inr (p\<lparr>Status := Closed, ClosedAt := res_FinalizedAt r\<rparr>, r))))))"

text \<open>\<open>rnd\<close> is what \<open>rand.Read\<close> yields for the token. The deferred release runs last.\<close>

definition ResultService_Snapshot ::
  "'s result_repository \<Rightarrow> 's result_store \<Rightarrow> byte list option \<Rightarrow> poll \<Rightarrow> 's \<Rightarrow> 's \<times> err option" where
  "ResultService_Snapshot R S rnd p s =
     (case NewUUID rnd of
        Inl e \<Rightarrow> (s, Some e)
      | Inr token \<Rightarrow>
        (case j_AcquireSnapshotLock S (ID p) token (4 * Second) s of
           (s1, Inl e) \<Rightarrow> (s1, Some e)
         | (s1, Inr locked) \<Rightarrow>
           if \<not> locked then (s1, None)
           else
             (let (s2, x) =
                (case j_Totals S (ID p) (optionIDs p) s1 of
                   (s2, Inl e) \<Rightarrow> (s2, Some e)
                 | (s2, Inr t) \<Rightarrow>
                   (case j_SaveSnapshot R p t False s2 of
                      (s3, Inl e) \<Rightarrow> (s3, Some e)
                    | (s3, Inr r) \<Rightarrow> (s3, None)))
              in (fst (j_ReleaseSnapshotLock S (ID p) token s2), x))))"

section \<open>The snapshot worker (internal/worker/snapshot.go)\<close>

text \<open>The counters that the observer keeps.\<close>

record observed =
  snapshot_successes :: nat
  snapshot_errors :: nat

text \<open>The loop of \<open>run\<close> over the active polls; \<open>rnd k\<close> belongs to the k-th snapshot, whose operations see
  the state through the k-th interfaces.\<close>

fun run_polls ::
  "(nat \<Rightarrow> poll \<Rightarrow> 's \<Rightarrow> 's \<times> err option) \<Rightarrow> nat \<Rightarrow> poll list \<Rightarrow> 's \<Rightarrow> observed \<Rightarrow> 's \<times> observed" where
  "run_polls snap k [] s ob = (s, ob)"
| "run_polls snap k (p # ps) s ob =
     (case snap k p s of
        (s', Some e) \<Rightarrow> run_polls snap (Suc k) ps s' (ob\<lparr>snapshot_errors := Suc (snapshot_errors ob)\<rparr>)
      | (s', None) \<Rightarrow> run_polls snap (Suc k) ps s' (ob\<lparr>snapshot_successes := Suc (snapshot_successes ob)\<rparr>))"

definition worker_run ::
  "('s \<Rightarrow> 's \<times> (err + poll list)) \<Rightarrow> (nat \<Rightarrow> poll \<Rightarrow> 's \<Rightarrow> 's \<times> err option) \<Rightarrow> 's \<Rightarrow> observed \<Rightarrow> 's \<times> observed" where
  "worker_run list_active snap s ob =
     (case list_active s of
        (s', Inl e) \<Rightarrow> (s', ob\<lparr>snapshot_errors := Suc (snapshot_errors ob)\<rparr>)
      | (s', Inr ps) \<Rightarrow> run_polls snap 0 ps s' ob)"

text \<open>\<open>Run\<close>: one \<open>run\<close> for every tick until the context is done.\<close>

datatype signal = Tick_at nat | Context_done

fun worker_loop ::
  "(nat \<Rightarrow> 's \<Rightarrow> 's \<times> (err + poll list)) \<Rightarrow> (nat \<Rightarrow> nat \<Rightarrow> poll \<Rightarrow> 's \<Rightarrow> 's \<times> err option) \<Rightarrow> signal list
     \<Rightarrow> 's \<Rightarrow> observed \<Rightarrow> 's \<times> observed" where
  "worker_loop la snap [] s ob = (s, ob)"
| "worker_loop la snap (Context_done # xs) s ob = (s, ob)"
| "worker_loop la snap (Tick_at n # xs) s ob =
     (let (s', ob') = worker_run (la n) (snap n) s ob in worker_loop la snap xs s' ob')"

end
