(* ===== verification/Service_World.thy ===== *)
theory Service_World
  imports Services
begin

text \<open>
  The services of an API process in front of the shared PostgreSQL and Redis. The world is the tables,
  the Redis server and its clock; \<open>w_calls\<close> records the calls that were made to the store. Every
  call of a service finds the world as the other processes left it: their calls to the store and
  their writes to the tables, in any number and order, are data of the environment, and so are the
  failures of the call itself.
\<close>

section \<open>The world and what the others do\<close>

record 'r world =
  w_db :: db
  w_redis :: 'r
  w_now :: time
  w_calls :: "invocation list"

record interference =
  o_writes :: "db_write list"
  o_calls :: "invocation list"
  o_later :: duration

definition none_else :: interference where
  "none_else = \<lparr>o_writes = [], o_calls = [], o_later = 0\<rparr>"

text \<open>Of the writes listed, those happen that a process can make (\<open>write_ok\<close>).\<close>

definition db_run :: "repo \<Rightarrow> db_write list \<Rightarrow> db \<Rightarrow> db" where
  "db_run c ws d = foldl (\<lambda>d w. if write_ok c w d then db_do c w d else d) d ws"

definition others :: "repo \<Rightarrow> 'r store \<Rightarrow> interference \<Rightarrow> 'r world \<Rightarrow> 'r world" where
  "others c s o' w = w\<lparr>w_db := db_run c (o_writes o') (w_db w), w_redis := store_run s (o_calls o') (w_redis w),
     w_now := w_now w + o_later o', w_calls := w_calls w @ o_calls o'\<rparr>"

section \<open>Calls of the services\<close>

datatype svc_call = C_Create | C_List | C_Get | C_Slug | C_Publish | C_Setup | C_Revert | C_Drop | C_Record
  | C_Totals | C_Close | C_Save | C_Load | C_Acquire | C_Release | C_ListActive | C_Allow | C_PingDB | C_PingRedis

text \<open>What surrounds one call: what the others did before it and, for the calls of several statements, within
  it; its failures; its delivery to Redis; the clock of the process; the random bytes.\<close>

record call_env =
  before :: interference
  inside :: "nat \<Rightarrow> db_write list"
  failing :: faults
  link :: delivery
  api_now :: time
  random :: "nat \<Rightarrow> byte list option"

type_synonym environment = "svc_call \<Rightarrow> call_env"

definition on_db :: "repo \<Rightarrow> 'r store \<Rightarrow> call_env \<Rightarrow> (db \<Rightarrow> db \<times> 'a) \<Rightarrow> 'r world \<Rightarrow> 'r world \<times> 'a" where
  "on_db c s e op w =
     (let w1 = others c s (before e) w; (d, x) = op (w_db w1) in (w1\<lparr>w_db := d\<rparr>, x))"

definition on_redis :: "repo \<Rightarrow> 'r store \<Rightarrow> call_env \<Rightarrow> call \<Rightarrow> (time \<Rightarrow> 'r \<Rightarrow> 'r \<times> 'a) \<Rightarrow> 'r world \<Rightarrow> 'r world \<times> 'a" where
  "on_redis c s e k op w =
     (let w1 = others c s (before e) w; (r, x) = op (w_now w1) (w_redis w1)
      in (w1\<lparr>w_redis := r, w_calls := w_calls w1 @ [(link e, api_now e, w_now w1, k)]\<rparr>, x))"

definition reading :: "(db \<Rightarrow> 'a) \<Rightarrow> db \<Rightarrow> db \<times> 'a" where
  "reading f d = (d, f d)"

section \<open>The interfaces on the world\<close>

definition live_polls :: "repo \<Rightarrow> 'r store \<Rightarrow> environment \<Rightarrow> 'r world poll_repository" where
  "live_polls c s E = \<lparr>
     i_Create = (\<lambda>input. on_db c s (E C_Create)
       (Create c (failing (E C_Create)) (random (E C_Create)) (api_now (E C_Create)) input)),
     i_ListRecent = (\<lambda>n. on_db c s (E C_List) (reading (ListRecent c (failing (E C_List)) n))),
     i_GetByID = (\<lambda>i. on_db c s (E C_Get) (reading (GetByID c (failing (E C_Get)) i))),
     i_GetBySlug = (\<lambda>i. on_db c s (E C_Slug) (reading (GetBySlug c (failing (E C_Slug)) i))),
     i_Publish = (\<lambda>i now. on_db c s (E C_Publish)
       (Publish c (failing (E C_Publish)) (db_run c (inside (E C_Publish) 0)) i now)),
     i_RevertPublish = (\<lambda>i t. on_db c s (E C_Revert)
       (RevertPublish c (failing (E C_Revert)) (api_now (E C_Revert)) i t))\<rparr>"

definition live_gates :: "repo \<Rightarrow> 'r store \<Rightarrow> environment \<Rightarrow> 'r world gate_store" where
  "live_gates c s E = \<lparr>
     i_SetupGates = (\<lambda>p e. on_redis c s (E C_Setup) (Setup_c p e)
       (\<lambda>t. SetupGates s (link (E C_Setup)) (api_now (E C_Setup)) t p e)),
     i_DeleteGates = (\<lambda>p. on_redis c s (E C_Drop) (Delete_c p) (\<lambda>t. DeleteGates s (link (E C_Drop)) t p))\<rparr>"

definition live_loader :: "repo \<Rightarrow> 'r store \<Rightarrow> environment \<Rightarrow> 'r world poll_loader" where
  "live_loader c s E i = on_db c s (E C_Get) (reading (GetByID c (failing (E C_Get)) i))"

definition live_votes :: "repo \<Rightarrow> 'r store \<Rightarrow> environment \<Rightarrow> 'r world vote_store" where
  "live_votes c s E cmd = on_redis c s (E C_Record) (Record_c cmd)
     (\<lambda>t. Record s (link (E C_Record)) (api_now (E C_Record)) t cmd)"

definition live_results :: "repo \<Rightarrow> 'r store \<Rightarrow> environment \<Rightarrow> 'r world result_repository" where
  "live_results c s E = \<lparr>
     j_GetByID = (\<lambda>i. on_db c s (E C_Get) (reading (GetByID c (failing (E C_Get)) i))),
     j_SaveSnapshot = (\<lambda>p t fin. on_db c s (E C_Save)
       (SaveSnapshot c (failing (E C_Save)) (\<lambda>k. db_run c (inside (E C_Save) k)) p t fin)),
     j_LoadResult = (\<lambda>i. on_db c s (E C_Load) (LoadResult c (failing (E C_Load)) (db_run c (inside (E C_Load) 0)) i))\<rparr>"

definition live_store :: "repo \<Rightarrow> 'r store \<Rightarrow> environment \<Rightarrow> 'r world result_store" where
  "live_store c s E = \<lparr>
     j_Totals = (\<lambda>p ids. on_redis c s (E C_Totals) (Totals_c p ids)
       (\<lambda>t. Totals s (link (E C_Totals)) (api_now (E C_Totals)) t p ids)),
     j_CloseGates = (\<lambda>p e. on_redis c s (E C_Close) (Close_c p e)
       (\<lambda>t. CloseGates s (link (E C_Close)) (api_now (E C_Close)) t p e)),
     j_AcquireSnapshotLock = (\<lambda>p k ttl. on_redis c s (E C_Acquire) (Acquire_c p k ttl)
       (\<lambda>t. AcquireSnapshotLock s (link (E C_Acquire)) t p k ttl)),
     j_ReleaseSnapshotLock = (\<lambda>p k. on_redis c s (E C_Release) (Release_c p k)
       (\<lambda>t. ReleaseSnapshotLock s (link (E C_Release)) t p k))\<rparr>"

section \<open>The record of the calls\<close>

text \<open>Redis is where the recorded calls led it to from the empty server \<open>r0\<close>, and the record is a history as
  the theorems on the store ask for.\<close>

definition recorded :: "'r store \<Rightarrow> 'r \<Rightarrow> 'r world \<Rightarrow> bool" where
  "recorded s r0 w \<longleftrightarrow> w_redis w = store_run s (w_calls w) r0"

definition in_bounds :: "'r store \<Rightarrow> time \<Rightarrow> time \<Rightarrow> 'r world \<Rightarrow> bool" where
  "in_bounds s t0 T w \<longleftrightarrow> history_ok s t0 (w_now w) T (w_calls w)"

lemma store_run_append: "store_run s (h @ h') r = store_run s h' (store_run s h r)"
  by (induction s h r rule: store_run.induct) simp_all

lemma history_ok_prefix: "history_ok s t0 t1 T (h @ h') \<Longrightarrow> history_ok s t0 t1 T h"
  by (auto simp: history_ok_def history_events_def sorted_append)

lemma history_ok_earlier: "history_ok s t0 t1 T h \<Longrightarrow> sorted (map inv_time h @ [t]) \<Longrightarrow> t0 \<le> t \<Longrightarrow> t \<le> t1 \<Longrightarrow> history_ok s t0 t T h"
  by (auto simp: history_ok_def sorted_append)

lemma recorded_others [simp]: "recorded s r0 w \<Longrightarrow> recorded s r0 (others c s o' w)"
  by (simp add: recorded_def others_def store_run_append)

lemma recorded_on_db [simp]: "recorded s r0 w \<Longrightarrow> recorded s r0 (fst (on_db c s e op w))"
  using recorded_others [of s r0 w c "before e"] by (simp add: on_db_def Let_def split_beta recorded_def)

lemma recorded_on_redis:
  assumes "recorded s r0 w" and "\<And>t r. fst (op t r) = store_call s (link e, api_now e, t, k) r"
  shows "recorded s r0 (fst (on_redis c s e k op w))"
  using recorded_others [OF assms(1), of c "before e"] assms(2)
  by (simp add: on_redis_def Let_def split_beta recorded_def store_run_append)

lemma w_calls_on_redis:
  "w_calls (fst (on_redis c s e k op w)) = w_calls w @ o_calls (before e) @ [(link e, api_now e, w_now w + o_later (before e), k)]"
  "w_db (fst (on_redis c s e k op w)) = db_run c (o_writes (before e)) (w_db w)"
  "w_now (fst (on_redis c s e k op w)) = w_now w + o_later (before e)"
  "snd (on_redis c s e k op w) = snd (op (w_now w + o_later (before e)) (store_run s (o_calls (before e)) (w_redis w)))"
  by (simp_all add: on_redis_def others_def Let_def split_beta)

lemma w_on_db:
  "w_calls (fst (on_db c s e op w)) = w_calls w @ o_calls (before e)"
  "w_db (fst (on_db c s e op w)) = fst (op (db_run c (o_writes (before e)) (w_db w)))"
  "w_now (fst (on_db c s e op w)) = w_now w + o_later (before e)"
  "snd (on_db c s e op w) = snd (op (db_run c (o_writes (before e)) (w_db w)))"
  by (simp_all add: on_db_def others_def Let_def split_beta)

lemma on_redis_history:
  assumes "recorded s r0 w"
  shows "snd (on_redis c s e k op w) = snd (op (w_now w + o_later (before e)) (store_run s (w_calls w @ o_calls (before e)) r0))"
  using assms by (simp add: w_calls_on_redis recorded_def store_run_append)

lemma db_run_evolves: "evolves c d (db_run c ws d)"
proof (induction ws arbitrary: d)
  case Nil
  then show ?case by (simp add: db_run_def evolves.none)
next
  case (Cons w ws)
  let ?d = "if write_ok c w d then db_do c w d else d"
  have "evolves c d ?d" by (simp add: evolves_one evolves.none)
  from evolves_trans [OF Cons.IH [of ?d] this] show ?case by (simp add: db_run_def)
qed

end
