(* ===== verification/Service_Publish.thy ===== *)
theory Service_Publish
  imports Service_World
begin

text \<open>
  \<open>PollService.Publish\<close>: what the service may rely on when it publishes, stated as the locale
  \<open>publishing\<close> of its two interfaces, and what it then promises. PostgreSQL and Redis as modelled
  provide the interfaces.
\<close>

section \<open>The contract\<close>

locale publishing =
  fixes R :: "'s poll_repository" and G :: "'s gate_store"
    and ok :: "'s \<Rightarrow> bool" and fine :: "'s \<Rightarrow> bool"
    and status :: "'s \<Rightarrow> string \<Rightarrow> poll_status option" and published :: "'s \<Rightarrow> string \<Rightarrow> time option"
    and open_gates :: "'s \<Rightarrow> string \<Rightarrow> bool" and up :: bool
  assumes publish: "ok w \<Longrightarrow> i_Publish R i t w = (w', x) \<Longrightarrow>
      ok w' \<and> (\<forall>p. x = Inr p \<longrightarrow> Status p = Active \<and> status w' (ID p) = Some Active \<and> published w' (ID p) = PublishedAt p)"
    and revert: "ok w \<Longrightarrow> i_RevertPublish R i t w = (w', y) \<Longrightarrow> ok w' \<and> (y = None \<longrightarrow> status w' i = Some Draft)"
    and reverts: "ok w \<Longrightarrow> up \<Longrightarrow> t mod Microsecond = 0 \<Longrightarrow> status w i = Some Active \<Longrightarrow> published w i = Some t \<Longrightarrow>
      snd (i_RevertPublish R i t w) = None"
    and set_gates: "ok w \<Longrightarrow> i_SetupGates G i e w = (w', y) \<Longrightarrow>
      ok w' \<and> status w' = status w \<and> published w' = published w \<and> (y = None \<longrightarrow> fine w' \<longrightarrow> open_gates w' i)"
    and drop_gates: "ok w \<Longrightarrow> i_DeleteGates G i w = (w', y) \<Longrightarrow> ok w' \<and> status w' = status w"
begin

lemma truncate_micro: "Prelude.truncate t Microsecond mod Microsecond = 0"
  by (simp add: Prelude.truncate_def Microsecond_def minus_mod_eq_mult_div)

lemma publish_outcome:
  assumes ok: "ok w" and c: "cache_ok c" and run: "PollService_Publish R G clk clk' i (w, c) = ((w', c'), x)"
  shows "ok w' \<and> (case x of
      Inr p \<Rightarrow> Status p = Active \<and> status w' (ID p) = Some Active \<and> (fine w' \<longrightarrow> open_gates w' (ID p)) \<and>
        cached c' t (ID p) = (if t < clk' + cache_ttl c then Some p else None)
    | Inl e \<Rightarrow> c' = c \<and> (\<forall>w1 p. i_Publish R i (Prelude.truncate clk Microsecond) w = (w1, Inr p) \<longrightarrow>
        PublishedAt p = Some (Prelude.truncate clk Microsecond) \<longrightarrow> up \<longrightarrow> status w' (ID p) = Some Draft))"
proof -
  let ?now = "Prelude.truncate clk Microsecond"
  obtain w1 y where p1: "i_Publish R i ?now w = (w1, y)" by fastforce
  note l1 = publish [OF ok p1]
  show ?thesis
  proof (cases y)
    case (Inl e)
    then have "w' = w1" "c' = c" "x = Inl e" using run p1 by (simp_all add: PollService_Publish_def)
    with l1 Inl p1 show ?thesis by simp
  next
    case (Inr p)
    obtain w2 z where p2: "i_SetupGates G (ID p) (EndsAt p) w1 = (w2, z)" by fastforce
    have ok1: "ok w1" and st1: "Status p = Active" "status w1 (ID p) = Some Active" "published w1 (ID p) = PublishedAt p"
      using l1 Inr by auto
    note l2 = set_gates [OF ok1 p2]
    show ?thesis
    proof (cases z)
      case None
      then have "w' = w2" "c' = cache_put clk' p c" "x = Inr p"
        using run p1 p2 Inr by (simp_all add: PollService_Publish_def)
      with l2 st1 None cache_put_cached [OF c, of clk' p t] show ?thesis by simp
    next
      case (Some e)
      show ?thesis
      proof (cases "PublishedAt p = Some ?now")
        case False
        then have "w' = w2" "c' = c" "x = Inl e"
          using run p1 p2 Inr Some by (simp_all add: PollService_Publish_def)
        with l2 False p1 Inr show ?thesis by simp
      next
        case mine: True
        obtain w3 v where p3: "i_RevertPublish R (ID p) ?now w2 = (w3, v)" by fastforce
        have ok2: "ok w2" using l2 by simp
        note l3 = revert [OF ok2 p3]
        obtain w4 u where p4: "i_DeleteGates G (ID p) w3 = (w4, u)" by fastforce
        have "ok w3" using l3 by simp
        note l4 = drop_gates [OF this p4]
        have "status w2 (ID p) = Some Active" "published w2 (ID p) = Some ?now" using l2 st1 mine by simp_all
        then have "snd (i_RevertPublish R (ID p) ?now w2) = None" if up
          using reverts [OF ok2 that truncate_micro] by blast
        then have "v = None" if up using that p3 by simp
        moreover have "w' = (if v = None then w4 else w3)" "c' = c" "x = Inl e"
          using run p1 p2 p3 p4 Inr Some mine by (auto simp: PollService_Publish_def split: option.splits)
        ultimately show ?thesis using l3 l4 p1 Inr by (cases v) auto
      qed
    qed
  qed
qed

end

section \<open>PostgreSQL and Redis provide it\<close>

text \<open>What can be seen of a poll in the tables, and of its gates in Redis at the time of the world.\<close>

definition row_of :: "repo \<Rightarrow> 'r world \<Rightarrow> string \<Rightarrow> poll_row option" where
  "row_of c w i = (case uuid_in (server c) i of None \<Rightarrow> None | Some u \<Rightarrow> pr_at (w_db w) u)"

definition stored_status :: "repo \<Rightarrow> 'r world \<Rightarrow> string \<Rightarrow> poll_status option" where
  "stored_status c w i = map_option pr_status (row_of c w i)"

definition stored_published :: "repo \<Rightarrow> 'r world \<Rightarrow> string \<Rightarrow> time option" where
  "stored_published c w i = (case row_of c w i of None \<Rightarrow> None | Some r \<Rightarrow> pr_published_at r)"

definition gates_active :: "'r store \<Rightarrow> ('r \<Rightarrow> time \<Rightarrow> keyspace) \<Rightarrow> 'r world \<Rightarrow> string \<Rightarrow> bool" where
  "gates_active s look w i \<longleftrightarrow> (\<forall>b < buckets s. \<exists>d > w_now w.
     look (w_redis w) (w_now w) (GateKey i b) = Some (RStr ''active'', Some d))"

definition world_ok :: "'r store \<Rightarrow> 'r \<Rightarrow> 'r world \<Rightarrow> bool" where
  "world_ok s r0 w \<longleftrightarrow> db_inv (w_db w) \<and> recorded s r0 w"

text \<open>Nobody else acts during the operation; only time passes.\<close>

definition quiet :: "environment \<Rightarrow> bool" where
  "quiet E \<longleftrightarrow> (\<forall>k. o_writes (before (E k)) = [] \<and> o_calls (before (E k)) = [] \<and> inside (E k) = (\<lambda>_. []))"

lemma setup_opens:
  assumes "b < buckets s"
  shows "gate (history_box s (h @ [(Reply ns, now, t, Setup_c p e)])) (p, b) =
    Some (''active'', ms_after t (px (client s) (TTL s e now)))"
proof -
  let ?es = "gate_events s p ''active'' (TTL s e now)"
  have h: "history_box s (h @ [(Reply ns, now, t, Setup_c p e)]) = box_run (buckets s) (map (Pair t) ?es)
      (box_run (buckets s) (map (Pair t) (concat (map (\<lambda>n. take n ?es) ns))) (history_box s h))"
    by (simp add: history_box_append history_events_def delivered_def box_run_append)
  show ?thesis
    unfolding h unfolding gate_events_def using assms by (simp add: gates_run_gate del: map_map list.map)
qed

lemma publish_tx_active:
  assumes "publish_tx c f i now d = Inr (x, d')"
  shows "\<exists>u r. uuid_in (server c) i = Some u \<and> pr_at d' u = Some r \<and> pr_status r = Active"
proof (cases "d' = d \<and> (\<exists>u r. uuid_in (server c) i = Some u \<and> pr_at d u = Some r \<and> pr_status r = Active)")
  case False
  then obtain u r n where u: "uuid_in (server c) i = Some u" "pr_at d u = Some r"
    and upd: "update_polls (by_id c i) (set_active c now) d = Some (d', n)"
    using publish_tx_Inr [OF assms] by blast
  have "by_id c i r" using u pr_at_mem [OF u(2)] by (simp add: by_id_def)
  with update_polls_at(1) [OF upd same_def_set(1), of u] u show ?thesis by (auto simp: set_active_def)
qed blast

lemma RevertPublish_draft:
  assumes "RevertPublish c f snow i t d = (d', None)" and "db_ok d"
  shows "\<exists>u r. uuid_in (server c) i = Some u \<and> pr_at d' u = Some r \<and> pr_status r = Draft"
proof -
  obtain u n where u: "uuid_in (server c) i = Some u"
    and upd: "update_polls (published_by c i t) (set_draft c snow) d = Some (d', n)" and n: "n \<noteq> 0"
    using assms(1) by (auto simp: RevertPublish_def split: option.splits outcome.splits if_splits)
  then have "filter (published_by c i t) (polls d) \<noteq> []"
    by (auto simp: update_polls_def Let_def split: if_splits)
  then obtain r where r: "r \<in> set (polls d)" "published_by c i t r" by (auto simp: filter_empty_conv)
  then have "pr_at d u = Some r" using u mem_pr_at [OF assms(2) r(1)] by (simp add: published_by_def by_id_def)
  with update_polls_at(1) [OF upd same_def_set(2), of u] u r(2) show ?thesis by (auto simp: set_draft_def)
qed

lemma RevertPublish_works:
  assumes "f UpdatePoll = Done" and "db_inv d" and "uuid_in (server c) i = Some u" and "pr_at d u = Some r"
    and "pr_status r = Active" and "pr_published_at r = Some t" and "ts (server c) t = t"
  shows "snd (RevertPublish c f snow i t d) = None"
proof -
  have r: "r \<in> set (polls d)" "pr_id r = u" using pr_at_mem [OF assms(4)] by auto
  have "poll_check (set_draft c snow x)" if "x \<in> set (polls d)" for x
    using assms(2) that by (auto simp: db_inv_def db_ok_def list_all_iff poll_check_def set_draft_def)
  then have "list_all poll_check (map (\<lambda>x. if published_by c i t x then set_draft c snow x else x) (polls d))"
    using assms(2) by (auto simp: db_inv_def db_ok_def list_all_iff)
  then obtain d' where "update_polls (published_by c i t) (set_draft c snow) d =
      Some (d', length (filter (published_by c i t) (polls d)))"
    by (simp add: update_polls_def Let_def)
  moreover have "published_by c i t r" using assms r by (simp add: published_by_def by_id_def)
  then have "filter (published_by c i t) (polls d) \<noteq> []" using r(1) by (auto simp: filter_empty_conv)
  ultimately show ?thesis using assms(1,3) by (simp add: RevertPublish_def)
qed

lemma row_of_same: "w_db w' = w_db w \<Longrightarrow> row_of c w' = row_of c w"
  by (simp add: row_of_def fun_eq_iff cong: option.case_cong)

locale live_publishing = postgres_server "server c" + redis_server "client s" look
  for c :: repo and s :: "'r store" and look :: "'r \<Rightarrow> time \<Rightarrow> keyspace" +
  fixes E :: environment and r0 :: 'r and t0 T :: time
  assumes empty: "look r0 t0 = Map.empty" and alone: "quiet E"
begin

lemma on_db_alone: "on_db c s (E k) op w =
    (let (d, x) = op (w_db w) in (w\<lparr>w_db := d, w_now := w_now w + o_later (before (E k))\<rparr>, x))"
  using alone by (simp add: on_db_def others_def quiet_def db_run_def Let_def split_beta)

lemma live_publish:
  assumes ok: "world_ok s r0 w" and p: "i_Publish (live_polls c s E) i t w = (w', x)"
  shows "world_ok s r0 w' \<and> (\<forall>p. x = Inr p \<longrightarrow> Status p = Active \<and> stored_status c w' (ID p) = Some Active \<and>
      stored_published c w' (ID p) = PublishedAt p)"
proof -
  let ?tx = "publish_tx c (failing (E C_Publish)) i t" and ?f = "failing (E C_Publish)"
  have mid: "db_run c (inside (E C_Publish) 0) = (\<lambda>d. d)" using alone by (simp add: quiet_def db_run_def fun_eq_iff)
  obtain d' y where tx: "run_tx ?f ?tx (w_db w) = (d', y)" by fastforce
  have inv: "db_inv d'"
    using run_tx_cases [of ?f ?tx "w_db w"] inv_publish ok tx by (auto simp: world_ok_def)
  have run: "w' = w\<lparr>w_db := d', w_now := w_now w + o_later (before (E C_Publish))\<rparr>"
      "x = (case y of Inl e \<Rightarrow> Inl e | Inr _ \<Rightarrow> GetByID c ?f i d')"
    using p tx by (auto simp: live_polls_def on_db_alone Publish_def mid split: sum.splits)
  have ok': "world_ok s r0 w'" using ok inv by (simp add: run world_ok_def recorded_def)
  moreover have "Status q = Active \<and> stored_status c w' (ID q) = Some Active \<and> stored_published c w' (ID q) = PublishedAt q"
    if q: "x = Inr q" for q
  proof -
    have "y = Inr ()" using q run(2) by (cases y) auto
    with tx run_tx_Inr [of ?f ?tx "w_db w" "()"] have "?tx (w_db w) = Inr ((), d')" by auto
    then obtain u r where u: "uuid_in (server c) i = Some u" "pr_at d' u = Some r" "pr_status r = Active"
      using publish_tx_active by blast
    have got: "?f QueryPoll = Done" "GetByID c ?f i d' = Inr q"
      using q run(2) \<open>y = Inr ()\<close> u(1) by (auto simp: GetByID_def get_def split: if_splits)
    then have "q = stored d' r" using GetByID_at [where f = ?f, OF inv u(1) got(1)] got(2) u(2) by simp
    moreover have "pr_id r = u" using pr_at_mem [OF u(2)] by simp
    ultimately show ?thesis
      using u uuid_in_again [OF u(1)] run(1)
      by (simp add: stored_def poll_of_row_def stored_status_def stored_published_def row_of_def)
  qed
  ultimately show ?thesis by blast
qed

lemma live_revert:
  assumes ok: "world_ok s r0 w" and p: "i_RevertPublish (live_polls c s E) i t w = (w', y)"
  shows "world_ok s r0 w' \<and> (y = None \<longrightarrow> stored_status c w' i = Some Draft)"
proof -
  obtain d' where d: "RevertPublish c (failing (E C_Revert)) (api_now (E C_Revert)) i t (w_db w) = (d', y)"
    and w': "w' = w\<lparr>w_db := d', w_now := w_now w + o_later (before (E C_Revert))\<rparr>"
    using p by (auto simp: live_polls_def on_db_alone split: prod.splits)
  have "db_inv d'" using inv_revert [of "w_db w" c "failing (E C_Revert)" "api_now (E C_Revert)" i t] ok d
    by (simp add: world_ok_def)
  with ok RevertPublish_draft [of c "failing (E C_Revert)" "api_now (E C_Revert)" i t "w_db w" d'] d show ?thesis
    by (auto simp: w' world_ok_def recorded_def stored_status_def row_of_def db_inv_def)
qed

lemma live_reverts:
  assumes "world_ok s r0 w" and "failing (E C_Revert) UpdatePoll = Done" and "t mod Microsecond = 0"
    and "stored_status c w i = Some Active" and "stored_published c w i = Some t"
  shows "snd (i_RevertPublish (live_polls c s E) i t w) = None"
proof -
  obtain u r where "uuid_in (server c) i = Some u" "pr_at (w_db w) u = Some r" "pr_status r = Active" "pr_published_at r = Some t"
    using assms(4,5) by (auto simp: stored_status_def stored_published_def row_of_def split: option.splits)
  from RevertPublish_works [of "failing (E C_Revert)" "w_db w" c i u r t "api_now (E C_Revert)"] this assms ts_micro [OF assms(3)]
  show ?thesis by (simp add: live_polls_def on_db_alone world_ok_def split_beta)
qed

lemma live_setup:
  assumes ok: "world_ok s r0 w" and p: "i_SetupGates (live_gates c s E) i e w = (w', y)"
  shows "world_ok s r0 w' \<and> stored_status c w' = stored_status c w \<and> stored_published c w' = stored_published c w \<and>
    (y = None \<longrightarrow> in_bounds s t0 T w' \<longrightarrow> gates_active s look w' i)"
proof -
  let ?c = "E C_Setup" and ?op = "\<lambda>t. SetupGates s (link (E C_Setup)) (api_now (E C_Setup)) t i e"
  have w': "w' = fst (on_redis c s ?c (Setup_c i e) ?op w)" and y: "y = snd (on_redis c s ?c (Setup_c i e) ?op w)"
    using p by (simp_all add: live_gates_def)
  have rec: "recorded s r0 w'"
    unfolding w' using ok by (intro recorded_on_redis) (simp_all add: world_ok_def)
  have db: "w_db w' = w_db w" using alone by (simp add: w' w_calls_on_redis quiet_def db_run_def)
  have h: "w_calls w' = w_calls w @ [(link ?c, api_now ?c, w_now w', Setup_c i e)]"
    using alone by (simp add: w' w_calls_on_redis quiet_def)
  have "gates_active s look w' i" if y0: "y = None" and fine: "in_bounds s t0 T w'"
  proof -
    obtain ns where l: "link ?c = Reply ns"
      using y0 unfolding y w_calls_on_redis SetupGates_def
      by (cases "link ?c") (auto simp: deliver_def exec_err_def Let_def split_beta)
    let ?ms = "px (client s) (TTL s e (api_now ?c))"
    have "store_ok s" using fine by (simp add: in_bounds_def history_ok_def)
    then have "0 < TTL s e (api_now ?c)" using TTL_bounds(1) [of s e "api_now ?c"] by (simp add: store_ok_def Second_def)
    then have "w_now w' < ms_after (w_now w') ?ms" using px_pos by (simp add: ms_after_def Millisecond_def)
    moreover have "gates_match (history_box s (w_calls w')) (look (w_redis w') (w_now w')) (w_now w')"
      using history_sim [OF refl empty] fine rec by (simp add: in_bounds_def recorded_def sim_def)
    ultimately show ?thesis
      using gates_matchD setup_opens [of _ s "w_calls w" ns "api_now ?c" "w_now w'" i e]
      by (fastforce simp: gates_active_def h l)
  qed
  with ok rec db show ?thesis
    by (simp add: world_ok_def stored_status_def [abs_def] stored_published_def [abs_def] row_of_same [OF db])
qed

lemma live_drop:
  assumes ok: "world_ok s r0 w" and p: "i_DeleteGates (live_gates c s E) i w = (w', y)"
  shows "world_ok s r0 w' \<and> stored_status c w' = stored_status c w"
proof -
  let ?c = "E C_Drop" and ?op = "\<lambda>t. DeleteGates s (link (E C_Drop)) t i"
  have w': "w' = fst (on_redis c s ?c (Delete_c i) ?op w)" using p by (simp add: live_gates_def)
  have "recorded s r0 w'"
    unfolding w' using ok by (intro recorded_on_redis) (simp_all add: world_ok_def)
  moreover have "w_db w' = w_db w" using alone by (simp add: w' w_calls_on_redis quiet_def db_run_def)
  ultimately show ?thesis using ok row_of_same [of w' w c] by (simp add: world_ok_def stored_status_def [abs_def])
qed

end

sublocale live_publishing \<subseteq> live: publishing "live_polls c s E" "live_gates c s E" "world_ok s r0" "in_bounds s t0 T"
  "stored_status c" "stored_published c" "gates_active s look" "failing (E C_Revert) UpdatePoll = Done"
proof (unfold_locales, goal_cases)
  case (1 w i t w' x)
  then show ?case by (rule live_publish)
next
  case (2 w i t w' y)
  then show ?case by (rule live_revert)
next
  case (3 w t i)
  then show ?case by (intro live_reverts)
next
  case (4 w i e w' y)
  then show ?case by (rule live_setup)
next
  case (5 w i w' y)
  then show ?case by (rule live_drop)
qed

context live_publishing
begin

lemmas live_outcome = live.publish_outcome

end

section \<open>A concrete world\<close>


context redis_server
begin

text \<open>Gates are set without an error when the reply arrives.\<close>

lemma set_gates_reply:
  assumes "client s = C" and "0 < px C ttl"
  shows "snd (run_steps (map (set_gate s t p v ttl) bs) r) = replicate (length bs) ROk"
  using assms by (induction bs arbitrary: r) (auto simp: set_gate_def SET_PX_reply split_beta Let_def)

lemma first_error_ROk: "first_error (replicate n ROk) = None"
  by (induction n) auto

lemma gates_answered:
  assumes "client s = C" and "store_ok s"
  shows "snd (SetupGates s (Reply ns) now t p e r) = None" and "snd (CloseGates s (Reply ns) now t p e r) = None"
proof -
  have "0 < TTL s e now" using TTL_bounds(1) [of s e now] assms(2) by (simp add: store_ok_def Second_def)
  then have "0 < px C (TTL s e now)" by (rule px_pos)
  from set_gates_reply [OF assms(1) this]
  show "snd (SetupGates s (Reply ns) now t p e r) = None" and "snd (CloseGates s (Reply ns) now t p e r) = None"
    by (simp_all add: SetupGates_def CloseGates_def deliver_def exec_err_def first_error_ROk split_beta Let_def)
qed

end

definition demo_env :: "time \<Rightarrow> environment" where
  "demo_env t k = \<lparr>before = none_else, inside = (\<lambda>_. []), failing = no_faults, link = Reply [], api_now = t, random = demo_rnd\<rparr>"

definition demo_world :: "db \<Rightarrow> mem world" where
  "demo_world d = \<lparr>w_db = d, w_redis = [], w_now = Second, w_calls = []\<rparr>"

lemma demo_redis: "redis_server (client demo_store) mem_look"
  by (rule demo_mem)

lemma demo_env_quiet: "quiet (demo_env t)"
  by (simp add: quiet_def demo_env_def none_else_def)

interpretation demo_publishing: live_publishing demo_repo demo_store mem_look "demo_env t" "[]" 0 Hour for t
  by (intro live_publishing.intro live_publishing_axioms.intro demo_server demo_redis demo_mem(2) demo_env_quiet)

section \<open>Claims\<close>


lemma demo_world_ok: "world_ok demo_store [] (demo_world demo_db)"
  using demo_inv by (simp add: world_ok_def demo_world_def recorded_def)

lemma demo_publishes:
  "\<exists>w' C'. PollService_Publish (live_polls demo_repo demo_store (demo_env t)) (live_gates demo_repo demo_store (demo_env t))
      Minute clk' demo_id (demo_world demo_db, C) = ((w', C'), Inr demo_poll)"
proof -
  have m: "Prelude.truncate Minute Microsecond = Minute" by (simp add: Prelude.truncate_def duration_unit_defs)
  have run: "fst (run_tx no_faults (publish_tx demo_repo no_faults demo_id Minute) demo_db) = demo_active"
    by (simp add: demo_active_def)
  have ok: "snd (run_tx no_faults (publish_tx demo_repo no_faults demo_id Minute) demo_db) = Inr ()"
    using demo_check
    by (simp add: run_tx_def publish_tx_def no_faults_def and_then_def stmt_def select_status_def
      demo_repo_simps demo_in demo_state demo_rows update_polls_def by_id_def commit_def)
  have "uuid_in (server demo_repo) demo_id = Some demo_id" by (simp add: demo_repo_simps demo_in)
  from GetByID_at [where f = no_faults, OF demo_active_inv this]
  have "GetByID demo_repo no_faults demo_id demo_active = Inr demo_poll"
    by (simp add: no_fault pr_at_def demo_active_state demo_poll_def set_active_def demo_rows)
  moreover have "snd (SetupGates demo_store (Reply []) now u p e r) = None" for now u p e r
    using redis_server.gates_answered(1) [OF demo_redis refl demo_store_ok] .
  ultimately show ?thesis
    using run ok
    by (simp add: PollService_Publish_def m live_polls_def live_gates_def on_db_def on_redis_def others_def
        demo_env_def none_else_def db_run_def demo_world_def Publish_def Let_def split_beta
        split: sum.split option.split)
qed


end
