(* ===== verification/Service_Vote.thy ===== *)
theory Service_Vote
  imports Service_Publish
begin

text \<open>
  \<open>VoteService.Vote\<close>: the contract \<open>balloting\<close> of the store that records votes, what the service
  promises on top of it, and the proof that Redis as modelled keeps the contract whatever other
  processes do at the same time.
\<close>

section \<open>The contract\<close>

definition ballot_of :: "vote_command \<Rightarrow> ballot" where
  "ballot_of cmd = (vc_PollID cmd, vc_DeviceHash cmd, vc_OptionIDs cmd)"

text \<open>What a vote may do to the ballots \<open>bl\<close>, given its answer: an accepted vote is a new ballot of a device that
  had none; a vote that was refused by the rules is none; a repeated vote of a device leaves its
  ballot; after a failure of the store the vote is in or not.\<close>

definition vote_effect :: "vote_command \<Rightarrow> err + vote_status \<Rightarrow> ballot list \<Rightarrow> ballot list \<Rightarrow> bool" where
  "vote_effect cmd y bl bl' \<longleftrightarrow>
     (case y of
        Inr VoteRecorded \<Rightarrow> bl' = ballot_of cmd # bl \<and> (vc_PollID cmd, vc_DeviceHash cmd) \<notin> set (voters bl)
      | Inr VoteAlreadyRecorded \<Rightarrow> bl' \<in> {bl, ballot_of cmd # bl} \<and> (vc_PollID cmd, vc_DeviceHash cmd) \<in> set (voters bl')
      | Inl e \<Rightarrow> bl' = bl \<or> ((\<exists>m. e = Other m) \<and> bl' = ballot_of cmd # bl))"

locale balloting =
  fixes L :: "'s poll_loader" and V :: "'s vote_store"
    and ok :: "'s \<Rightarrow> bool" and fine :: "'s \<Rightarrow> bool" and ledger :: "'s \<Rightarrow> ballot list" and foreign :: "ballot set"
  assumes load: "ok w \<Longrightarrow> L i w = (w', x) \<Longrightarrow> ok w' \<and> (\<exists>xs. set xs \<subseteq> foreign \<and> ledger w' = xs @ ledger w)"
    and cast: "ok w \<Longrightarrow> V cmd w = (w', y) \<Longrightarrow> fine w' \<Longrightarrow>
      \<exists>xs. set xs \<subseteq> foreign \<and> vote_effect cmd y (xs @ ledger w) (ledger w') \<and> distinct (voters (ledger w'))"
begin

text \<open>\<open>xs\<close> are ballots that others cast meanwhile.\<close>

lemma vote_outcome:
  assumes ok: "ok w" and c: "cache_ok C" and fine: "fine w'"
    and run: "VoteService_Vote L V key clk clk' i dev ids now (w, C) = ((w', C'), y)"
  shows "(\<exists>p xs. set xs \<subseteq> foreign \<and> running p now \<and> ValidateSelection p ids = None \<and>
      (cached C clk i = Some p \<or> (cached C clk i = None \<and> snd (L i w) = Inr p)) \<and>
      vote_effect \<lparr>vc_PollID = ID p, vc_DeviceHash = DeviceHash key (ID p) dev, vc_OptionIDs = ids, vc_EndsAt = EndsAt p\<rparr>
        y (xs @ ledger w) (ledger w') \<and> distinct (voters (ledger w'))) \<or>
    (\<exists>e xs. set xs \<subseteq> foreign \<and> y = Inl e \<and> ledger w' = xs @ ledger w)"
proof -
  obtain w1 C1 x where g: "cache_get clk clk' i (vote_loader L) (w, C) = ((w1, C1), x)"
    by (metis prod.collapse)
  have load1: "fst (vote_loader L i w) = fst (L i w)"
    "\<And>q. snd (vote_loader L i w) = Inr q \<Longrightarrow> snd (L i w) = Inr q"
    by (auto simp: vote_loader_def split: prod.splits sum.splits if_splits)
  have "(cached C clk i = None \<and> w1 = fst (L i w) \<and> x = snd (vote_loader L i w)) \<or>
      (\<exists>p. cached C clk i = Some p \<and> w1 = w \<and> x = Inr p)"
    using cache_get_cases [OF c, where now = clk and i = i and now' = clk' and loader = "vote_loader L" and s = w] g load1(1) by (auto split: option.splits)
  then have grow: "ok w1 \<and> (\<exists>xs. set xs \<subseteq> foreign \<and> ledger w1 = xs @ ledger w)"
    and from_where: "\<And>p. x = Inr p \<Longrightarrow> cached C clk i = Some p \<or> (cached C clk i = None \<and> snd (L i w) = Inr p)"
    using ok load [OF ok, of i "fst (L i w)" "snd (L i w)"] load1(2) by (auto, metis append_Nil empty_set empty_subsetI)
  from grow obtain ys where ok1: "ok w1" and ys: "set ys \<subseteq> foreign" "ledger w1 = ys @ ledger w" by blast
  show ?thesis
  proof (cases "\<exists>p. x = Inr p \<and> running p now \<and> ValidateSelection p ids = None")
    case False
    then have "w' = w1 \<and> (\<exists>e. y = Inl e)"
      using run g by (cases x) (auto simp: VoteService_Vote_def split: if_splits option.splits)
    with ys show ?thesis by blast
  next
    case True
    then obtain p where p: "x = Inr p" "running p now" "ValidateSelection p ids = None" by blast
    let ?cmd = "\<lparr>vc_PollID = ID p, vc_DeviceHash = DeviceHash key (ID p) dev, vc_OptionIDs = ids, vc_EndsAt = EndsAt p\<rparr>"
    have "V ?cmd w1 = (w', y)"
      using run g p by (simp add: VoteService_Vote_def split_beta Let_def prod_eq_iff)
    from cast [OF ok1 this fine] obtain xs where "set (xs @ ys) \<subseteq> foreign" "vote_effect ?cmd y ((xs @ ys) @ ledger w) (ledger w')"
      "distinct (voters (ledger w'))" using ys by auto
    with p from_where [OF p(1)] show ?thesis by blast
  qed
qed

end

section \<open>Redis provides it\<close>

text \<open>The ballots that the calls of a history ask for, and those that the others ask for in the environment.\<close>

definition called :: "invocation list \<Rightarrow> ballot set" where
  "called h = {b. \<exists>d n t cmd. (d, n, t, Record_c cmd) \<in> set h \<and> b = ballot_of cmd}"

definition foreign :: "environment \<Rightarrow> ballot set" where
  "foreign E = (\<Union>k. called (o_calls (before (E k))))"

definition asked :: "(time \<times> event) list \<Rightarrow> ballot set" where
  "asked es = {(p, h, ids). \<exists>t v. (t, Cast p h ids v) \<in> set es}"

lemma asked_Cons: "asked (te # es) = asked [te] \<union> asked es"
  by (auto simp: asked_def)

lemma box_run_casts: "\<exists>xs. set xs \<subseteq> asked es \<and> ballots (box_run n es bx) = xs @ ballots bx"
proof (induction es arbitrary: bx)
  case (Cons te es)
  obtain t e where te: "te = (t, e)" by (cases te)
  have "ballots (fst (box_step n t e bx)) = ballots bx \<or>
      (\<exists>p h ids v. e = Cast p h ids v \<and> ballots (fst (box_step n t e bx)) = (p, h, ids) # ballots bx)"
    by (cases e) auto
  then obtain xs where xs: "set xs \<subseteq> asked [te]" "ballots (fst (box_step n t e bx)) = xs @ ballots bx"
  proof (elim disjE exE conjE)
    assume "ballots (fst (box_step n t e bx)) = ballots bx"
    then show ?thesis by (intro that [of "[]"]) simp_all
  next
    fix p h ids v
    assume "e = Cast p h ids v" "ballots (fst (box_step n t e bx)) = (p, h, ids) # ballots bx"
    then show ?thesis by (intro that [of "[(p, h, ids)]"]) (simp_all add: asked_def te)
  qed
  from Cons.IH [of "fst (box_step n t e bx)"] obtain ys where
    ys: "set ys \<subseteq> asked es" "ballots (box_run n es (fst (box_step n t e bx))) = ys @ xs @ ballots bx"
    using xs(2) by auto
  have "set (ys @ xs) \<subseteq> asked (te # es)" using xs(1) ys(1) unfolding asked_Cons [of te es] set_append by blast
  moreover have "ballots (box_run n (te # es) bx) = (ys @ xs) @ ballots bx" using ys(2) te by simp
  ultimately show ?case by blast
qed (simp add: asked_def)

lemma delivered_sub: "e \<in> set (delivered d es) \<Longrightarrow> e \<in> set es"
  by (cases d) (auto simp: delivered_def dest: in_set_takeD)

lemma asked_called: "asked (history_events s hs) \<subseteq> called hs"
proof
  fix b
  assume "b \<in> asked (history_events s hs)"
  then obtain p h ids t v where b: "b = (p, h, ids)" "(t, Cast p h ids v) \<in> set (history_events s hs)" by (auto simp: asked_def)
  then obtain i where i: "i \<in> set hs" "(t, Cast p h ids v) \<in> set (inv_events s i)"
    by (auto simp: history_events_def)
  obtain d n t' c where "i = (d, n, t', c)" by (cases i)
  with i have c: "(d, n, t', c) \<in> set hs" "Cast p h ids v \<in> set (call_events s n c)"
    using delivered_sub by auto
  from c(2) have "\<exists>cmd. c = Record_c cmd \<and> (p, h, ids) = ballot_of cmd"
    by (cases c) (auto simp: gate_events_def peek_events_def cast_event_def ballot_of_def)
  with b(1) c(1) show "b \<in> called hs" by (auto simp: called_def)
qed

lemma cast_ballots_grow: "\<exists>xs. set xs \<subseteq> called h' \<and> cast_ballots s (h @ h') = xs @ cast_ballots s h"
proof -
  from box_run_casts [of "history_events s h'" "buckets s" "history_box s h"] show ?thesis
    using asked_called [of s h'] by (auto simp: cast_ballots_def history_box_append)
qed

lemma vote_answer_effect:
  assumes "bl' = (if ran d \<and> vote_answer n t cmd bx = Inr VoteRecorded then ballot_of cmd # ballots bx else ballots bx)"
    and "y = (case d of NoReply ns \<Rightarrow> Inl (Other m) | Reply ns \<Rightarrow>
      if ran_before ns \<and> vote_answer n t cmd bx = Inr VoteRecorded then Inr VoteAlreadyRecorded else vote_answer n t cmd bx)"
  shows "vote_effect cmd y (ballots bx) bl'"
  using assms
  by (cases d) (auto simp: vote_effect_def vote_answer_def ran_def ballot_of_def voters_def split: if_splits)

lemma Record_NoReply: "snd (Record s (NoReply ns) now t cmd r) = Inl (Other ''redis: connection failed'')"
  by (simp add: Record_def deliver_def one_reply_def int_reply_def)

locale live_voting = redis_server "client s" look
  for s :: "'r store" and look :: "'r \<Rightarrow> time \<Rightarrow> keyspace" +
  fixes c :: repo and E :: environment and r0 :: 'r and t0 T :: time
  assumes empty: "look r0 t0 = Map.empty"
begin

lemma live_cast:
  assumes ok: "recorded s r0 w" and v: "live_votes c s E cmd w = (w', y)" and fine: "in_bounds s t0 T w'"
  shows "\<exists>xs. set xs \<subseteq> foreign E \<and> vote_effect cmd y (xs @ cast_ballots s (w_calls w)) (cast_ballots s (w_calls w')) \<and>
    distinct (voters (cast_ballots s (w_calls w')))"
proof -
  let ?c = "E C_Record" and ?op = "\<lambda>t. Record s (link (E C_Record)) (api_now (E C_Record)) t cmd"
  let ?h = "w_calls w @ o_calls (before ?c)"
  have w': "w' = fst (on_redis c s ?c (Record_c cmd) ?op w)" and y: "y = snd (on_redis c s ?c (Record_c cmd) ?op w)"
    using v by (simp_all add: live_votes_def)
  have h: "w_calls w' = ?h @ [(link ?c, api_now ?c, w_now w', Record_c cmd)]" by (simp add: w' w_calls_on_redis)
  have y': "y = snd (Record s (link ?c) (api_now ?c) (w_now w') cmd (store_run s ?h r0))"
    unfolding y by (simp add: on_redis_history [OF ok]) (simp add: w' w_calls_on_redis)
  have "history_ok s t0 (w_now w') T (?h @ [(link ?c, api_now ?c, w_now w', Record_c cmd)])"
    using fine by (simp only: in_bounds_def h)
  note rec = Record_after_history [OF redis_server_axioms empty this]
  have "vote_effect cmd y (ballots (history_box s ?h)) (cast_ballots s (w_calls w'))"
  proof (rule vote_answer_effect)
    show "cast_ballots s (w_calls w') = (if ran (link ?c) \<and> vote_answer (buckets s) (w_now w') cmd (history_box s ?h) = Inr VoteRecorded
        then ballot_of cmd # ballots (history_box s ?h) else ballots (history_box s ?h))"
      using rec unfolding h by (simp add: ballot_of_def cast_ballots_def)
    show "y = (case link ?c of NoReply ns \<Rightarrow> Inl (Other ''redis: connection failed'') | Reply ns \<Rightarrow>
        if ran_before ns \<and> vote_answer (buckets s) (w_now w') cmd (history_box s ?h) = Inr VoteRecorded
        then Inr VoteAlreadyRecorded else vote_answer (buckets s) (w_now w') cmd (history_box s ?h))"
      using conjunct2 [OF rec] unfolding y' by (cases "link ?c") (simp_all only: delivery.case Record_NoReply)
  qed
  moreover obtain xs where "set xs \<subseteq> foreign E" "ballots (history_box s ?h) = xs @ cast_ballots s (w_calls w)"
    using cast_ballots_grow [of "o_calls (before ?c)" s "w_calls w"] by (auto simp: cast_ballots_def foreign_def)
  ultimately show ?thesis using cast_ballots_voters by metis
qed

end

sublocale live_voting \<subseteq> live: balloting "live_loader c s E" "live_votes c s E" "recorded s r0" "in_bounds s t0 T"
  "\<lambda>w. cast_ballots s (w_calls w)" "foreign E"
proof (unfold_locales, goal_cases)
  case (1 w i w' x)
  then have "w' = fst (live_loader c s E i w)" by simp
  with 1 show ?case using cast_ballots_grow [of "o_calls (before (E C_Get))" s "w_calls w"]
    by (auto simp: live_loader_def w_on_db foreign_def)
next
  case (2 w cmd w' y)
  then show ?case by (rule live_cast)
qed

context live_voting
begin

lemmas live_outcome = live.vote_outcome

end

section \<open>Claims\<close>


interpretation demo_voting: live_voting demo_store mem_look demo_repo "demo_env t" "[]" 0 Hour for t
  by (intro live_voting.intro live_voting_axioms.intro demo_redis demo_mem(2))

definition demo_calls :: "invocation list" where
  "demo_calls = [(Reply [], 0, 0, Setup_c demo_id Hour)]"

definition demo_running :: "mem world" where
  "demo_running = \<lparr>w_db = demo_active, w_redis = store_run demo_store demo_calls [], w_now = Second, w_calls = demo_calls\<rparr>"

lemma demo_running_recorded: "recorded demo_store [] demo_running"
  by (simp add: recorded_def demo_running_def)

lemma demo_poll_fields: "Status demo_poll = Active" "StartsAt demo_poll = 0" "EndsAt demo_poll = Hour"
  "Type demo_poll = SingleChoice" "MaxChoices demo_poll = 1"
  by (simp_all add: demo_poll_def stored_def poll_of_row_def set_active_def demo_row_def poll_row_of_def new_poll_def
      demo_input_def demo_repo_simps demo_ts)

lemma demo_poll_loaded: "GetByID demo_repo no_faults demo_id demo_active = Inr demo_poll"
proof -
  have "uuid_in (server demo_repo) demo_id = Some demo_id" by (simp add: demo_repo_simps demo_in)
  from GetByID_at [where f = no_faults, OF demo_active_inv this] show ?thesis
    by (simp add: no_fault pr_at_def demo_active_state demo_poll_def set_active_def demo_rows)
qed

lemma demo_selection: "ValidateSelection demo_poll [demo_yes] = None"
proof -
  have "IsUUID demo_yes" by code_simp
  then show ?thesis by (simp add: ValidateSelection_None_iff demo_poll_fields demo_poll_simps demo_opts_def)
qed

lemma demo_history_ok:
  assumes "plain_hash h"
  shows "history_ok demo_store 0 Second Hour (demo_calls @ [(Reply [], Second, Second, Record_c
    \<lparr>vc_PollID = demo_id, vc_DeviceHash = h, vc_OptionIDs = [demo_yes], vc_EndsAt = Hour\<rparr>)])"
  using demo_TTL(1) assms demo_store_ok
  by (simp add: history_ok_def demo_calls_def history_events_def delivered_def gate_events_def demo_store_def
      duration_unit_defs numeral_2_eq_2)

lemma demo_gate_open: "b < 2 \<Longrightarrow> gate_open (history_box demo_store demo_calls) Second demo_id b"
  using setup_opens [of b demo_store "[]" "[]" 0 0 demo_id Hour]
  by (simp add: demo_calls_def gate_open_def demo_ttls) (simp add: demo_store_def Mem_def mem_px_def ms_after_def duration_unit_defs)

lemma demo_no_ballots: "cast_ballots demo_store demo_calls = []"
  by (simp add: cast_ballots_def history_box_def history_events_def demo_calls_def delivered_def gate_events_def
      empty_box_def demo_store_def numeral_2_eq_2)

definition demo_key :: "byte list" where
  "demo_key = replicate 32 7"


end
