(* ===== verification/Service_Close.thy ===== *)
theory Service_Close
  imports Service_Vote
begin

text \<open>
  \<open>ResultService.Close\<close>: the contract \<open>closing\<close> of the result store and the result repository for one
  poll, and what closing promises on top of it: the stored result counts every vote that was
  ever accepted. PostgreSQL and Redis as modelled keep the contract while other processes vote,
  publish other polls and write to the tables, as long as nobody opens the gates of this poll
  again.
\<close>

section \<open>The contract\<close>

text \<open>\<open>pid\<close> is the poll. \<open>shut\<close> says that its gates are closed and stay so; \<open>knows w p\<close> that \<open>p\<close> was read
  from the tables; \<open>newest w t\<close> that nothing final or newer than \<open>t\<close> is stored when the call that
  saves \<open>t\<close> arrives; \<open>answer\<close> is what the repository answers for the poll's result.\<close>

locale closing =
  fixes R :: "'s result_repository" and S :: "'s result_store" and pid :: string
    and ok :: "'s \<Rightarrow> bool" and fine :: "'s \<Rightarrow> bool" and ledger :: "'s \<Rightarrow> ballot list"
    and shut_in :: "'s \<Rightarrow> bool" and knows :: "'s \<Rightarrow> poll \<Rightarrow> bool" and newest :: "'s \<Rightarrow> totals \<Rightarrow> bool"
    and answer :: "'s \<Rightarrow> err + poll_result"
  assumes get_poll: "ok w \<Longrightarrow> j_GetByID R i w = (w', Inr p) \<Longrightarrow> ok w' \<and> knows w' p"
    and close_gates: "ok w \<Longrightarrow> j_CloseGates S pid e w = (w', None) \<Longrightarrow>
      ok w' \<and> shut_in w' \<and> (knows w p \<longrightarrow> knows w' p)"
    and count: "ok w \<Longrightarrow> shut_in w \<Longrightarrow> j_Totals S pid ids w = (w', Inr t) \<Longrightarrow>
      ok w' \<and> shut_in w' \<and> (knows w p \<longrightarrow> knows w' p) \<and>
      (fine w' \<longrightarrow> parts \<notin> set ids \<longrightarrow> t = ballot_totals (ledger w') pid ids (tot_AsOf t))"
    and save: "ok w \<Longrightarrow> shut_in w \<Longrightarrow> knows w p \<Longrightarrow> ID p = pid \<Longrightarrow> newest w t \<Longrightarrow>
      j_SaveSnapshot R p t True w = (w', Inr r) \<Longrightarrow>
      ok w' \<and> shut_in w' \<and> of_poll pid (ledger w') = of_poll pid (ledger w) \<and> (fine w' \<longrightarrow> fine w) \<and>
      answer w' = Inr r \<and> res_Participants r = tot_Participants t \<and> res_Status r = Closed \<and> res_FinalizedAt r \<noteq> None \<and>
      res_Options r = (\<lambda>k. if k \<in> set (optionIDs p) then Some (map_get (tot_Options t) k) else None)"
    and plain_options: "ok w \<Longrightarrow> knows w p \<Longrightarrow> parts \<notin> set (optionIDs p)"
begin

text \<open>Closing stores and answers what the ballots of the poll add up to.\<close>

lemma close_outcome:
  assumes ok: "ok w" and get: "j_GetByID R i w = (w1, Inr p)" and p: "Status p = Active" "ID p = pid"
    and run: "ResultService_Close R S i (w, C) = ((w', C'), Inr (p', r))"
    and fine: "fine w'" and new: "\<And>w2 w3 t. j_CloseGates S pid (EndsAt p) w1 = (w2, None) \<Longrightarrow>
      j_Totals S pid (optionIDs p) w2 = (w3, Inr t) \<Longrightarrow> newest w3 t"
  shows "shut_in w' \<and> ok w' \<and> answer w' = Inr r \<and> C' = cache_delete i C \<and> p' = p\<lparr>Status := Closed, ClosedAt := res_FinalizedAt r\<rparr> \<and>
    res_Status r = Closed \<and> res_FinalizedAt r \<noteq> None \<and>
    res_Participants r = int (poll_tally (ledger w') pid parts) \<and>
    res_Options r = (\<lambda>k. if k \<in> set (optionIDs p) then Some (int (poll_tally (ledger w') pid k)) else None)"
proof -
  obtain w2 x where 2: "j_CloseGates S pid (EndsAt p) w1 = (w2, x)" by fastforce
  have x: "x = None" using run get p 2 by (cases x) (auto simp: ResultService_Close_def split: prod.splits)
  obtain w3 y where 3: "j_Totals S pid (optionIDs p) w2 = (w3, y)" by fastforce
  then obtain t where y: "y = Inr t"
    using run get p 2 x by (cases y) (auto simp: ResultService_Close_def split: prod.splits)
  obtain w4 z where 4: "j_SaveSnapshot R p t True w3 = (w4, z)" by fastforce
  have fin: "z = Inr r" "w' = w4" "C' = cache_delete i C" "p' = p\<lparr>Status := Closed, ClosedAt := res_FinalizedAt r\<rparr>"
    using run get p 2 3 4 x y by (auto simp: ResultService_Close_def split: sum.splits)
  note l1 = get_poll [OF ok get]
  then have "ok w1" and "knows w1 p" by auto
  note l2 = close_gates [OF \<open>ok w1\<close> 2 [unfolded x]]
  then have "ok w2" and "shut_in w2" and "knows w2 p" using \<open>knows w1 p\<close> by auto
  note l3 = count [OF \<open>ok w2\<close> \<open>shut_in w2\<close> 3 [unfolded y]]
  then have "ok w3" and "shut_in w3" and "knows w3 p" using \<open>knows w2 p\<close> by auto
  note l4 = save [OF this p(2) new [OF 2 [unfolded x] 3 [unfolded y]] 4 [unfolded fin(1)]]
  have t: "t = ballot_totals (ledger w3) pid (optionIDs p) (tot_AsOf t)"
    using l3 l4 fine fin(2) plain_options [OF \<open>ok w3\<close> \<open>knows w3 p\<close>] by simp
  also have "\<dots> = ballot_totals (ledger w') pid (optionIDs p) (tot_AsOf t)"
    by (rule ballot_totals_of_poll) (use l4 fin(2) in simp)
  finally show ?thesis
    using l4 fin by (auto simp: ballot_totals_def map_get_def fun_eq_iff totals_eq_iff)
qed

end

section \<open>PostgreSQL and Redis provide it\<close>

context postgres_server
begin

lemma evolve_options:
  assumes "evolves c d d'" and "D = server c" and "db_inv d" and "pr_at d u \<noteq> None"
  shows "pr_at d' u \<noteq> None \<and> options_of d' u = options_of d u"
  using assms(1)
proof (induction rule: evolves.induct)
  case (more d' w)
  have inv: "db_inv d'" using inv_evolves [OF more.hyps(1) assms(2,3)] .
  from more.IH obtain r where "pr_at d' u = Some r" by auto
  with write_row [OF assms(2) inv more.hyps(2) this] write_options [OF assms(2) inv more.hyps(2)] more.IH
  show ?case by auto
qed (use assms(4) in simp)

lemma read_from_evolves:
  assumes "evolves c d d'" and "D = server c" and "db_inv d" and "read_from d p"
  shows "read_from d' p"
proof -
  obtain r where r: "r \<in> set (polls d)" "ID p = pr_id r" "Options p = options_of d (pr_id r)"
    using assms(4) by (auto simp: read_from_def)
  then have "pr_at d (pr_id r) \<noteq> None" using mem_pr_at assms(3) by (auto simp: db_inv_def)
  from evolve_options [OF assms(1-3) this] obtain r' where "pr_at d' (pr_id r) = Some r'"
    "options_of d' (pr_id r) = options_of d (pr_id r)" by auto
  with r pr_at_mem [of d' "pr_id r" r'] show ?thesis
    unfolding read_from_def by (intro bexI [of _ r']) simp_all
qed

lemma read_from_options:
  assumes "db_inv d" and "read_from d p" and "x \<in> set (Options p)"
  shows "canonical_uuid (opt_ID x)"
  using assms by (auto simp: read_from_def db_inv_def list_all_iff options_of_def option_of_row_def)

end

lemma GetByID_read:
  assumes "db_inv d" and "GetByID c f i d = Inr p"
  shows "read_from d p \<and> (\<exists>u. uuid_in (server c) i = Some u \<and> ID p = u)"
proof -
  obtain u where u: "uuid_in (server c) i = Some u" using assms(2) by (auto simp: GetByID_def split: option.splits)
  have "f QueryPoll = Done" using assms(2) u by (auto simp: GetByID_def get_def split: if_splits)
  from GetByID_at [OF assms(1) u, of f, OF this] assms(2) obtain r where r: "pr_at d u = Some r" "p = stored d r"
    by (auto split: option.splits)
  with pr_at_mem [OF r(1)] u show ?thesis by (auto simp: read_from_def stored_def poll_of_row_def)
qed

lemma exec_err_Reply: "exec_err (snd (deliver d fs r)) = None \<Longrightarrow> \<exists>ns. d = Reply ns"
  by (cases d) (auto simp: deliver_def exec_err_def)

lemma opened_by_simps [simp]:
  "opened_by p (d, now, t, Totals_c q ids) = False" "opened_by p (d, now, t, Close_c q e) = False"
  "opened_by p (d, now, t, Record_c cmd) = False"
  by (simp_all add: opened_by_def)

lemma parts_not_uuid: "\<not> canonical_uuid parts"
  by (simp add: canonical_uuid_def)

text \<open>The gates of a poll are closed; nothing final or newer is stored when the save arrives; the answer.\<close>

definition stays_shut :: "'r store \<Rightarrow> string \<Rightarrow> 'r world \<Rightarrow> bool" where
  "stays_shut s pid w \<longleftrightarrow> shut (buckets s) pid (history_box s (w_calls w))"

definition new_for :: "repo \<Rightarrow> environment \<Rightarrow> string \<Rightarrow> 'r world \<Rightarrow> totals \<Rightarrow> bool" where
  "new_for c E pid w t \<longleftrightarrow> (let d = db_run c (o_writes (before (E C_Save))) (w_db w)
     in existing_final c pid d = None \<and> fresh c t (rr_at d pid))"

definition result_now :: "repo \<Rightarrow> string \<Rightarrow> 'r world \<Rightarrow> err + poll_result" where
  "result_now c pid w = snd (LoadResult c no_faults (\<lambda>x. x) pid (w_db w))"

locale live_closing = postgres_server "server c" + redis_server "client s" look
  for c :: repo and s :: "'r store" and look :: "'r \<Rightarrow> time \<Rightarrow> keyspace" +
  fixes E :: environment and pid :: string and r0 :: 'r and t0 T :: time
  assumes empty: "look r0 t0 = Map.empty" and store: "store_ok s"
    and not_reopened: "i \<in> set (o_calls (before (E C_Totals)) @ o_calls (before (E C_Save))) \<Longrightarrow> \<not> opened_by pid i"
    and saves: "failing (E C_Save) = no_faults" "inside (E C_Save) = (\<lambda>_. [])"
begin

lemma shut_calls:
  assumes "stays_shut s pid w" and "w_calls w' = w_calls w @ h" and "\<And>i. i \<in> set h \<Longrightarrow> \<not> opened_by pid i"
  shows "stays_shut s pid w' \<and> of_poll pid (cast_ballots s (w_calls w')) = of_poll pid (cast_ballots s (w_calls w))"
proof -
  have "\<forall>i \<in> set h. \<not> opened_by pid i" using assms(3) by blast
  from shut_run [OF _ _ not_opened [OF this], of "buckets s" "history_box s (w_calls w)" s] assms(1,2) store
  show ?thesis by (simp add: stays_shut_def cast_ballots_def history_box_append store_ok_def)
qed

lemma world_read_later:
  "world_ok s r0 w \<Longrightarrow> read_from (w_db w) p \<Longrightarrow> read_from (db_run c ws (w_db w)) p"
  using read_from_evolves [OF db_run_evolves refl] by (simp add: world_ok_def)

lemma world_inv_later: "world_ok s r0 w \<Longrightarrow> db_inv (db_run c ws (w_db w))"
  using inv_evolves [OF db_run_evolves refl] by (simp add: world_ok_def)

lemma live_get:
  assumes ok: "world_ok s r0 w" and g: "j_GetByID (live_results c s E) i w = (w', Inr p)"
  shows "world_ok s r0 w' \<and> read_from (w_db w') p"
proof -
  let ?op = "reading (GetByID c (failing (E C_Get)) i)"
  have w': "w' = fst (on_db c s (E C_Get) ?op w)" and p: "Inr p = snd (on_db c s (E C_Get) ?op w)"
    using g by (simp_all add: live_results_def)
  have inv: "db_inv (db_run c (o_writes (before (E C_Get))) (w_db w))" by (rule world_inv_later [OF ok])
  with GetByID_read [OF inv] p ok show ?thesis
    by (fastforce simp: w' world_ok_def w_on_db reading_def)
qed

lemma live_close:
  assumes ok: "world_ok s r0 w" and g: "j_CloseGates (live_store c s E) pid e w = (w', None)"
  shows "world_ok s r0 w' \<and> stays_shut s pid w' \<and> (read_from (w_db w) p \<longrightarrow> read_from (w_db w') p)"
proof -
  let ?c = "E C_Close" and ?op = "\<lambda>t. CloseGates s (link (E C_Close)) (api_now (E C_Close)) t pid e"
  have w': "w' = fst (on_redis c s ?c (Close_c pid e) ?op w)" and y: "None = snd (on_redis c s ?c (Close_c pid e) ?op w)"
    using g by (simp_all add: live_store_def)
  obtain ns where "link ?c = Reply ns"
    using y [symmetric] unfolding w_calls_on_redis CloseGates_def by (auto simp: split_beta Let_def dest!: exec_err_Reply)
  then have "stays_shut s pid w'"
    using close_shuts [of s pid "w_calls w @ o_calls (before ?c)"]
    by (simp add: stays_shut_def w' w_calls_on_redis)
  moreover have "recorded s r0 w'"
    unfolding w' using ok by (intro recorded_on_redis) (simp_all add: world_ok_def)
  ultimately show ?thesis
    using world_inv_later [OF ok] world_read_later [OF ok] by (simp add: world_ok_def w' w_calls_on_redis)
qed

lemma live_count:
  assumes ok: "world_ok s r0 w" and sh: "stays_shut s pid w" and g: "j_Totals (live_store c s E) pid ids w = (w', Inr t)"
  shows "world_ok s r0 w' \<and> stays_shut s pid w' \<and> (read_from (w_db w) p \<longrightarrow> read_from (w_db w') p) \<and>
    ((\<exists>t1. history_ok s t0 t1 T (w_calls w')) \<longrightarrow> parts \<notin> set ids \<longrightarrow>
     t = ballot_totals (cast_ballots s (w_calls w')) pid ids (tot_AsOf t))"
proof -
  let ?c = "E C_Totals" and ?op = "\<lambda>t. Totals s (link (E C_Totals)) (api_now (E C_Totals)) t pid ids"
  let ?h = "w_calls w @ o_calls (before ?c)"
  have w': "w' = fst (on_redis c s ?c (Totals_c pid ids) ?op w)" and y: "Inr t = snd (on_redis c s ?c (Totals_c pid ids) ?op w)"
    using g by (simp_all add: live_store_def)
  have calls: "w_calls w' = ?h @ [(link ?c, api_now ?c, w_now w', Totals_c pid ids)]" by (simp add: w' w_calls_on_redis)
  have rec: "recorded s r0 w" using ok by (simp add: world_ok_def)
  have t: "Inr t = snd (Totals s (link ?c) (api_now ?c) (w_now w') pid ids (store_run s ?h r0))"
    unfolding y by (simp add: on_redis_history [OF rec]) (simp add: w' w_calls_on_redis)
  obtain ns where ns: "link ?c = Reply ns"
    using t unfolding Totals_def by (auto simp: split_beta Let_def split: option.splits dest!: exec_err_Reply)
  have shut': "stays_shut s pid w' \<and> of_poll pid (cast_ballots s (w_calls w')) = of_poll pid (cast_ballots s (w_calls w))"
    by (rule shut_calls [OF sh]) (use not_reopened in \<open>auto simp: w' w_calls_on_redis\<close>)
  have mid: "of_poll pid (cast_ballots s ?h) = of_poll pid (cast_ballots s (w_calls w))"
    using shut_calls [OF sh, of "w\<lparr>w_calls := ?h\<rparr>" "o_calls (before ?c)"] not_reopened by simp
  have "t = ballot_totals (cast_ballots s (w_calls w')) pid ids (tot_AsOf t)"
    if "history_ok s t0 t1 T (w_calls w')" "parts \<notin> set ids" for t1
  proof -
    have "history_ok s t0 (w_now w') T ?h" using that(1) history_ok_append unfolding calls by blast
    from Totals_history [OF refl empty this that(2)] t ns
    have "t = ballot_totals (cast_ballots s ?h) pid ids (api_now ?c)" by simp
    also have "\<dots> = ballot_totals (cast_ballots s (w_calls w')) pid ids (api_now ?c)"
      by (rule ballot_totals_of_poll) (use shut' mid in simp)
    finally show ?thesis by (simp add: ballot_totals_def)
  qed
  moreover have "recorded s r0 w'"
    unfolding w' using ok by (intro recorded_on_redis) (simp_all add: world_ok_def)
  ultimately show ?thesis
    using shut' world_inv_later [OF ok] world_read_later [OF ok] by (auto simp: world_ok_def w' w_calls_on_redis)
qed

lemma live_save:
  assumes ok: "world_ok s r0 w" and sh: "stays_shut s pid w" and rd: "read_from (w_db w) p" and p: "ID p = pid"
    and new: "new_for c E pid w t" and g: "j_SaveSnapshot (live_results c s E) p t True w = (w', Inr r)"
  shows "world_ok s r0 w' \<and> stays_shut s pid w' \<and>
    of_poll pid (cast_ballots s (w_calls w')) = of_poll pid (cast_ballots s (w_calls w)) \<and>
    ((\<exists>t1. history_ok s t0 t1 T (w_calls w')) \<longrightarrow> (\<exists>t1. history_ok s t0 t1 T (w_calls w))) \<and>
    result_now c pid w' = Inr r \<and> res_Participants r = tot_Participants t \<and> res_Status r = Closed \<and>
    res_FinalizedAt r \<noteq> None \<and> res_Options r = (\<lambda>k. if k \<in> set (optionIDs p) then Some (map_get (tot_Options t) k) else None)"
proof -
  let ?e = "E C_Save"
  let ?d = "db_run c (o_writes (before ?e)) (w_db w)"
  have mid: "db_run c [] = (\<lambda>x. x)" by (simp add: db_run_def fun_eq_iff)
  let ?op = "SaveSnapshot c no_faults (\<lambda>k x. x) p t True"
  have w': "w' = fst (on_db c s ?e ?op w)" and r: "Inr r = snd (on_db c s ?e ?op w)"
    using g saves by (simp_all add: live_results_def mid)
  have inv: "db_inv ?d" by (rule world_inv_later [OF ok])
  have rd': "read_from ?d p"
    using read_from_evolves [OF db_run_evolves refl _ rd] ok by (simp add: world_ok_def)
  have run: "SaveSnapshot c no_faults (\<lambda>k x. x) p t True ?d = (w_db w', Inr r)"
    using r by (simp add: w' w_on_db prod_eq_iff)
  have calls: "w_calls w' = w_calls w @ o_calls (before ?e)" by (simp add: w' w_on_db)
  have "db_inv (w_db w')"
  proof -
    obtain d1 where "run_tx no_faults (save_tx c no_faults p t True) ?d = (d1, Inr ())"
      using run by (auto simp: SaveSnapshot_def split: prod.splits sum.splits)
    then have "d1 = db_do c (W_save no_faults p t True) ?d" "w_db w' = d1"
      using run by (auto simp: SaveSnapshot_def LoadResult_def Let_def split: sum.splits if_splits)
    moreover have "write_ok c (W_save no_faults p t True) ?d" using rd' by (simp add: read_from_def)
    ultimately show ?thesis using inv_write [OF refl inv] by metis
  qed
  moreover have "recorded s r0 w'" using ok by (simp add: w' world_ok_def)
  moreover have "stays_shut s pid w' \<and> of_poll pid (cast_ballots s (w_calls w')) = of_poll pid (cast_ballots s (w_calls w))"
    by (rule shut_calls [OF sh calls]) (use not_reopened in simp)
  moreover have "\<exists>t1. history_ok s t0 t1 T (w_calls w)" if "\<exists>t1. history_ok s t0 t1 T (w_calls w')"
    using that history_ok_prefix unfolding calls by blast
  moreover have e: "existing_final c (ID p) ?d = None" "fresh c t (rr_at ?d (ID p))"
    using new p by (simp_all add: new_for_def Let_def)
  note res = SaveSnapshot_result [OF postgres_server_axioms inv rd' run]
  have "res_Participants r = tot_Participants t"
  proof (cases "rr_at ?d (ID p)")
    case None
    then show ?thesis using conjunct1 [OF res] by simp
  next
    case (Some q)
    then have "rr_finalized_at q = None" "rr_captured_at q \<le> ts (server c) (tot_AsOf t)"
      using e existing_final_at [OF read_from_id(2) [OF postgres_server_axioms inv rd'], of ?d] by (simp_all add: fresh_def)
    with Some show ?thesis using conjunct1 [OF res] by simp
  qed
  moreover have "res_Status r = Closed \<and> res_FinalizedAt r \<noteq> None \<and>
      res_Options r = (\<lambda>k. if k \<in> set (optionIDs p) then Some (map_get (tot_Options t) k) else None)"
    using conjunct2 [OF res] e by (simp add: optionIDs_def)
  moreover have "result_now c pid w' = Inr r"
    using run p by (auto simp: SaveSnapshot_def result_now_def LoadResult_def Let_def split: prod.splits sum.splits if_splits)
  ultimately show ?thesis by (simp add: world_ok_def)
qed

end

sublocale live_closing \<subseteq> live: closing "live_results c s E" "live_store c s E" pid "world_ok s r0"
  "\<lambda>w. \<exists>t1. history_ok s t0 t1 T (w_calls w)" "\<lambda>w. cast_ballots s (w_calls w)" "stays_shut s pid"
  "\<lambda>w p. read_from (w_db w) p" "new_for c E pid" "result_now c pid"
proof (unfold_locales, goal_cases)
  case (1 w i w' p)
  then show ?case by (rule live_get)
next
  case (2 w e w' p)
  then show ?case by (rule live_close)
next
  case (3 w ids w' t p)
  then show ?case by (rule live_count)
next
  case (4 w p t w' r)
  then show ?case by (rule live_save)
next
  case (5 w p)
  then have "canonical_uuid (opt_ID x)" if "x \<in> set (Options p)" for x
    using read_from_options [of "w_db w" p] that by (simp add: world_ok_def)
  with parts_not_uuid show ?case by (auto simp: optionIDs_def)
qed

context live_closing
begin

lemmas live_outcome = live.close_outcome

text \<open>What was accepted before the gates were closed is all there will ever be.\<close>

lemma counted_for_good:
  assumes "stays_shut s pid w" and "\<And>i. i \<in> set later \<Longrightarrow> \<not> opened_by pid i"
  shows "poll_tally (cast_ballots s (w_calls w @ later)) pid f = poll_tally (cast_ballots s (w_calls w)) pid f"
  using shut_calls [OF assms(1), of "w\<lparr>w_calls := w_calls w @ later\<rparr>" later] assms(2)
    poll_tally_of_poll [of "cast_ballots s (w_calls w @ later)" pid f] poll_tally_of_poll [of "cast_ballots s (w_calls w)" pid f]
  by simp

end

section \<open>Claims\<close>

text \<open>The tables when the call that saves the final result arrives, after all that others wrote meanwhile.\<close>

definition db_at_save :: "repo \<Rightarrow> environment \<Rightarrow> 'r world \<Rightarrow> db" where
  "db_at_save c E w = foldl (\<lambda>d k. db_run c (o_writes (before (E k))) d) (w_db w) [C_Get, C_Close, C_Totals, C_Save]"

text \<open>The ballots of a poll, and those of them that chose an option.\<close>

definition ballots_for :: "string \<Rightarrow> ballot list \<Rightarrow> nat" where
  "ballots_for pid bl = length (filter (\<lambda>(q, h, os). q = pid) bl)"

definition ballots_choosing :: "string \<Rightarrow> string \<Rightarrow> ballot list \<Rightarrow> nat" where
  "ballots_choosing pid k bl = length (filter (\<lambda>(q, h, os). q = pid \<and> k \<in> set os) bl)"

lemma addCounters_AsOf: "addCounters x valid vs = Inr y \<Longrightarrow> tot_AsOf y = tot_AsOf x"
proof (induction x valid vs rule: addCounters.induct)
  case (2 t valid field raw vs)
  then show ?case by (cases "parse_int64 raw") (simp_all split: if_splits)
qed simp

lemma sum_buckets_AsOf: "sum_buckets x valid xs = Inr y \<Longrightarrow> tot_AsOf y = tot_AsOf x"
proof (induction xs arbitrary: x)
  case (Cons r xs)
  show ?case
  proof (cases r)
    case (RPairs vs)
    with Cons.prems obtain t where "addCounters x valid vs = Inr t" "sum_buckets t valid xs = Inr y"
      by (cases "addCounters x valid vs") simp_all
    with Cons.IH addCounters_AsOf show ?thesis by fastforce
  qed (use Cons.prems in simp_all)
qed simp

lemma Totals_AsOf: "snd (Totals s d now t p ids r) = Inr tot \<Longrightarrow> tot_AsOf tot = now"
  by (auto simp: Totals_def zero_totals_def split_beta split: option.splits dest: sum_buckets_AsOf)

lemma Close_outcome:
  assumes "postgres_server (server c)" and "redis_server (client s) look" and "look r0 t0 = Map.empty"
    and "store_ok s" and "world_ok s r0 w"
    and "\<forall>x \<in> set (o_calls (before (E C_Totals)) @ o_calls (before (E C_Save)) @ later). \<not> opened_by (ID p) x"
    and "failing (E C_Save) = no_faults" and "inside (E C_Save) = (\<lambda>_. [])"
    and "j_GetByID (live_results c s E) i w = (w1, Inr p)" and "Status p = Active"
    and "ResultService_Close (live_results c s E) (live_store c s E) i (w, C) = ((w', C'), Inr (p', r))"
    and "history_ok s t0 t1 T (w_calls w')"
    and "existing_final c (ID p) (db_at_save c E w) = None"
    and "\<forall>q. rr_at (db_at_save c E w) (ID p) = Some q \<longrightarrow> rr_captured_at q \<le> ts (server c) (api_now (E C_Totals))"
  shows "p' = p\<lparr>Status := Closed, ClosedAt := res_FinalizedAt r\<rparr> \<and> res_Status r = Closed \<and> res_FinalizedAt r \<noteq> None \<and>
    C' = cache_delete i C \<and>
    res_Participants r = int (ballots_for (ID p) (cast_ballots s (w_calls w' @ later))) \<and>
    res_Options r = (\<lambda>k. if k \<in> set (optionIDs p)
      then Some (int (ballots_choosing (ID p) k (cast_ballots s (w_calls w' @ later)))) else None) \<and>
    (\<forall>d. evolves c (w_db w') d \<longrightarrow> snd (LoadResult c no_faults (\<lambda>x. x) (ID p) d) = Inr r)"
proof -
  have L: "live_closing c s look E (ID p) r0 t0"
    using assms(1-8) by (intro live_closing.intro live_closing_axioms.intro) auto
  have new: "new_for c E (ID p) w3 t"
    if 2: "j_CloseGates (live_store c s E) (ID p) (EndsAt p) w1 = (w2, None)"
      and 3: "j_Totals (live_store c s E) (ID p) (optionIDs p) w2 = (w3, Inr t)" for w2 w3 t
  proof -
    have "tot_AsOf t = api_now (E C_Totals)"
      using 3 Totals_AsOf by (auto simp: live_store_def on_redis_def Let_def split_beta)
    moreover have "db_run c (o_writes (before (E C_Save))) (w_db w3) = db_at_save c E w"
      using assms(9) 2 3
      by (auto simp: db_at_save_def live_results_def live_store_def on_redis_def on_db_def others_def reading_def
          Let_def split_beta)
    ultimately show ?thesis
      using assms(13,14) by (simp add: new_for_def fresh_def split: option.splits)
  qed
  have hist: "\<exists>t1. history_ok s t0 t1 T (w_calls w')" using assms(12) by blast
  let ?n = "\<lambda>k. int (poll_tally (cast_ballots s (w_calls w')) (ID p) k)"
  have out: "stays_shut s (ID p) w' \<and> world_ok s r0 w' \<and> result_now c (ID p) w' = Inr r \<and> C' = cache_delete i C \<and>
      p' = p\<lparr>Status := Closed, ClosedAt := res_FinalizedAt r\<rparr> \<and> res_Status r = Closed \<and> res_FinalizedAt r \<noteq> None \<and>
      res_Participants r = ?n parts \<and> res_Options r = (\<lambda>k. if k \<in> set (optionIDs p) then Some (?n k) else None)"
    by (rule live_closing.live_outcome [OF L assms(5,9,10) refl assms(11) hist]) (rule new)
  have ok: "world_ok s r0 w'" and sh: "stays_shut s (ID p) w'" and now: "result_now c (ID p) w' = Inr r"
    and fin: "res_FinalizedAt r \<noteq> None" using out by blast+
  have tally: "poll_tally (cast_ballots s (w_calls w' @ later)) (ID p) f = poll_tally (cast_ballots s (w_calls w')) (ID p) f" for f
    by (rule live_closing.counted_for_good [OF L sh]) (use assms(6) in auto)
  have plain: "parts \<notin> set (optionIDs p)"
    using live_closing.live_get [OF L assms(5,9)] postgres_server.read_from_options [OF assms(1)] parts_not_uuid
    by (fastforce simp: optionIDs_def world_ok_def)
  have perm: "snd (LoadResult c no_faults (\<lambda>x. x) (ID p) d) = Inr r" if "evolves c (w_db w') d" for d
    using final_result_stays [OF assms(1) _ that _ fin] ok now by (simp add: world_ok_def result_now_def)
  have parts_n: "poll_tally (cast_ballots s (w_calls w')) (ID p) parts = ballots_for (ID p) (cast_ballots s (w_calls w' @ later))"
    using tally [of parts] by (simp add: ballots_for_def poll_tally_parts)
  have opt_n: "poll_tally (cast_ballots s (w_calls w')) (ID p) k = ballots_choosing (ID p) k (cast_ballots s (w_calls w' @ later))"
    if "k \<in> set (optionIDs p)" for k
    using tally [of k] poll_tally_option [OF that plain, of "cast_ballots s (w_calls w' @ later)" "ID p"]
    by (simp add: ballots_choosing_def)
  show ?thesis using out perm parts_n opt_n by (auto simp: fun_eq_iff)
qed


section \<open>A concrete run\<close>

text \<open>A device votes just before Close has read the poll.\<close>

definition demo_ballot :: vote_command where
  "demo_ballot = \<lparr>vc_PollID = demo_id, vc_DeviceHash = ''d0'', vc_OptionIDs = [demo_yes], vc_EndsAt = Hour\<rparr>"

definition demo_closing :: environment where
  "demo_closing k = (demo_env Second k)\<lparr>before := \<lparr>o_writes = [],
     o_calls = (if k = C_Get then [(Reply [], Second, Second, Record_c demo_ballot)] else []), o_later = 0\<rparr>\<rparr>"

abbreviation demo_voted :: "invocation list" where
  "demo_voted \<equiv> demo_calls @ [(Reply [], Second, Second, Record_c demo_ballot)]"

text \<open>What Close adds to a history.\<close>

definition demo_shut :: "invocation list \<Rightarrow> invocation list" where
  "demo_shut h = h @ [(Reply [], Second, Second, Close_c demo_id Hour)]"

definition demo_summed :: "invocation list \<Rightarrow> invocation list" where
  "demo_summed h = demo_shut h @ [(Reply [], Second, Second, Totals_c demo_id [demo_yes, demo_no])]"

lemma demo_summed_ok: "history_ok demo_store 0 Second Hour (demo_summed demo_voted)"
  using demo_TTL(1) demo_store_ok
  by (simp add: history_ok_def demo_calls_def history_events_def delivered_def gate_events_def demo_store_def demo_shut_def
      demo_summed_def peek_events_def demo_ballot_def plain_hash_def duration_unit_defs numeral_2_eq_2)

lemma demo_voted_ballot: "cast_ballots demo_store demo_voted = [(demo_id, ''d0'', [demo_yes])]"
proof -
  have "Bucket ''d0'' 2 < 2" by (simp add: Bucket_less)
  then have "vote_answer (buckets demo_store) Second demo_ballot (history_box demo_store demo_calls) = Inr VoteRecorded"
    using demo_gate_open demo_no_ballots
    by (simp add: vote_answer_def voters_def cast_ballots_def demo_ballot_def) (simp add: demo_store_def)
  then show ?thesis
    using history_box_vote [of demo_store demo_calls "Reply []" Second Second demo_ballot] demo_no_ballots
    by (simp add: cast_ballots_def ran_def vote_box_ballots demo_ballot_def)
qed

lemma demo_summed_ballots: "cast_ballots demo_store (demo_shut h) = cast_ballots demo_store h"
    "cast_ballots demo_store (demo_summed h) = cast_ballots demo_store h"
proof -
  show s: "cast_ballots demo_store (demo_shut h) = cast_ballots demo_store h"
    using close_shuts [of demo_store demo_id h "[]" Second Second Hour] by (simp add: cast_ballots_def demo_shut_def)
  have "history_box demo_store (demo_summed h) = history_box demo_store (demo_shut h)"
    using history_box_append [of demo_store "demo_shut h" "[(Reply [], Second, Second, Totals_c demo_id [demo_yes, demo_no])]"]
    by (simp add: demo_summed_def history_events_def delivered_def peek_events_def demo_store_def numeral_2_eq_2)
  with s show "cast_ballots demo_store (demo_summed h) = cast_ballots demo_store h" by (simp add: cast_ballots_def)
qed

lemma demo_counted:
  assumes "history_ok demo_store 0 Second Hour (demo_shut h)" and "cast_ballots demo_store h = [(demo_id, x, [demo_yes])]"
  shows "snd (Totals demo_store (Reply []) Second Second demo_id [demo_yes, demo_no] (store_run demo_store (demo_shut h) [])) =
     Inr (demo_totals 1 Second)"
proof -
  have "ballot_totals (cast_ballots demo_store (demo_shut h)) demo_id [demo_yes, demo_no] Second = demo_totals 1 Second"
    unfolding demo_summed_ballots(1) assms(2) by (simp add: ballot_totals_def demo_totals_def poll_tally_def fun_eq_iff)
  then show ?thesis
    using redis_server.Totals_history [OF demo_mem(1) refl demo_mem(2) assms(1), of "[demo_yes, demo_no]" "[]" Second demo_id]
    by simp
qed

lemma demo_closing_simps:
  "before (demo_closing k) = \<lparr>o_writes = [], o_calls = (if k = C_Get then [(Reply [], Second, Second, Record_c demo_ballot)] else []),
     o_later = 0\<rparr>"
  "inside (demo_closing k) = (\<lambda>_. [])" "failing (demo_closing k) = no_faults" "link (demo_closing k) = Reply []"
  "api_now (demo_closing k) = Second"
  by (simp_all add: demo_closing_def demo_env_def)

definition demo_stage :: "invocation list \<Rightarrow> mem world" where
  "demo_stage h = \<lparr>w_db = demo_active, w_redis = store_run demo_store h [], w_now = Second, w_calls = h\<rparr>"

text \<open>A process that closes at \<^term>\<open>Second\<close> while nobody else acts.\<close>

definition calm_close :: "environment \<Rightarrow> bool" where
  "calm_close E \<longleftrightarrow> (\<forall>k. k \<noteq> C_Get \<longrightarrow> E k = demo_env Second k)"

lemma demo_close_steps:
  assumes E: "calm_close E" and h: "history_ok demo_store 0 Second Hour (demo_summed h)" "cast_ballots demo_store h = [(demo_id, x, [demo_yes])]"
  shows "j_CloseGates (live_store demo_repo demo_store E) demo_id Hour (demo_stage h) = (demo_stage (demo_shut h), None)"
    and "j_Totals (live_store demo_repo demo_store E) demo_id [demo_yes, demo_no] (demo_stage (demo_shut h)) =
      (demo_stage (demo_summed h), Inr (demo_totals 1 Second))"
    and "\<exists>r. j_SaveSnapshot (live_results demo_repo demo_store E) demo_poll (demo_totals 1 Second) True (demo_stage (demo_summed h)) =
      ((demo_stage (demo_summed h))\<lparr>w_db := demo_saved 1 Second True\<rparr>, Inr r)"
proof -
  have same: "db_run demo_repo [] d = d" for d by (simp add: db_run_def)
  have e: "E C_Close = demo_env Second C_Close" "E C_Totals = demo_env Second C_Totals" "E C_Save = demo_env Second C_Save"
    using E by (simp_all add: calm_close_def)
  note env = live_results_def live_store_def on_db_def on_redis_def others_def demo_env_def none_else_def same
  have g: "snd (CloseGates demo_store (Reply []) Second Second demo_id Hour r) = None" for r
    using redis_server.gates_answered(2) [OF demo_redis refl demo_store_ok] .
  show "j_CloseGates (live_store demo_repo demo_store E) demo_id Hour (demo_stage h) = (demo_stage (demo_shut h), None)"
    by (simp add: env e demo_stage_def demo_shut_def store_run_append split_beta g)
  have "history_ok demo_store 0 Second Hour (demo_shut h)" using h(1) history_ok_prefix unfolding demo_summed_def by blast
  note t = demo_counted [OF this h(2)]
  show "j_Totals (live_store demo_repo demo_store E) demo_id [demo_yes, demo_no] (demo_stage (demo_shut h)) =
      (demo_stage (demo_summed h), Inr (demo_totals 1 Second))"
    by (simp add: env e demo_stage_def split_beta t demo_summed_def store_run_append)
  have mid: "(\<lambda>k. db_run demo_repo []) = (\<lambda>k x. x)" by (simp add: same fun_eq_iff)
  obtain r where "SaveSnapshot demo_repo no_faults (\<lambda>k x. x) demo_poll (demo_totals 1 Second) True demo_active =
      (demo_saved 1 Second True, Inr r)"
    using demo_SaveSnapshot [of 1 Second True] by auto
  then show "\<exists>r. j_SaveSnapshot (live_results demo_repo demo_store E) demo_poll (demo_totals 1 Second) True (demo_stage (demo_summed h)) =
      ((demo_stage (demo_summed h))\<lparr>w_db := demo_saved 1 Second True\<rparr>, Inr r)"
    by (simp add: env e mid demo_stage_def)
qed

lemma demo_poll_ids: "ID demo_poll = demo_id" "optionIDs demo_poll = [demo_yes, demo_no]"
  by (simp_all add: optionIDs_def demo_poll_simps demo_opts_def)

lemma demo_closes:
  assumes "calm_close E" and "history_ok demo_store 0 Second Hour (demo_summed h)" and "cast_ballots demo_store h = [(demo_id, x, [demo_yes])]"
    and get: "j_GetByID (live_results demo_repo demo_store E) demo_id w = (demo_stage h, Inr demo_poll)"
  shows "\<exists>w' r. ResultService_Close (live_results demo_repo demo_store E) (live_store demo_repo demo_store E) demo_id (w, C) =
     ((w', cache_delete demo_id C), Inr (demo_poll\<lparr>Status := Closed, ClosedAt := res_FinalizedAt r\<rparr>, r)) \<and>
     w_calls w' = demo_summed h"
proof -
  obtain r where "j_SaveSnapshot (live_results demo_repo demo_store E) demo_poll (demo_totals 1 Second) True (demo_stage (demo_summed h)) =
      ((demo_stage (demo_summed h))\<lparr>w_db := demo_saved 1 Second True\<rparr>, Inr r)"
    using demo_close_steps(3) [OF assms(1-3)] by blast
  then show ?thesis
    by (simp add: ResultService_Close_def get demo_close_steps(1,2) [OF assms(1-3)] demo_poll_fields demo_poll_ids)
       (simp add: demo_stage_def)
qed

lemma demo_get:
  "j_GetByID (live_results demo_repo demo_store demo_closing) demo_id demo_running = (demo_stage demo_voted, Inr demo_poll)"
  by (simp add: live_results_def on_db_def others_def reading_def demo_closing_simps db_run_def demo_running_def demo_stage_def
      demo_poll_loaded store_run_append)

lemma demo_calm: "calm_close demo_closing"
  by (simp add: calm_close_def demo_closing_def demo_env_def none_else_def)

text \<open>Nothing is stored yet that keeps the result from being saved.\<close>

lemma demo_nothing_stored: "existing_final demo_repo demo_id demo_active = None" "rr_at demo_active demo_id = None"
  by (simp_all add: existing_final_def demo_active_state demo_state rr_at_def)

interpretation demo_closing: live_closing demo_repo demo_store mem_look demo_closing demo_id "[]" 0 Hour
  by (intro live_closing.intro live_closing_axioms.intro demo_server demo_redis demo_mem(2) demo_store_ok)
     (simp_all add: demo_closing_simps)


end
