(* ===== verification/Redis_Limits.thy ===== *)
theory Redis_Limits
  imports Redis_Props
begin

text \<open>
  The other users of the server: the rate limiter and the snapshot lock of
  internal/redisstore/votes.go, and how long gates and markers live.
\<close>

section \<open>Repeated attempts of one command\<close>

lemma attempts_one: "attempts ns [f] r = ((\<lambda>x. fst (f x)) ^^ length (filter (\<lambda>n. 0 < n) ns)) r"
proof (induction ns arbitrary: r)
  case Nil
  then show ?case by simp
next
  case (Cons n ns)
  then show ?case by (cases n) (simp_all add: split_beta funpow_Suc_right del: funpow.simps)
qed

lemma attempts_none: "\<not> ran_before ns \<Longrightarrow> attempts ns [f] r = r"
  by (simp add: attempts_one ran_before_iff)

lemma attempts_some:
  "ran_before ns \<Longrightarrow> \<exists>m. attempts ns [f] r = ((\<lambda>x. fst (f x)) ^^ m) (fst (f r))"
  using funpow_Suc_right [of "length (filter (\<lambda>n. 0 < n) ns) - 1" "\<lambda>x. fst (f x)"]
  by (auto simp: attempts_one ran_before_iff)

lemma deliver_one_step:
  "deliver d [f] r = (case d of
     Reply ns \<Rightarrow> (fst (f (attempts ns [f] r)), Inr [snd (f (attempts ns [f] r))])
   | NoReply ns \<Rightarrow> (attempts ns [f] r, Inl (Other ''redis: connection failed'')))"
  by (simp add: deliver_def split_beta split: delivery.split)

lemma funpow_inv: "P r \<Longrightarrow> (\<And>x. P x \<Longrightarrow> P (f x)) \<Longrightarrow> P ((f ^^ m) r)"
  by (induction m) auto

section \<open>The rate limiter\<close>

text \<open>A run of requests of one network in one minute; the answers of the limiter.\<close>

fun rate_run :: "'r store \<Rightarrow> string \<Rightarrow> int \<Rightarrow> (nat list \<times> time \<times> time) list \<Rightarrow> 'r \<Rightarrow> (err + bool) list" where
  "rate_run s h limit [] r = []"
| "rate_run s h limit ((ns, now, t) # xs) r =
     (let (r', x) = AllowRate s (Reply ns) now t h limit r in x # rate_run s h limit xs r')"

text \<open>The specification: the request that is the k-th to reach the server is let through iff k is within
  the limit; every repeated attempt counts.\<close>

fun rate_spec :: "int \<Rightarrow> int \<Rightarrow> (nat list \<times> time \<times> time) list \<Rightarrow> bool list" where
  "rate_spec limit c [] = []"
| "rate_spec limit c ((ns, now, t) # xs) =
     (let c' = c + int (length (filter (\<lambda>n. 0 < n) ns)) + 1 in (c' \<le> limit) # rate_spec limit c' xs)"

fun hits_of :: "(nat list \<times> time \<times> time) list \<Rightarrow> int" where
  "hits_of [] = 0"
| "hits_of ((ns, now, t) # xs) = int (length (filter (\<lambda>n. 0 < n) ns)) + 1 + hits_of xs"

lemma hits_of_nonneg: "0 \<le> hits_of xs"
  by (induction xs rule: hits_of.induct) auto

text \<open>The window has counted \<open>c\<close> hits and expires at \<open>d\<close>; nothing counted is the absent key.\<close>

definition window :: "keyspace \<Rightarrow> string \<Rightarrow> int \<Rightarrow> time \<Rightarrow> bool" where
  "window m key c d \<longleftrightarrow>
     (if c = 0 then m key = None else 0 < c \<and> m key = Some (RStr (itoa c), Some d))"

context redis_server
begin

lemma rate_step:
  assumes "window (look r t) key c d" and "in64 (c + 1)" and "c = 0 \<Longrightarrow> d = s_after t 65"
  shows "snd (rate_lua C t key limit 65 r) = RInt (if c + 1 > limit then 0 else 1) \<and>
    window (look (fst (rate_lua C t key limit 65 r)) t) key (c + 1) d"
proof -
  have c: "0 \<le> c" using assms(1) by (auto simp: window_def split: if_splits)
  have "counter_of (str_of (look r t key)) = Some c" and h: "\<not> is_hash (look r t key)"
  proof -
    have "in64 c" using assms(2) c by (simp add: in64_def)
    then show "counter_of (str_of (look r t key)) = Some c" and "\<not> is_hash (look r t key)"
      using assms(1) by (auto simp: window_def str_of_def counter_of_def is_hash_def parse_int64_itoa split: if_splits)
  qed
  from INCR_ok [OF h this(1) assms(2)] obtain r1 where
    i: "exec C t (INCR key) r = (r1, RInt (c + 1))"
    and l: "look r1 t = (look r t)(key \<mapsto> (RStr (itoa (c + 1)), deadline_of (look r t key)))"
    by (metis prod.collapse)
  show ?thesis
  proof (cases "c = 0")
    case True
    have e: "look (fst (exec C t (EXPIRE key 65) r1)) t key = Some (RStr (itoa 1), Some (s_after t 65))"
      and x: "snd (exec C t (EXPIRE key 65) r1) = RInt 1"
      using EXPIRE_state [of 65 t key r1] EXPIRE_reply [of 65 t key r1] l True by simp_all
    have "rate_lua C t key limit 65 r =
        (fst (exec C t (EXPIRE key 65) r1), RInt (if 1 > limit then 0 else 1))"
      using i True x by (simp add: rate_lua_def lua_call_def Let_def split_beta)
    with e True assms(3) show ?thesis by (simp add: window_def)
  next
    case False
    then have "rate_lua C t key limit 65 r = (r1, RInt (if c + 1 > limit then 0 else 1))"
      using i by (simp add: rate_lua_def lua_call_def)
    with l False c assms(1) show ?thesis by (simp add: window_def deadline_of_def)
  qed
qed

lemma rate_steps:
  assumes "window (look r t) key c d" and "in64 (c + int m)" and "c = 0 \<Longrightarrow> d = s_after t 65"
  shows "window (look (((\<lambda>x. fst (rate_lua C t key limit 65 x)) ^^ m) r) t) key (c + int m) d"
  using assms(2)
proof (induction m)
  case 0
  then show ?case using assms(1) by simp
next
  case (Suc m)
  have c: "0 \<le> c" using assms(1) by (auto simp: window_def split: if_splits)
  with Suc.prems have "in64 (c + int m)" by (simp add: in64_def)
  note IH = Suc.IH [OF this]
  have "c + int m = 0 \<Longrightarrow> d = s_after t 65" using c assms(3) by auto
  from rate_step [OF IH _ this] Suc.prems show ?case by (simp add: ac_simps)
qed

lemma AllowRate_window:
  assumes "C = client s" and "window (look r t) (rate_key h now) c d"
    and "in64 (c + int (length (filter (\<lambda>n. 0 < n) ns)) + 1)" and "c = 0 \<Longrightarrow> d = s_after t 65"
  shows "snd (AllowRate s (Reply ns) now t h limit r) =
      Inr (c + int (length (filter (\<lambda>n. 0 < n) ns)) + 1 \<le> limit) \<and>
    window (look (fst (AllowRate s (Reply ns) now t h limit r)) t) (rate_key h now)
      (c + int (length (filter (\<lambda>n. 0 < n) ns)) + 1) d"
proof -
  let ?m = "length (filter (\<lambda>n. 0 < n) ns)" and ?f = "rate_lua C t (rate_key h now) limit 65"
  let ?r = "((\<lambda>x. fst (?f x)) ^^ ?m) r"
  have c: "0 \<le> c" using assms(2) by (auto simp: window_def split: if_splits)
  have "window (look ?r t) (rate_key h now) (c + int ?m) d"
    using rate_steps [OF assms(2) _ assms(4), of ?m limit] assms(3) c by (simp add: in64_def)
  from rate_step [OF this assms(3)] assms(4) c
  show ?thesis
    by (auto simp: AllowRate_def deliver_one_step attempts_one assms(1) [symmetric] one_reply_def int_reply_def)
qed

lemma window_later:
  assumes "window (look r t) key c d" and "t \<le> t'" and "t' < d"
  shows "window (look r t') key c d"
  using assms by (auto simp: window_def look_later [OF assms(2)] unexpired_def alive_def split: if_splits)

lemma rate_run_spec:
  assumes "C = client s" and "window (look r t) key c d"
    and "sorted (t # map (snd \<circ> snd) xs)" and "\<forall>(ns, now, t') \<in> set xs. rate_key h now = key \<and> t' < d"
    and "in64 (c + hits_of xs)" and "c = 0 \<Longrightarrow> xs = [] \<or> d = s_after (snd (snd (hd xs))) 65"
  shows "rate_run s h limit xs r = map Inr (rate_spec limit c xs)"
  using assms(2-6)
proof (induction xs arbitrary: r t c)
  case Nil
  then show ?case by simp
next
  case (Cons x xs)
  obtain ns now t' where x: "x = (ns, now, t')" by (cases x)
  let ?c = "c + int (length (filter (\<lambda>n. 0 < n) ns)) + 1"
  let ?r = "fst (AllowRate s (Reply ns) now t' h limit r)"
  have key: "rate_key h now = key" and t': "t' < d" "t \<le> t'" using Cons.prems(2,3) x by auto
  have c: "0 \<le> c" using Cons.prems(1) by (auto simp: window_def split: if_splits)
  have "in64 ?c" using Cons.prems(4) x c hits_of_nonneg [of xs] by (simp add: in64_def)
  moreover have "c = 0 \<Longrightarrow> d = s_after t' 65" using Cons.prems(5) x by simp
  moreover have "window (look r t') (rate_key h now) c d"
    using window_later [OF Cons.prems(1) t'(2,1)] key by simp
  ultimately have a: "snd (AllowRate s (Reply ns) now t' h limit r) = Inr (?c \<le> limit)"
    and w: "window (look ?r t') key ?c d"
    using AllowRate_window [OF assms(1)] key by blast+
  have "rate_run s h limit xs ?r = map Inr (rate_spec limit ?c xs)"
    using Cons.IH [OF w] Cons.prems(2,3,4) x c by (auto simp: ac_simps)
  with a x show ?case by (simp add: split_beta Let_def)
qed

end

text \<open>C10. In one minute of the API clock, the k-th request of a network is let through exactly when k is
  within the limit, where every repeated attempt counts as a request: a lost reply can only make
  the limiter stricter.\<close>

theorem AllowRate_limits:
  assumes "redis_server (client s) look" and "look r t (rate_key h now) = None"
    and "sorted (t # map (snd \<circ> snd) xs)"
    and "\<forall>(ns, now', t') \<in> set xs. now' div Minute = now div Minute \<and> t' < s_after (snd (snd (hd xs))) 65"
    and "hits_of xs < 2 ^ 63"
  shows "rate_run s h limit xs r = map Inr (rate_spec limit 0 xs)"
proof (rule redis_server.rate_run_spec [OF assms(1) refl _ assms(3)])
  let ?d = "s_after (snd (snd (hd xs))) 65"
  show "window (look r t) (rate_key h now) 0 ?d" using assms(2) by (simp add: window_def)
  have "now' div Second div 60 = now' div Minute" for now' :: int
    by (simp add: Minute_def Second_def zdiv_zmult2_eq)
  then show "\<forall>(ns, now', t') \<in> set xs. rate_key h now' = rate_key h now \<and> t' < ?d"
    using assms(4) by (auto simp: rate_key_def)
  show "in64 (0 + hits_of xs)" using assms(5) hits_of_nonneg [of xs] by (simp add: in64_def)
qed simp

theorem AllowRate_limits_witness:
  "rate_run demo_store ''n'' 2 [([], 0, 0), ([1], Second, Second), ([], Second, Second)] [] =
     [Inr True, Inr False, Inr False]"
proof -
  have "rate_run demo_store ''n'' 2 [([], 0, 0), ([1], Second, Second), ([], Second, Second)] [] =
      map Inr (rate_spec 2 0 [([], 0, 0), ([1], Second, Second), ([], Second, Second)])"
    by (rule AllowRate_limits [OF demo_mem(1), of _ 0 _ 0])
       (simp_all add: demo_mem(2) duration_unit_defs s_after_def)
  then show ?thesis by simp
qed

section \<open>The snapshot lock\<close>

context redis_server
begin

lemma lock_free:
  "0 < ms \<Longrightarrow> look r t k = None \<Longrightarrow>
     snd (exec C t (SET_NX_PX k tok ms) r) = ROk \<and>
     look (fst (exec C t (SET_NX_PX k tok ms) r)) t = (look r t)(k \<mapsto> (RStr tok, Some (ms_after t ms)))"
  by (simp add: SET_NX_PX_state SET_NX_PX_reply)

lemma lock_held:
  "0 < ms \<Longrightarrow> look r t k \<noteq> None \<Longrightarrow>
     snd (exec C t (SET_NX_PX k tok ms) r) = RNil \<and> look (fst (exec C t (SET_NX_PX k tok ms) r)) t = look r t"
  by (simp add: SET_NX_PX_state SET_NX_PX_reply)

lemma lock_held_again:
  assumes "0 < ms" and "look r t k \<noteq> None"
  shows "look (((\<lambda>x. fst (exec C t (SET_NX_PX k tok ms) x)) ^^ m) r) t = look r t"
  by (rule funpow_inv [where P = "\<lambda>x. look x t = look r t"]) (use assms in \<open>auto simp: lock_held\<close>)

lemma unlock_other:
  assumes "look r t k = Some (RStr tok', d)" and "tok \<noteq> tok'"
  shows "snd (unlock_lua C t k tok r) = RInt 0 \<and> look (fst (unlock_lua C t k tok r)) t = look r t"
  using assms GET_state [of t k r] GET_reply [of t k r]
  by (auto simp: unlock_lua_def lua_call_def split: prod.split)

lemma unlock_own:
  assumes "look r t k = Some (RStr tok, d)"
  shows "snd (unlock_lua C t k tok r) = RInt 1 \<and> look (fst (unlock_lua C t k tok r)) t = (look r t)(k := None)"
proof -
  let ?r1 = "fst (exec C t (GET k) r)"
  have "unlock_lua C t k tok r = (fst (exec C t (DEL [k]) ?r1), RInt 1)"
    using assms GET_state [of t k r] GET_reply [of t k r] DEL_reply [of t "[k]" ?r1]
    by (simp add: unlock_lua_def lua_call_def split_beta dom_def)
  moreover have "(look r t) |` (- {k}) = (look r t)(k := None)" by (rule restrict_complement_singleton_eq)
  ultimately show ?thesis using GET_state [of t k r] DEL_state [of t "[k]" ?r1] by simp
qed

end

text \<open>C11. While somebody holds the snapshot lock of a poll, nobody acquires it, and nobody but the holder
  of its token releases it: a worker whose lock has expired cannot drop its successor's.\<close>

theorem snapshot_lock_exclusive:
  assumes "redis_server (client s) look" and "look r t (lock_key p) = Some (RStr holder, Some d)" and "0 < ttl"
  shows "snd (AcquireSnapshotLock s (Reply ns) t p token ttl r) = Inr False \<and>
    look (fst (AcquireSnapshotLock s dl t p token ttl r)) t = look r t \<and>
    (token \<noteq> holder \<longrightarrow> look (fst (ReleaseSnapshotLock s dl t p token r)) t = look r t)"
proof (intro conjI impI)
  let ?C = "client s" and ?k = "lock_key p"
  let ?acq = "exec ?C t (SET_NX_PX ?k token (px ?C ttl))" and ?rel = "unlock_lua ?C t ?k token"
  note px = redis_server.px_pos [OF assms(1,3)] and held = redis_server.lock_held [OF assms(1)]
  have same: "look (attempts ns [?acq] r) t = look r t" for ns
    using redis_server.lock_held_again [OF assms(1) px] assms(2) by (simp add: attempts_one)
  have again: "snd (?acq x) = RNil \<and> look (fst (?acq x)) t = look r t" if "look x t = look r t" for x
    using held [OF px, of x t ?k token] that assms(2) by simp
  show "snd (AcquireSnapshotLock s (Reply ns) t p token ttl r) = Inr False"
    using again [OF same] by (simp add: AcquireSnapshotLock_def deliver_one_step one_reply_def)
  show "look (fst (AcquireSnapshotLock s dl t p token ttl r)) t = look r t"
    using again [OF same] same
    by (simp add: AcquireSnapshotLock_def split_beta deliver_one_step split: delivery.split)
  assume "token \<noteq> holder"
  then have rel: "look (fst (?rel x)) t = look r t" if "look x t = look r t" for x
    using redis_server.unlock_other [OF assms(1), of x t ?k holder "Some d" token] assms(2) that by simp
  have "look (attempts ns [?rel] r) t = look r t" for ns
    unfolding attempts_one by (rule funpow_inv [where P = "\<lambda>x. look x t = look r t"]) (simp_all add: rel)
  with rel show "look (fst (ReleaseSnapshotLock s dl t p token r)) t = look r t"
    by (simp add: ReleaseSnapshotLock_def split_beta deliver_one_step split: delivery.split)
qed

theorem snapshot_lock_exclusive_witness:
  "snd (AcquireSnapshotLock demo_store (Reply [1]) 0 ''p'' ''me'' Second
      [(''snapshot-lock:p'', MStr ''you'', Some 5)]) = Inr False"
  using snapshot_lock_exclusive [OF demo_mem(1), of "[(''snapshot-lock:p'', MStr ''you'', Some 5)]" 0 "''p''" "''you''" 5 Second "[1]" "''me''"]
  by (simp add: mem_look_def mem_get_def lock_key_def alive_def Second_def)

text \<open>A free snapshot lock is taken by the first attempt that reaches the server and stays with its
  token; but when that attempt's reply is lost and the client library sends it again, the caller
  is told that it does not have the lock it holds, so that nobody writes a snapshot until the
  lock expires.\<close>

theorem snapshot_lock_acquire:
  assumes "redis_server (client s) look" and "look r t (lock_key p) = None" and "0 < ttl"
  shows "snd (AcquireSnapshotLock s (Reply ns) t p token ttl r) = Inr (\<not> ran_before ns) \<and>
    look (fst (AcquireSnapshotLock s (Reply ns) t p token ttl r)) t =
      (look r t)(lock_key p \<mapsto> (RStr token, Some (ms_after t (px (client s) ttl))))"
proof -
  let ?C = "client s" and ?k = "lock_key p"
  let ?acq = "exec ?C t (SET_NX_PX ?k token (px ?C ttl))"
  let ?m = "(look r t)(?k \<mapsto> (RStr token, Some (ms_after t (px ?C ttl))))"
  note px = redis_server.px_pos [OF assms(1,3)]
  note free = redis_server.lock_free [OF assms(1) px assms(2), of token]
  show ?thesis
  proof (cases "ran_before ns")
    case False
    with free show ?thesis
      by (simp add: AcquireSnapshotLock_def split_beta deliver_one_step attempts_none one_reply_def)
  next
    case True
    obtain m where "attempts ns [?acq] r = ((\<lambda>x. fst (?acq x)) ^^ m) (fst (?acq r))"
      using attempts_some [OF True, of ?acq r] by blast
    with redis_server.lock_held_again [OF assms(1) px, of "fst (?acq r)" t ?k m token] free
    have l: "look (attempts ns [?acq] r) t = ?m" by simp
    with redis_server.lock_held [OF assms(1) px, of "attempts ns [?acq] r" t ?k token] True
    show ?thesis by (simp add: AcquireSnapshotLock_def split_beta deliver_one_step one_reply_def)
  qed
qed

theorem snapshot_lock_acquire_witness:
  "snd (AcquireSnapshotLock demo_store (Reply []) 0 ''p'' ''me'' Second []) = Inr True \<and>
   snd (AcquireSnapshotLock demo_store (Reply [1]) 0 ''p'' ''me'' Second []) = Inr False"
  using snapshot_lock_acquire [OF demo_mem(1), of "[]" 0 "''p''" Second]
  by (simp add: demo_mem(2) Second_def ran_before_def)

section \<open>Lifetimes\<close>

lemma clamp_mono:
  "(t0 :: int) \<le> t \<Longrightarrow> t0 + min (max (x - t0) a) m \<le> t + min (max (x - t) a) m"
  by (simp add: min_def max_def)



text \<open>C9. The cap on the TTL ends long polls early: for a poll whose end plus retention lies beyond the
  cap, a vote is refused as not active from the cap on, even if the poll has not ended.\<close>

theorem long_poll_stops_early:
  assumes "redis_server (client s) look" and "look r t0 = Map.empty"
    and "history_ok s t0 u T ([(Reply [], t, t, Setup_c (vc_PollID cmd) e)] @ [(Reply [], u, u, Record_c cmd)])"
    and "in64 (e - t)" and "in64 (e - t + retention s)"
    and "t + maxTTL s \<le> e + retention s" and "t + maxTTL s \<le> u"
  shows "snd (Record s (Reply []) u u cmd (store_run s [(Reply [], t, t, Setup_c (vc_PollID cmd) e)] r)) =
    Inl (Sentinel ErrNotActive)"
proof -
  let ?p = "vc_PollID cmd" and ?h = "[(Reply [], t, t, Setup_c (vc_PollID cmd) e)]"
  note ok = history_ok_append [OF assms(3)]
  have sok: "store_ok s" using assms(3) by (simp add: history_ok_def)
  then have sec: "Second \<le> maxTTL s" by (simp add: store_ok_def)
  have ttl: "TTL s e t = maxTTL s" using TTL_exact [OF assms(4,5)] assms(6) sec by auto
  have "maxTTL s div Millisecond * Millisecond \<le> maxTTL s"
    using div_mult_mod_eq [of "maxTTL s" Millisecond] pos_mod_sign [of Millisecond "maxTTL s"]
    by (simp add: Millisecond_def)
  then have d: "ms_after t (px (client s) (TTL s e t)) \<le> u"
    using redis_server.px_ms [OF assms(1), of "maxTTL s"] sec assms(7)
    by (simp add: ttl ms_after_def duration_unit_defs)
  have es: "history_events s ?h =
      map (Pair t) (map (\<lambda>b. SetGate ?p b ''active'' (px (client s) (TTL s e t))) [0..<buckets s])"
    by (simp add: history_events_def delivered_def gate_events_def)
  have "gate (history_box s ?h) (?p, b) = (if b < buckets s then Some (''active'', ms_after t (px (client s) (TTL s e t))) else None)" for b
    unfolding history_box_def es by (simp only: gates_run_gate set_upt) (simp add: empty_box_def)
  with d have closed: "\<not> gate_open (history_box s ?h) u ?p b" for b
    by (auto simp: gate_open_def)
  have "sim (buckets s) T (history_box s ?h) (look (store_run s ?h r) u) u"
    using redis_server.history_sim [OF assms(1) refl assms(2)] ok by blast
  from redis_server.Record_sim [OF assms(1) refl this sok conjunct1 [OF conjunct2 [OF ok]], of "[]"] closed
    length_box_history [of s ?h] assms(3)
  show ?thesis by (simp add: ran_before_def vote_answer_def history_ok_def history_events_def)
qed

text \<open>A poll of 60 days under the default cap of 30 days: the vote of day 31 is refused.\<close>

definition long_vote :: vote_command where
  "long_vote = demo_vote\<lparr>vc_EndsAt := 60 * 24 * Hour\<rparr>"

theorem long_poll_stops_early_witness:
  "31 * 24 * Hour < vc_EndsAt long_vote \<and>
   snd (Record demo_store (Reply []) (31 * 24 * Hour) (31 * 24 * Hour) long_vote
      (store_run demo_store [(Reply [], 0, 0, Setup_c ''p'' (60 * 24 * Hour))] [])) =
     Inl (Sentinel ErrNotActive)"
proof -
  let ?t = "31 * 24 * Hour" and ?T = "32 * 24 * Hour"
  have "TTL demo_store (60 * 24 * Hour) ?t = 30 * 24 * Hour"
    by (simp add: TTL_def demo_store_def time_sub_exact dur_add_exact in64_def duration_unit_defs)
  then have "?T < s_after ?t (ceil_seconds (TTL demo_store (60 * 24 * Hour) ?t))"
    using ceil_TTL_pos(2) [OF demo_store_ok, of "60 * 24 * Hour" ?t] by (simp add: s_after_def duration_unit_defs)
  then have "history_ok demo_store 0 ?t ?T
      ([(Reply [], 0, 0, Setup_c ''p'' (60 * 24 * Hour))] @ [(Reply [], ?t, ?t, Record_c long_vote)])"
    using demo_store_ok
    by (simp add: history_ok_def long_vote_def demo_vote_def plain_hash_def history_events_def delivered_def
        gate_events_def) (simp add: demo_store_def duration_unit_defs)
  moreover have "vc_PollID long_vote = ''p''" by (simp add: long_vote_def demo_vote_def)
  ultimately show ?thesis
    using long_poll_stops_early [OF demo_mem, of ?t ?T 0 long_vote "60 * 24 * Hour"]
    by (simp add: in64_def demo_store_def duration_unit_defs long_vote_def)
qed

end
