(* ===== verification/Worker.thy ===== *)
theory Worker
  imports Service_Close Redis_Limits
begin

text \<open>
  The snapshot worker on the services (internal/worker/snapshot.go with \<open>ResultService.Snapshot\<close> and
  \<open>ListActive\<close>): the contract \<open>snapshotting\<close> of the repository and the store for one snapshot, the
  contract \<open>working\<close> of the loop, and the proof that a worker in front of PostgreSQL and Redis only copies
  ballots: its specification is the relation \<open>copies\<close> on the tables.
\<close>

section \<open>The specification\<close>

text \<open>What the tables may become: others write (\<open>W\<close>), and the worker stores totals that were counted (\<open>N\<close>) of
  a poll it has read, never as final ones.\<close>

inductive copies :: "repo \<Rightarrow> db_write set \<Rightarrow> (poll \<Rightarrow> totals \<Rightarrow> bool) \<Rightarrow> db \<Rightarrow> db \<Rightarrow> bool" for c W N d where
  start: "copies c W N d d"
| other: "copies c W N d d' \<Longrightarrow> x \<in> W \<Longrightarrow> write_ok c x d' \<Longrightarrow> copies c W N d (db_do c x d')"
| copy: "copies c W N d d' \<Longrightarrow> read_from d' p \<Longrightarrow> N p t \<Longrightarrow> copies c W N d (db_do c (W_save f p t False) d')"

lemma copies_evolves: "copies c W N d d' \<Longrightarrow> evolves c d d'"
proof (induction rule: copies.induct)
  case (copy d' p t f)
  then have "write_ok c (W_save f p t False) d'" by (simp add: read_from_def)
  with copy.IH show ?case by (rule evolves.more)
qed (blast intro: evolves.intros)+

lemma copies_trans: "copies c W N d' d'' \<Longrightarrow> copies c W N d d' \<Longrightarrow> copies c W N d d''"
  by (induction rule: copies.induct) (blast intro: copies.intros)+

lemma copies_mono:
  assumes "copies c W N d d'" and "\<And>p t. N p t \<Longrightarrow> N' p t"
  shows "copies c W N' d d'"
  using assms(1) by induction (blast intro: copies.intros assms(2))+

lemma copies_run: "copies c W N d d' \<Longrightarrow> set ws \<subseteq> W \<Longrightarrow> copies c W N d (db_run c ws d')"
proof (induction ws arbitrary: d')
  case (Cons x ws)
  then have "copies c W N d (if write_ok c x d' then db_do c x d' else d')" by (auto intro: copies.intros)
  from Cons.IH [OF this] Cons.prems(2) show ?case by (simp add: db_run_def)
qed (simp add: db_run_def)

text \<open>Alone, the worker changes no poll, and what it has stored are counts.\<close>

context postgres_server
begin

lemma copy_tables:
  assumes "D = server c" and "db_inv d" and "read_from d p"
  shows "polls (db_do c (W_save f p t False) d) = polls d \<and> poll_options (db_do c (W_save f p t False) d) = poll_options d \<and>
    (\<forall>u. rr_at (db_do c (W_save f p t False) d) u = rr_at d u \<or>
      u = ID p \<and> rr_at (db_do c (W_save f p t False) d) u = Some (result_row_of c u t False))"
proof -
  consider "db_do c (W_save f p t False) d = d" | x where "save_tx c f p t False d = Inr (x, db_do c (W_save f p t False) d)"
    using run_tx_cases [of f "save_tx c f p t False" d] by auto
  then show ?thesis
  proof cases
    case 2
    show ?thesis
    proof (cases "existing_final c (ID p) d = None")
      case True
      have id: "pr_id (if pr_id r = ID p \<and> False then set_closed c (tot_AsOf t) r else r) = pr_id r" for r by simp
      from save_tx_rows [OF assms 2 True] show ?thesis by auto
    qed (use save_tx_cases [OF 2] in auto)
  qed simp
qed

lemma copies_alone:
  assumes "copies c {} N d d'" and "D = server c" and "db_inv d"
  shows "polls d' = polls d \<and> poll_options d' = poll_options d \<and>
    (\<forall>u. rr_at d' u = rr_at d u \<or> (\<exists>p t. ID p = u \<and> N p t \<and> rr_at d' u = Some (result_row_of c u t False)))"
  using assms(1)
proof (induction rule: copies.induct)
  case (copy d' p t f)
  have "db_inv d'" using inv_evolves [OF copies_evolves [OF copy.hyps(1)] assms(2,3)] .
  from copy_tables [OF assms(2) this copy.hyps(2), of f t] copy.IH copy.hyps(3) show ?case by metis
qed auto

end

section \<open>The contracts\<close>

locale snapshotting =
  fixes R :: "'s result_repository" and S :: "'s result_store" and ok :: "'s \<Rightarrow> bool" and steps :: "'s \<Rightarrow> 's \<Rightarrow> bool"
    and knows :: "'s \<Rightarrow> poll \<Rightarrow> bool" and counted :: "'s \<Rightarrow> poll \<Rightarrow> totals \<Rightarrow> bool" and settled :: "'s \<Rightarrow> poll \<Rightarrow> bool"
  assumes steps_refl: "steps w w" and steps_trans: "steps w w' \<Longrightarrow> steps w' w'' \<Longrightarrow> steps w w''"
    and keeps: "ok w \<Longrightarrow> steps w w' \<Longrightarrow> (knows w p \<longrightarrow> knows w' p) \<and> (settled w p \<longrightarrow> settled w' p)"
    and acquire: "ok w \<Longrightarrow> j_AcquireSnapshotLock S (ID p) k (4 * Second) w = (w', x) \<Longrightarrow>
      ok w' \<and> steps w w' \<and> (x = Inr False \<longrightarrow> settled w' p)"
    and release: "ok w \<Longrightarrow> j_ReleaseSnapshotLock S i k w = (w', y) \<Longrightarrow> ok w' \<and> steps w w'"
    and count: "ok w \<Longrightarrow> knows w p \<Longrightarrow> j_Totals S (ID p) (optionIDs p) w = (w', z) \<Longrightarrow>
      ok w' \<and> steps w w' \<and> (\<forall>t. z = Inr t \<longrightarrow> counted w' p t)"
    and save: "ok w \<Longrightarrow> knows w p \<Longrightarrow> counted w p t \<Longrightarrow> j_SaveSnapshot R p t False w = (w', r) \<Longrightarrow>
      ok w' \<and> steps w w' \<and> (\<forall>v. r = Inr v \<longrightarrow> settled w' p)"
begin

text \<open>A snapshot that reports no error has settled its poll.\<close>

lemma snapshot_steps:
  assumes ok: "ok w" and p: "knows w p" and run: "ResultService_Snapshot R S rnd p w = (w', y)"
  shows "ok w' \<and> steps w w' \<and> (y = None \<longrightarrow> settled w' p)"
proof (cases "NewUUID rnd")
  case (Inl e)
  with run ok steps_refl show ?thesis by (auto simp: ResultService_Snapshot_def)
next
  case (Inr token)
  obtain w1 x where 1: "j_AcquireSnapshotLock S (ID p) token (4 * Second) w = (w1, x)" by fastforce
  note a = acquire [OF ok 1]
  then have ok1: "ok w1" and p1: "knows w1 p" using keeps [OF ok, of w1 p] p by blast+
  show ?thesis
  proof (cases "x = Inr True")
    case False
    with run a Inr 1 show ?thesis by (auto simp: ResultService_Snapshot_def split: sum.splits if_splits)
  next
    case True
    obtain w2 z where 2: "j_Totals S (ID p) (optionIDs p) w1 = (w2, z)" by fastforce
    note b = count [OF ok1 p1 2]
    obtain w3 where 3: "ok w3 \<and> steps w1 w3 \<and> (y = None \<longrightarrow> settled w3 p)" and w': "w' = fst (j_ReleaseSnapshotLock S (ID p) token w3)"
    proof (cases z)
      case (Inl e)
      then show ?thesis using run b Inr 1 2 True by (intro that [of w2]) (auto simp: ResultService_Snapshot_def)
    next
      case (Inr t)
      obtain w3 r where 3: "j_SaveSnapshot R p t False w2 = (w3, r)" by fastforce
      have "knows w2 p" using keeps [OF ok1, of w2 p] p1 b by blast
      from save [OF _ this _ 3] b Inr have "ok w3 \<and> steps w1 w3 \<and> (\<forall>v. r = Inr v \<longrightarrow> settled w3 p)" using steps_trans by blast
      then show ?thesis using run \<open>NewUUID rnd = Inr token\<close> 1 2 3 True Inr
        by (intro that [of w3]) (auto simp: ResultService_Snapshot_def split: sum.splits)
    qed
    have "ok w' \<and> steps w3 w'" using release [of w3 "ID p" token w' "snd (j_ReleaseSnapshotLock S (ID p) token w3)"] 3 w' by simp
    with 3 a keeps [of w3 w' p] steps_trans show ?thesis by blast
  qed
qed

end

text \<open>\<open>wanted n w\<close> are the polls that the list of tick \<open>n\<close> has to contain.\<close>

locale working =
  fixes la :: "nat \<Rightarrow> 's \<Rightarrow> 's \<times> (err + poll list)" and snap :: "nat \<Rightarrow> nat \<Rightarrow> poll \<Rightarrow> 's \<Rightarrow> 's \<times> err option"
    and ok :: "'s \<Rightarrow> bool" and steps :: "'s \<Rightarrow> 's \<Rightarrow> bool" and knows :: "'s \<Rightarrow> poll \<Rightarrow> bool"
    and settled :: "'s \<Rightarrow> poll \<Rightarrow> bool" and wanted :: "nat \<Rightarrow> 's \<Rightarrow> string set"
  assumes steps_refl: "steps w w" and steps_trans: "steps w w' \<Longrightarrow> steps w' w'' \<Longrightarrow> steps w w''"
    and keeps: "ok w \<Longrightarrow> steps w w' \<Longrightarrow> (knows w p \<longrightarrow> knows w' p) \<and> (settled w p \<longrightarrow> settled w' p)"
    and listing: "ok w \<Longrightarrow> la n w = (w', x) \<Longrightarrow>
      ok w' \<and> steps w w' \<and> (\<forall>ps. x = Inr ps \<longrightarrow> wanted n w \<subseteq> ID ` set ps \<and> (\<forall>p \<in> set ps. knows w' p))"
    and snapping: "ok w \<Longrightarrow> knows w p \<Longrightarrow> snap n k p w = (w', y) \<Longrightarrow> ok w' \<and> steps w w' \<and> (y = None \<longrightarrow> settled w' p)"
begin

lemma polls_outcome:
  "ok w \<Longrightarrow> \<forall>p \<in> set ps. knows w p \<Longrightarrow> run_polls (snap n) k ps w ob = (w', ob') \<Longrightarrow>
   ok w' \<and> steps w w' \<and> snapshot_errors ob \<le> snapshot_errors ob' \<and>
   snapshot_successes ob' + snapshot_errors ob' = snapshot_successes ob + snapshot_errors ob + length ps \<and>
   (snapshot_errors ob' = snapshot_errors ob \<longrightarrow> (\<forall>p \<in> set ps. settled w' p))"
proof (induction ps arbitrary: k w ob)
  case (Cons p ps)
  obtain w1 y where 1: "snap n k p w = (w1, y)" by fastforce
  have s: "ok w1" "steps w w1" "y = None \<longrightarrow> settled w1 p" using snapping [OF Cons.prems(1) _ 1] Cons.prems(2) by simp_all
  have "\<forall>q \<in> set ps. knows w1 q" using keeps [OF Cons.prems(1) s(2)] Cons.prems(2) by simp
  note IH = Cons.IH [OF s(1) this]
  show ?case
  proof (cases y)
    case None
    with Cons.prems(3) 1 have "run_polls (snap n) (Suc k) ps w1 (ob\<lparr>snapshot_successes := Suc (snapshot_successes ob)\<rparr>) = (w', ob')" by simp
    from IH [OF this] None steps_trans [OF s(2)] keeps [OF s(1), of w' p] s(3) show ?thesis by simp
  next
    case (Some e)
    with Cons.prems(3) 1 have "run_polls (snap n) (Suc k) ps w1 (ob\<lparr>snapshot_errors := Suc (snapshot_errors ob)\<rparr>) = (w', ob')" by simp
    from IH [OF this] steps_trans [OF s(2)] show ?thesis by simp
  qed
qed (simp add: steps_refl)

text \<open>One run counts one success or error for every poll of the list, or one error without a list; without
  an error, every poll that the list has to contain is settled.\<close>

lemma run_outcome:
  assumes "ok w" and "worker_run (la n) (snap n) w ob = (w', ob')"
  shows "ok w' \<and> steps w w' \<and> snapshot_errors ob \<le> snapshot_errors ob' \<and>
    snapshot_successes ob' + snapshot_errors ob' =
      snapshot_successes ob + snapshot_errors ob + (case snd (la n w) of Inl e \<Rightarrow> 1 | Inr ps \<Rightarrow> length ps) \<and>
    (snapshot_errors ob' = snapshot_errors ob \<longrightarrow> (\<forall>i \<in> wanted n w. \<exists>p. ID p = i \<and> settled w' p))"
proof -
  obtain w1 x where 1: "la n w = (w1, x)" by fastforce
  note l = listing [OF assms(1) 1]
  show ?thesis
  proof (cases x)
    case (Inl e)
    with l 1 assms(2) show ?thesis by (auto simp: worker_run_def)
  next
    case (Inr ps)
    then have "run_polls (snap n) 0 ps w1 ob = (w', ob')" using assms(2) 1 by (simp add: worker_run_def)
    note out = polls_outcome [OF _ _ this]
    have "\<exists>p \<in> set ps. ID p = i" if "i \<in> wanted n w" for i using l Inr that by auto
    with out l Inr 1 steps_trans [of w w1 w'] show ?thesis by (auto 0 3)
  qed
qed

lemma loop_outcome: "ok w \<Longrightarrow> worker_loop la snap xs w ob = (w', ob') \<Longrightarrow> ok w' \<and> steps w w'"
proof (induction xs arbitrary: w ob)
  case (Cons x xs)
  show ?case
  proof (cases x)
    case (Tick_at n)
    obtain w1 ob1 where 1: "worker_run (la n) (snap n) w ob = (w1, ob1)" by fastforce
    from run_outcome [OF Cons.prems(1) this] have "ok w1" "steps w w1" by simp_all
    with Cons.IH [OF this(1)] Cons.prems(2) 1 Tick_at steps_trans show ?thesis by (auto simp: split_beta)
  qed (use Cons.prems steps_refl in simp)
qed (simp add: steps_refl)

end

text \<open>A save that succeeded leaves a result that is final or as new as the totals, whatever follows it.\<close>

context postgres_server
begin

lemma save_settles:
  assumes "D = server c" and "db_inv d" and "read_from d p"
    and "snd (SaveSnapshot c f (\<lambda>k. db_run c (ins k)) p t fin d) = Inr v"
  shows "at_least (fst (SaveSnapshot c f (\<lambda>k. db_run c (ins k)) p t fin d)) (ID p) (ts (server c) (tot_AsOf t))"
proof -
  obtain d1 where d1: "save_tx c f p t fin d = Inr ((), d1)" "fst (run_tx f (save_tx c f p t fin) d) = d1"
    "snd (run_tx f (save_tx c f p t fin) d) = Inr ()"
    using assms(4) run_tx_Inr [of f "save_tx c f p t fin" d "()"] by (fastforce simp: SaveSnapshot_def split: prod.splits sum.splits)
  have "run_tx f (save_tx c f p t fin) d = (d1, Inr ())" using d1 by (simp add: prod_eq_iff)
  then have "fst (SaveSnapshot c f (\<lambda>k. db_run c (ins k)) p t fin d) = db_run c (ins 1) (db_run c (ins 0) d1)"
    using assms(4) by (auto simp: SaveSnapshot_def LoadResult_def Let_def split: sum.splits if_splits)
  moreover have "evolves c d1 (db_run c (ins 1) (db_run c (ins 0) d1))" using db_run_evolves evolves_trans by blast
  moreover have "db_inv d1" by (rule inv_save [OF assms(1-3) d1(1)])
  ultimately show ?thesis using at_least_stays assms(1) saved_at_least [OF assms(1-3) d1(1)] by metis
qed

end

section \<open>The worker on PostgreSQL and Redis\<close>

text \<open>Each tick and each poll has an environment of its own.\<close>

definition live_list :: "repo \<Rightarrow> 'r store \<Rightarrow> (nat \<Rightarrow> call_env) \<Rightarrow> nat \<Rightarrow> 'r world \<Rightarrow> 'r world \<times> (err + poll list)" where
  "live_list c s L n = on_db c s (L n) (ListActive c (failing (L n)) (\<lambda>k. db_run c (inside (L n) k)))"

text \<open>The polls that are active when the list is asked for.\<close>

definition active_before :: "repo \<Rightarrow> call_env \<Rightarrow> 'r world \<Rightarrow> string set" where
  "active_before c e w = pr_id ` {r \<in> set (polls (db_run c (o_writes (before e)) (w_db w))). pr_status r = Active}"

definition live_snapshots :: "repo \<Rightarrow> 'r store \<Rightarrow> (nat \<Rightarrow> nat \<Rightarrow> environment) \<Rightarrow> nat \<Rightarrow> nat \<Rightarrow> poll \<Rightarrow> 'r world \<Rightarrow> 'r world \<times> err option" where
  "live_snapshots c s E n k p = ResultService_Snapshot (live_results c s (E n k)) (live_store c s (E n k)) (random (E n k C_Acquire) 0) p"

text \<open>What the others write, and the ballots they ask for, around one call.\<close>

definition writes_of :: "call_env \<Rightarrow> db_write set" where
  "writes_of e = set (o_writes (before e)) \<union> (\<Union>k. set (inside e k))"

definition harmless :: "db_write set \<Rightarrow> ballot set \<Rightarrow> call_env \<Rightarrow> bool" where
  "harmless W F e \<longleftrightarrow> writes_of e \<subseteq> W \<and> called (o_calls (before e)) \<subseteq> F"

text \<open>The totals of a poll were the sums of its ballots after some of the calls \<open>h\<close>.\<close>

definition counted_in :: "'r store \<Rightarrow> (invocation list \<Rightarrow> bool) \<Rightarrow> invocation list \<Rightarrow> poll \<Rightarrow> totals \<Rightarrow> bool" where
  "counted_in s good h p t \<longleftrightarrow> (\<exists>h1 h2. h = h1 @ h2 \<and>
     (good h1 \<longrightarrow> t = ballot_totals (cast_ballots s h1) (ID p) (optionIDs p) (tot_AsOf t)))"

lemma counted_in_more: "counted_in s good h p t \<Longrightarrow> counted_in s good (h @ h') p t"
  unfolding counted_in_def by (metis append.assoc)

definition worked :: "repo \<Rightarrow> 'r store \<Rightarrow> (invocation list \<Rightarrow> bool) \<Rightarrow> db_write set \<Rightarrow> ballot set \<Rightarrow> 'r world \<Rightarrow> 'r world \<Rightarrow> bool" where
  "worked c s good W F w w' \<longleftrightarrow> (\<exists>h. w_calls w' = w_calls w @ h \<and> called h \<subseteq> F) \<and>
     copies c W (counted_in s good (w_calls w')) (w_db w) (w_db w')"

lemma called_simps [simp]: "called [] = {}" "called (h @ h') = called h \<union> called h'"
  unfolding called_def by (simp, simp, blast)

lemma worked_refl: "worked c s good W F w w"
  by (simp add: worked_def copies.start)

lemma worked_trans:
  assumes "worked c s good W F w w'" and "worked c s good W F w' w''"
  shows "worked c s good W F w w''"
proof -
  obtain h h' where h: "w_calls w' = w_calls w @ h" "called h \<subseteq> F" "w_calls w'' = w_calls w' @ h'" "called h' \<subseteq> F"
    using assms by (auto simp: worked_def)
  have "copies c W (counted_in s good (w_calls w'')) (w_db w) (w_db w')"
    using assms(1) unfolding worked_def h(3) by (blast intro: copies_mono counted_in_more)
  with assms(2) h show ?thesis by (auto simp: worked_def intro: copies_trans)
qed

lemma harmlessD:
  assumes "harmless W F e"
  shows "set (o_writes (before e)) \<subseteq> W" and "set (inside e k) \<subseteq> W" and "called (o_calls (before e)) \<subseteq> F"
  using assms by (auto simp: harmless_def writes_of_def)

lemma worked_redis:
  assumes "harmless W F e" and "\<And>cmd. k \<noteq> Record_c cmd"
  shows "worked c s good W F w (fst (on_redis c s e k op w))"
proof -
  have "called [(link e, api_now e, w_now w + o_later (before e), k)] = {}" using assms(2) by (auto simp: called_def)
  then show ?thesis
    using harmlessD(1,3) [OF assms(1)] by (simp add: worked_def w_calls_on_redis copies_run copies.start)
qed

lemma worked_db:
  assumes "harmless W F e"
    and "copies c W (counted_in s good (w_calls w)) (db_run c (o_writes (before e)) (w_db w)) (fst (op (db_run c (o_writes (before e)) (w_db w))))"
  shows "worked c s good W F w (fst (on_db c s e op w))"
proof -
  have "copies c W (counted_in s good (w_calls w @ o_calls (before e))) (w_db w) (fst (op (db_run c (o_writes (before e)) (w_db w))))"
    by (rule copies_trans [OF copies_mono [OF assms(2) counted_in_more]])
       (use harmlessD(1) [OF assms(1)] in \<open>auto intro: copies_run copies.start\<close>)
  then show ?thesis using harmlessD(3) [OF assms(1)] by (auto simp: worked_def w_on_db)
qed

lemma save_copies:
  assumes "read_from d p" and "N p t" and "\<And>k. set (inside e k) \<subseteq> W"
  shows "copies c W N d (fst (SaveSnapshot c f (\<lambda>k. db_run c (inside e k)) p t False d))"
proof -
  have 1: "copies c W N d (fst (run_tx f (save_tx c f p t False) d))"
    using copies.copy [where d = d and d' = d and p = p and t = t and f = f, OF copies.start, of N c W] assms(1,2) by simp
  note 2 = copies_run [OF 1 assms(3)]
  note 3 = copies_run [OF 2 assms(3)]
  show ?thesis
    using 1 2 [of 0] 3 [of 1 0] by (auto simp: SaveSnapshot_def LoadResult_def Let_def split: prod.splits sum.splits)
qed

text \<open>A poll is settled when its lock was refused, or when what is stored of it is final or as new as totals that
  were counted.\<close>

definition lock_refused :: "'r store \<Rightarrow> 'r \<Rightarrow> invocation list \<Rightarrow> poll \<Rightarrow> bool" where
  "lock_refused s r0 h p \<longleftrightarrow> (\<exists>h1 h2 d now t k. h = h1 @ (d, now, t, Acquire_c (ID p) k (4 * Second)) # h2 \<and>
     snd (AcquireSnapshotLock s d t (ID p) k (4 * Second) (store_run s h1 r0)) = Inr False)"

definition settled_in :: "repo \<Rightarrow> 'r store \<Rightarrow> 'r \<Rightarrow> (invocation list \<Rightarrow> bool) \<Rightarrow> 'r world \<Rightarrow> poll \<Rightarrow> bool" where
  "settled_in c s r0 good w p \<longleftrightarrow> lock_refused s r0 (w_calls w) p \<or>
     (\<exists>t. counted_in s good (w_calls w) p t \<and> at_least (w_db w) (ID p) (ts (server c) (tot_AsOf t)))"

lemma lock_refused_more: "lock_refused s r0 h p \<Longrightarrow> lock_refused s r0 (h @ h') p"
  unfolding lock_refused_def by (metis append.assoc append_Cons)

locale live_worker = postgres_server "server c" + redis_server "client s" look
  for c :: repo and s :: "'r store" and look :: "'r \<Rightarrow> time \<Rightarrow> keyspace" +
  fixes r0 :: 'r and t0 T :: time and W :: "db_write set" and F :: "ballot set"
  assumes empty: "look r0 t0 = Map.empty"
begin

abbreviation good :: "invocation list \<Rightarrow> bool" where
  "good h \<equiv> \<exists>t1. history_ok s t0 t1 T h"

lemma keeps_ok:
  assumes "world_ok s r0 w" and "worked c s good W F w w'" and "recorded s r0 w'"
  shows "world_ok s r0 w'"
  using assms inv_evolves [OF copies_evolves refl] unfolding world_ok_def worked_def by blast

lemma keeps_read:
  assumes "world_ok s r0 w" and "worked c s good W F w w'" and "read_from (w_db w) p"
  shows "read_from (w_db w') p"
  using assms read_from_evolves [OF copies_evolves refl] unfolding world_ok_def worked_def by blast

lemma keeps_settled:
  assumes "world_ok s r0 w" and "worked c s good W F w w'" and "settled_in c s r0 good w p"
  shows "settled_in c s r0 good w' p"
proof -
  obtain h where h: "w_calls w' = w_calls w @ h" using assms(2) by (auto simp: worked_def)
  have "evolves c (w_db w) (w_db w')" using assms(2) copies_evolves by (auto simp: worked_def)
  from at_least_stays [OF this refl] assms(1,3) show ?thesis
    unfolding settled_in_def h world_ok_def by (blast intro: lock_refused_more counted_in_more)
qed

lemma redis_step:
  assumes "world_ok s r0 w" and "harmless W F e" and "\<And>cmd. k \<noteq> Record_c cmd"
    and "\<And>t r. fst (op t r) = store_call s (link e, api_now e, t, k) r" and "on_redis c s e k op w = (w', x)"
  shows "world_ok s r0 w' \<and> worked c s good W F w w'"
proof -
  have w': "w' = fst (on_redis c s e k op w)" using assms(5) by simp
  have "worked c s good W F w w'" unfolding w' by (rule worked_redis [OF assms(2,3)])
  moreover have "recorded s r0 w'" unfolding w' using assms(1,4) by (intro recorded_on_redis) (simp_all add: world_ok_def)
  ultimately show ?thesis using keeps_ok [OF assms(1)] by blast
qed

lemma acquire_step:
  assumes ok: "world_ok s r0 w" and e: "harmless W F (E C_Acquire)"
    and run: "j_AcquireSnapshotLock (live_store c s E) (ID p) k (4 * Second) w = (w', x)"
  shows "world_ok s r0 w' \<and> worked c s good W F w w' \<and> (x = Inr False \<longrightarrow> settled_in c s r0 good w' p)"
proof -
  let ?c = "E C_Acquire" and ?op = "\<lambda>t. AcquireSnapshotLock s (link (E C_Acquire)) t (ID p) k (4 * Second)"
  have on: "on_redis c s ?c (Acquire_c (ID p) k (4 * Second)) ?op w = (w', x)" using run by (simp add: live_store_def)
  then have w': "w' = fst (on_redis c s ?c (Acquire_c (ID p) k (4 * Second)) ?op w)"
    and x: "x = snd (on_redis c s ?c (Acquire_c (ID p) k (4 * Second)) ?op w)" by simp_all
  have "w_calls w' = (w_calls w @ o_calls (before ?c)) @ (link ?c, api_now ?c, w_now w', Acquire_c (ID p) k (4 * Second)) # []"
    by (simp add: w' w_calls_on_redis)
  moreover have "recorded s r0 w" using ok by (simp add: world_ok_def)
  then have "x = snd (AcquireSnapshotLock s (link ?c) (w_now w') (ID p) k (4 * Second) (store_run s (w_calls w @ o_calls (before ?c)) r0))"
    unfolding x by (simp only: on_redis_history) (simp add: w' w_calls_on_redis)
  ultimately have "lock_refused s r0 (w_calls w') p" if "x = Inr False"
    using that unfolding lock_refused_def by metis
  moreover have "world_ok s r0 w' \<and> worked c s good W F w w'" by (rule redis_step [OF ok e _ _ on]) simp_all
  ultimately show ?thesis by (simp add: settled_in_def)
qed

lemma plain_ids:
  assumes "world_ok s r0 w" and "read_from (w_db w) p"
  shows "parts \<notin> set (optionIDs p)"
  using read_from_options [of "w_db w" p] assms parts_not_uuid by (fastforce simp: optionIDs_def world_ok_def)

text \<open>What is counted are the ballots of that moment.\<close>

lemma count_now:
  assumes ok: "world_ok s r0 w" and p: "read_from (w_db w) p" and good: "good (w_calls w')"
    and run: "j_Totals (live_store c s E) (ID p) (optionIDs p) w = (w', Inr t)"
  shows "t = ballot_totals (cast_ballots s (w_calls w')) (ID p) (optionIDs p) (api_now (E C_Totals))"
proof -
  let ?c = "E C_Totals" and ?op = "\<lambda>t. Totals s (link (E C_Totals)) (api_now (E C_Totals)) t (ID p) (optionIDs p)"
  let ?h = "w_calls w @ o_calls (before ?c)"
  have w': "w' = fst (on_redis c s ?c (Totals_c (ID p) (optionIDs p)) ?op w)"
    and z: "Inr t = snd (on_redis c s ?c (Totals_c (ID p) (optionIDs p)) ?op w)" using run by (simp_all add: live_store_def)
  have calls: "w_calls w' = ?h @ [(link ?c, api_now ?c, w_now w', Totals_c (ID p) (optionIDs p))]" by (simp add: w' w_calls_on_redis)
  have rec: "recorded s r0 w" using ok by (simp add: world_ok_def)
  have z': "Inr t = snd (Totals s (link ?c) (api_now ?c) (w_now w') (ID p) (optionIDs p) (store_run s ?h r0))"
    unfolding z by (simp add: on_redis_history [OF rec]) (simp add: w' w_calls_on_redis)
  have same: "cast_ballots s (w_calls w') = cast_ballots s ?h"
    unfolding calls using cast_ballots_grow [of "[(link ?c, api_now ?c, w_now w', Totals_c (ID p) (optionIDs p))]" s ?h]
    by (simp add: called_def)
  obtain t1 where "history_ok s t0 t1 T (w_calls w')" using good by blast
  then have h: "history_ok s t0 (w_now w') T ?h" using history_ok_append unfolding calls by blast
  obtain ns where "link ?c = Reply ns"
    using z' unfolding Totals_def by (auto simp: split_beta Let_def split: option.splits dest!: exec_err_Reply)
  with Totals_history [OF refl empty h plain_ids [OF ok p]] z' same show ?thesis by simp
qed

lemma count_step:
  assumes ok: "world_ok s r0 w" and e: "harmless W F (E C_Totals)" and p: "read_from (w_db w) p"
    and run: "j_Totals (live_store c s E) (ID p) (optionIDs p) w = (w', z)"
  shows "world_ok s r0 w' \<and> worked c s good W F w w' \<and> (\<forall>t. z = Inr t \<longrightarrow> counted_in s good (w_calls w') p t)"
proof -
  have "t = ballot_totals (cast_ballots s (w_calls w')) (ID p) (optionIDs p) (tot_AsOf t)" if "z = Inr t" "good (w_calls w')" for t
  proof -
    have "t = ballot_totals (cast_ballots s (w_calls w')) (ID p) (optionIDs p) (api_now (E C_Totals))"
      using count_now [OF ok p that(2)] run that(1) by simp
    then show ?thesis by (simp add: ballot_totals_def)
  qed
  then have "counted_in s good (w_calls w') p t" if "z = Inr t" for t
    using that unfolding counted_in_def by (metis append_Nil2)
  moreover have "world_ok s r0 w' \<and> worked c s good W F w w'"
    by (rule redis_step [OF ok e _ _ run [unfolded live_store_def, simplified]]) simp_all
  ultimately show ?thesis by blast
qed

lemma save_step:
  assumes ok: "world_ok s r0 w" and e: "harmless W F (E C_Save)" and p: "read_from (w_db w) p"
    and t: "counted_in s good (w_calls w) p t" and run: "j_SaveSnapshot (live_results c s E) p t False w = (w', r)"
  shows "world_ok s r0 w' \<and> worked c s good W F w w' \<and> (\<forall>v. r = Inr v \<longrightarrow> settled_in c s r0 good w' p)"
proof -
  let ?e = "E C_Save" and ?op = "SaveSnapshot c (failing (E C_Save)) (\<lambda>k. db_run c (inside (E C_Save) k)) p t False"
  have w': "w' = fst (on_db c s ?e ?op w)" using run by (simp add: live_results_def)
  have rd: "read_from (db_run c (o_writes (before ?e)) (w_db w)) p"
    using read_from_evolves [OF db_run_evolves refl _ p] ok by (simp add: world_ok_def)
  have "worked c s good W F w w'"
    unfolding w' by (rule worked_db [OF e]) (rule save_copies [where N = "counted_in s good (w_calls w)", OF rd t harmlessD(2) [OF e]])
  moreover have "recorded s r0 w'" using ok by (simp add: w' world_ok_def)
  moreover have "settled_in c s r0 good w' p" if "r = Inr v" for v
  proof -
    have inv: "db_inv (db_run c (o_writes (before ?e)) (w_db w))"
      using inv_evolves [OF db_run_evolves refl] ok by (simp add: world_ok_def)
    have "Inr v = snd (on_db c s ?e ?op w)" using run that by (simp add: live_results_def)
    then have answer: "snd (?op (db_run c (o_writes (before ?e)) (w_db w))) = Inr v" by (simp add: w_on_db)
    have "at_least (w_db w') (ID p) (ts (server c) (tot_AsOf t))"
      unfolding w' w_on_db by (rule save_settles [OF refl inv rd answer])
    moreover have "w_calls w' = w_calls w @ o_calls (before ?e)" by (simp add: w' w_on_db)
    ultimately show ?thesis using counted_in_more [OF t] by (auto simp: settled_in_def)
  qed
  ultimately show ?thesis using keeps_ok [OF ok] by blast
qed

lemma load_polls_read:
  assumes "\<And>k. set (ins k) \<subseteq> W"
  shows "db_inv d \<Longrightarrow> load_polls c f (\<lambda>k. db_run c (ins k)) k is d = (d', x) \<Longrightarrow>
    copies c W N d d' \<and> (\<forall>ps. x = Inr ps \<longrightarrow> map (uuid_in (server c)) is = map (Some \<circ> ID) ps \<and> (\<forall>p \<in> set ps. read_from d' p))"
proof (induction "is" arbitrary: k d d' x)
  case (Cons i "is")
  let ?d1 = "db_run c (ins k) d"
  have 1: "copies c W N d ?d1" by (rule copies_run [OF copies.start assms])
  have inv: "db_inv ?d1" using inv_evolves [OF db_run_evolves refl Cons.prems(1)] .
  show ?case
  proof (cases "GetByID c f i ?d1")
    case (Inl e)
    with Cons.prems(2) 1 show ?thesis by (auto simp: Let_def)
  next
    case (Inr p)
    obtain d2 y where 2: "load_polls c f (\<lambda>k. db_run c (ins k)) (Suc k) is ?d1 = (d2, y)" by fastforce
    note IH = Cons.IH [OF inv 2]
    then have "copies c W N d d2" using copies_trans 1 by blast
    moreover have "read_from d2 p"
      using read_from_evolves [OF copies_evolves refl inv] IH GetByID_read [OF inv Inr] by blast
    moreover have "d' = d2 \<and> (case y of Inl e \<Rightarrow> x = Inl e | Inr ps \<Rightarrow> x = Inr (p # ps))"
      using Cons.prems(2) Inr 2 by (auto simp: Let_def split: sum.splits)
    ultimately show ?thesis using IH GetByID_read [OF inv Inr] by (cases y) auto
  qed
qed (simp add: copies.start)

lemma list_step:
  assumes ok: "world_ok s r0 w" and e: "harmless W F (L n)" and run: "live_list c s L n w = (w', x)"
  shows "world_ok s r0 w' \<and> worked c s good W F w w' \<and>
    (\<forall>ps. x = Inr ps \<longrightarrow> active_before c (L n) w \<subseteq> ID ` set ps \<and> (\<forall>p \<in> set ps. read_from (w_db w') p))"
proof -
  let ?e = "L n" and ?op = "ListActive c (failing (L n)) (\<lambda>k. db_run c (inside (L n) k))"
  let ?d = "db_run c (o_writes (before ?e)) (w_db w)"
  have w': "w' = fst (on_db c s ?e ?op w)" and x: "x = snd (?op ?d)"
    using run by (simp_all add: live_list_def) (metis snd_conv w_on_db(4))
  have inv: "db_inv ?d" using inv_evolves [OF db_run_evolves refl] ok by (simp add: world_ok_def)
  let ?ids = "map pr_id (filter (\<lambda>r. pr_status r = Active) (polls ?d))"
  have ids: "map (uuid_in (server c)) ?ids = map Some ?ids"
    using inv by (auto simp: db_inv_def list_all_iff row_ok_def intro!: uuid_canonical)
  have list: "copies c W N ?d d2 \<and> (\<forall>ps. y = Inr ps \<longrightarrow> map Some ?ids = map (Some \<circ> ID) ps \<and> (\<forall>p \<in> set ps. read_from d2 p))"
    if op: "?op ?d = (d2, y)" for d2 y N
  proof (cases "failing ?e QueryActive = Done")
    case True
    with op have "load_polls c (failing ?e) (\<lambda>k. db_run c (inside ?e k)) 0 ?ids ?d = (d2, y)" by (simp add: ListActive_def)
    from load_polls_read [OF harmlessD(2) [OF e] inv this] show ?thesis unfolding ids .
  qed (use op in \<open>auto simp: ListActive_def copies.start\<close>)
  note list = list [of "fst (?op ?d)" "snd (?op ?d)", OF prod.collapse [symmetric]]
  have "active_before c ?e w \<subseteq> ID ` set ps" if "snd (?op ?d) = Inr ps" for ps
  proof -
    have "map Some ?ids = map Some (map ID ps)" using list that by simp
    then have "?ids = map ID ps" by (simp only: inj_map_eq_map [OF inj_Some])
    then have "set ?ids = ID ` set ps" by (metis set_map)
    then show ?thesis by (auto simp: active_before_def)
  qed
  moreover
  have "worked c s good W F w w'"
    unfolding w' by (rule worked_db [OF e]) (rule conjunct1 [OF list])
  moreover have "recorded s r0 w'" using ok by (simp add: w' world_ok_def)
  moreover have "w_db w' = fst (?op ?d)" by (simp add: w' w_on_db)
  ultimately show ?thesis using keeps_ok [OF ok] list x by auto
qed

end

locale live_service = live_worker +
  fixes E :: environment
  assumes around: "harmless W F (E k)"

sublocale live_service \<subseteq> service: snapshotting "live_results c s E" "live_store c s E" "world_ok s r0" "worked c s good W F"
  "\<lambda>w p. read_from (w_db w) p" "\<lambda>w p t. counted_in s good (w_calls w) p t" "settled_in c s r0 good"
proof (unfold_locales, goal_cases)
  case (1 w)
  show ?case by (rule worked_refl)
next
  case (2 w w' w'')
  then show ?case by (rule worked_trans)
next
  case (3 w w' p)
  with keeps_read keeps_settled show ?case by blast
next
  case (4 w p k w' x)
  then show ?case by (rule acquire_step [OF _ around])
next
  case (5 w i k w' y)
  show ?case by (rule redis_step [OF 5(1) around _ _ 5(2) [unfolded live_store_def, simplified]]) simp_all
next
  case (6 w p w' z)
  then show ?case by (rule count_step [OF _ around])
next
  case (7 w p t w' r)
  then show ?case by (rule save_step [OF _ around])
qed

context live_service
begin

lemmas live_snapshot = service.snapshot_steps

end

locale live_ticks = live_worker +
  fixes L :: "nat \<Rightarrow> call_env" and E :: "nat \<Rightarrow> nat \<Rightarrow> environment"
  assumes listing: "harmless W F (L n)" and snapping: "harmless W F (E n k x)"

sublocale live_ticks \<subseteq> worker: working "live_list c s L" "live_snapshots c s E" "world_ok s r0" "worked c s good W F"
  "\<lambda>w p. read_from (w_db w) p" "settled_in c s r0 good" "\<lambda>n. active_before c (L n)"
proof (unfold_locales, goal_cases)
  case (1 w)
  show ?case by (rule worked_refl)
next
  case (2 w w' w'')
  then show ?case by (rule worked_trans)
next
  case (3 w w' p)
  with keeps_read keeps_settled show ?case by blast
next
  case (4 w n w' x)
  then show ?case by (rule list_step [OF _ listing])
next
  case (5 w p n k w' y)
  have "live_service c s look r0 t0 W F (E n k)"
    using live_worker_axioms snapping by (intro live_service.intro live_service_axioms.intro)
  from live_service.live_snapshot [OF this 5(1,2)] 5(3) show ?case by (simp add: live_snapshots_def)
qed

context live_ticks
begin

lemmas live_run = worker.run_outcome
lemmas live_loop = worker.loop_outcome

end

section \<open>Claims\<close>

text \<open>What the others write and ask for during the life of a worker.\<close>

definition writes_around :: "(nat \<Rightarrow> call_env) \<Rightarrow> (nat \<Rightarrow> nat \<Rightarrow> environment) \<Rightarrow> db_write set" where
  "writes_around L E = (\<Union>n. writes_of (L n)) \<union> (\<Union>n k x. writes_of (E n k x))"

definition ballots_around :: "(nat \<Rightarrow> call_env) \<Rightarrow> (nat \<Rightarrow> nat \<Rightarrow> environment) \<Rightarrow> ballot set" where
  "ballots_around L E = (\<Union>n. called (o_calls (before (L n)))) \<union> (\<Union>n k. foreign (E n k))"

text \<open>The totals of a poll were the sums of its ballots at some moment.\<close>

definition counted :: "'r store \<Rightarrow> invocation list \<Rightarrow> poll \<Rightarrow> totals \<Rightarrow> bool" where
  "counted s h p t \<longleftrightarrow> (\<exists>h1 h2. h = h1 @ h2 \<and> t = ballot_totals (cast_ballots s h1) (ID p) (optionIDs p) (tot_AsOf t))"

lemma counted_in_good:
  assumes "history_ok s t0 t1 T h" and "counted_in s (\<lambda>h. \<exists>t1. history_ok s t0 t1 T h) h p t"
  shows "counted s h p t"
  using assms history_ok_prefix unfolding counted_in_def counted_def by blast

lemma live_ticks_around:
  assumes "postgres_server (server c)" and "redis_server (client s) look" and "look r0 t0 = Map.empty"
  shows "live_ticks c s look r0 t0 (writes_around L E) (ballots_around L E) L E"
  using assms
  by (intro live_ticks.intro live_worker.intro live_worker_axioms.intro live_ticks_axioms.intro)
     (auto simp: harmless_def writes_around_def ballots_around_def foreign_def)



section \<open>A concrete run\<close>

text \<open>One tick; a device votes while the snapshot holds the lock.\<close>

definition demo_around :: "nat \<Rightarrow> nat \<Rightarrow> environment" where
  "demo_around n k x = (demo_env Second x)\<lparr>before := \<lparr>o_writes = [],
     o_calls = (if x = C_Totals then [(Reply [], Second, Second, Record_c demo_ballot)] else []), o_later = 0\<rparr>\<rparr>"

definition demo_list :: "nat \<Rightarrow> call_env" where
  "demo_list n = demo_env Second C_ListActive"

lemma demo_lock_free: "mem_look (store_run demo_store demo_calls []) Second (lock_key demo_id) = None"
  by code_simp

lemma demo_listed: "live_list demo_repo demo_store demo_list 0 demo_running = (demo_running, Inr [demo_poll])"
proof -
  have "db_run demo_repo [] d = d" for d by (simp add: db_run_def)
  moreover have "filter (\<lambda>r. pr_status r = Active) (polls demo_active) = [set_active demo_repo Minute demo_row]"
    by (simp add: demo_active_state set_active_def)
  moreover have "pr_id (set_active demo_repo Minute demo_row) = demo_id" by (simp add: set_active_def demo_rows)
  ultimately show ?thesis
    by (simp add: live_list_def on_db_def others_def demo_list_def demo_env_def none_else_def ListActive_def no_faults_def
        demo_running_def demo_poll_loaded Let_def)
qed

abbreviation demo_locked :: "invocation list" where
  "demo_locked \<equiv> demo_calls @ [(Reply [], Second, Second, Acquire_c demo_id demo_id (4 * Second))]"

abbreviation demo_locked_vote :: "invocation list" where
  "demo_locked_vote \<equiv> demo_locked @ [(Reply [], Second, Second, Record_c demo_ballot)]"

abbreviation demo_summed :: "invocation list" where
  "demo_summed \<equiv> demo_locked_vote @ [(Reply [], Second, Second, Totals_c demo_id [demo_yes, demo_no])]"

abbreviation demo_released :: "invocation list" where
  "demo_released \<equiv> demo_summed @ [(Reply [], Second, Second, Release_c demo_id demo_id)]"

lemma demo_locked_ok:
  "history_ok demo_store 0 Second Hour demo_locked_vote"
  "history_ok demo_store 0 Second Hour demo_released"
  using demo_TTL(1) demo_store_ok
  by (simp_all add: history_ok_def demo_calls_def history_events_def delivered_def gate_events_def demo_store_def
      peek_events_def demo_ballot_def plain_hash_def duration_unit_defs numeral_2_eq_2)

lemma demo_locked_ballot: "cast_ballots demo_store demo_locked_vote = [(demo_id, ''d0'', [demo_yes])]"
  using demo_voted_ballot by (simp add: cast_ballots_def history_box_append history_events_def delivered_def)

lemma demo_locked_counted:
  "snd (Totals demo_store (Reply []) Second Second demo_id [demo_yes, demo_no] (store_run demo_store demo_locked_vote [])) =
     Inr (demo_totals 1 Second)"
proof -
  have "ballot_totals (cast_ballots demo_store demo_locked_vote) demo_id [demo_yes, demo_no] Second = demo_totals 1 Second"
    unfolding demo_locked_ballot by (simp add: ballot_totals_def demo_totals_def poll_tally_def fun_eq_iff)
  then show ?thesis
    using redis_server.Totals_history [OF demo_mem(1) refl demo_mem(2) demo_locked_ok(1), of "[demo_yes, demo_no]" "[]" Second demo_id]
    by simp
qed

lemma demo_around_simps:
  "before (demo_around n k x) = \<lparr>o_writes = [], o_calls = (if x = C_Totals then [(Reply [], Second, Second, Record_c demo_ballot)] else []),
     o_later = 0\<rparr>"
  "inside (demo_around n k x) = (\<lambda>_. [])" "failing (demo_around n k x) = no_faults" "link (demo_around n k x) = Reply []"
  "api_now (demo_around n k x) = Second" "random (demo_around n k x) = demo_rnd"
  by (simp_all add: demo_around_def demo_env_def)

lemma demo_snapshot_steps:
  defines "RR \<equiv> live_results demo_repo demo_store (demo_around 0 0)" and "SS \<equiv> live_store demo_repo demo_store (demo_around 0 0)"
  shows "j_AcquireSnapshotLock SS demo_id demo_id (4 * Second) demo_running = (demo_stage demo_locked, Inr True)"
    and "j_Totals SS demo_id [demo_yes, demo_no] (demo_stage demo_locked) = (demo_stage demo_summed, Inr (demo_totals 1 Second))"
    and "\<exists>r. j_SaveSnapshot RR demo_poll (demo_totals 1 Second) False (demo_stage demo_summed) =
      ((demo_stage demo_summed)\<lparr>w_db := demo_saved 1 Second False\<rparr>, Inr r)"
    and "fst (j_ReleaseSnapshotLock SS demo_id demo_id ((demo_stage demo_summed)\<lparr>w_db := demo_saved 1 Second False\<rparr>)) =
      (demo_stage demo_released)\<lparr>w_db := demo_saved 1 Second False\<rparr>"
proof -
  have same: "db_run demo_repo [] d = d" for d by (simp add: db_run_def)
  note env = live_results_def live_store_def on_db_def on_redis_def others_def reading_def demo_around_simps same
  have "0 < 4 * Second" by (simp add: Second_def)
  from snapshot_lock_acquire [OF demo_redis demo_lock_free this, of "[]" demo_id]
  have "snd (AcquireSnapshotLock demo_store (Reply []) Second demo_id demo_id (4 * Second) (store_run demo_store demo_calls [])) = Inr True"
    by (simp add: ran_before_def)
  then show "j_AcquireSnapshotLock SS demo_id demo_id (4 * Second) demo_running = (demo_stage demo_locked, Inr True)"
    unfolding SS_def by (simp add: env demo_stage_def demo_running_def store_run_append split_beta)
  have r: "store_run demo_store demo_summed [] = fst (Totals demo_store (Reply []) Second Second demo_id [demo_yes, demo_no] (store_run demo_store demo_locked_vote []))"
    using store_run_append [of demo_store demo_locked_vote "[(Reply [], Second, Second, Totals_c demo_id [demo_yes, demo_no])]" "[]"] by simp
  have v: "store_run demo_store [(Reply [], Second, Second, Record_c demo_ballot)] (store_run demo_store demo_locked []) = store_run demo_store demo_locked_vote []"
    by (rule store_run_append [symmetric])
  show "j_Totals SS demo_id [demo_yes, demo_no] (demo_stage demo_locked) = (demo_stage demo_summed, Inr (demo_totals 1 Second))"
    unfolding SS_def using demo_locked_counted r v by (simp add: env demo_stage_def split_beta del: store_run.simps append_assoc)
  have mid: "(\<lambda>k. db_run demo_repo []) = (\<lambda>k x. x)" by (simp add: same fun_eq_iff)
  obtain r where "SaveSnapshot demo_repo no_faults (\<lambda>k x. x) demo_poll (demo_totals 1 Second) False demo_active =
      (demo_saved 1 Second False, Inr r)"
    using demo_SaveSnapshot [of 1 Second False] by auto
  then show "\<exists>r. j_SaveSnapshot RR demo_poll (demo_totals 1 Second) False (demo_stage demo_summed) =
      ((demo_stage demo_summed)\<lparr>w_db := demo_saved 1 Second False\<rparr>, Inr r)"
    unfolding RR_def by (simp add: env mid demo_stage_def)
  show "fst (j_ReleaseSnapshotLock SS demo_id demo_id ((demo_stage demo_summed)\<lparr>w_db := demo_saved 1 Second False\<rparr>)) =
      (demo_stage demo_released)\<lparr>w_db := demo_saved 1 Second False\<rparr>"
    unfolding SS_def by (simp add: env demo_stage_def store_run_append split_beta)
qed

abbreviation demo_worked :: "mem world" where
  "demo_worked \<equiv> (demo_stage demo_released)\<lparr>w_db := demo_saved 1 Second False\<rparr>"

lemma demo_snapshot: "live_snapshots demo_repo demo_store demo_around 0 0 demo_poll demo_running = (demo_worked, None)"
proof -
  have ids: "optionIDs demo_poll = [demo_yes, demo_no]" by (simp add: optionIDs_def demo_poll_simps demo_opts_def)
  obtain r where "j_SaveSnapshot (live_results demo_repo demo_store (demo_around 0 0)) demo_poll (demo_totals 1 Second) False (demo_stage demo_summed) =
      ((demo_stage demo_summed)\<lparr>w_db := demo_saved 1 Second False\<rparr>, Inr r)"
    using demo_snapshot_steps(3) by blast
  then show ?thesis
    by (simp add: live_snapshots_def ResultService_Snapshot_def demo_around_simps demo_uuids demo_poll_simps ids
        demo_snapshot_steps(1,2) demo_snapshot_steps(4) del: append_assoc)
qed

lemma demo_run:
  "worker_run (live_list demo_repo demo_store demo_list 0) (live_snapshots demo_repo demo_store demo_around 0) demo_running
     \<lparr>snapshot_successes = 0, snapshot_errors = 0\<rparr> = (demo_worked, \<lparr>snapshot_successes = 1, snapshot_errors = 0\<rparr>)"
  by (simp add: worker_run_def demo_listed demo_snapshot del: append_assoc)

interpretation demo_worker: live_ticks demo_repo demo_store mem_look "[]" 0 Hour "writes_around demo_list demo_around"
  "ballots_around demo_list demo_around" demo_list demo_around
  by (rule live_ticks_around [OF demo_server demo_redis demo_mem(2)])

interpretation demo_snapshots: live_service demo_repo demo_store mem_look "[]" 0 Hour "writes_around demo_list demo_around"
  "ballots_around demo_list demo_around" "demo_around 0 0"
  using demo_worker.snapping by unfold_locales

lemma demo_world_ok_running: "world_ok demo_store [] demo_running"
  using demo_running_recorded demo_active_inv by (simp add: world_ok_def) (simp add: demo_running_def)

lemma demo_worked_ok: "history_ok demo_store 0 Second Hour (w_calls demo_worked)"
  using demo_locked_ok(2) by (simp add: demo_stage_def)



end
