(* ===== verification/Service_Results.thy ===== *)
theory Service_Results
  imports Worker
begin

text \<open>
  \<open>ResultService.Results\<close>: what the answer to a request for results says of the ballots and of the stored
  result.
\<close>

context live_worker
begin

lemma get_step:
  assumes ok: "world_ok s r0 w" and run: "j_GetByID (live_results c s E) i w = (w', x)"
  shows "world_ok s r0 w' \<and> evolves c (w_db w) (w_db w') \<and> x = GetByID c (failing (E C_Get)) i (w_db w') \<and>
    (\<forall>p. x = Inr p \<longrightarrow> read_from (w_db w') p)"
proof -
  let ?op = "reading (GetByID c (failing (E C_Get)) i)" and ?d = "db_run c (o_writes (before (E C_Get))) (w_db w)"
  have w': "w' = fst (on_db c s (E C_Get) ?op w)" and x: "x = snd (on_db c s (E C_Get) ?op w)"
    using run by (simp_all add: live_results_def)
  have d: "w_db w' = ?d" by (simp add: w' w_on_db reading_def)
  have ev: "evolves c (w_db w) ?d" by (rule db_run_evolves)
  have "db_inv ?d" using inv_evolves [OF ev refl] ok by (simp add: world_ok_def)
  moreover have "recorded s r0 w'" using ok by (simp add: w' world_ok_def)
  moreover have "x = GetByID c (failing (E C_Get)) i ?d" by (simp add: x w_on_db reading_def)
  ultimately show ?thesis using ev GetByID_read [of ?d c "failing (E C_Get)" i] by (auto simp: world_ok_def d)
qed

lemma results_outcome:
  assumes ok: "world_ok s r0 w"
    and run: "ResultService_Results (live_results c s E) (live_store c s E) i w = (w', Inr (p, r))"
    and good: "good (w_calls w')"
  shows "(\<exists>d. evolves c (w_db w) d \<and> GetByID c (failing (E C_Get)) i d = Inr p) \<and> parts \<notin> set (optionIDs p) \<and>
    (Status p = Active \<and> (ID p = i \<longrightarrow> r = (let t = ballot_totals (cast_ballots s (w_calls w')) i (optionIDs p) (api_now (E C_Totals)) in
        \<lparr>res_PollID = i, res_Status = Active, res_Source = redis_live, res_AsOf = tot_AsOf t, res_FinalizedAt = None,
         res_Participants = tot_Participants t, res_Options = tot_Options t\<rparr>)) \<or>
     Status p = Closed \<and> (\<exists>d. evolves c (w_db w) d \<and>
        snd (LoadResult c (failing (E C_Load)) (db_run c (inside (E C_Load) 0)) i d) = Inr r))"
proof -
  obtain w1 x where 1: "j_GetByID (live_results c s E) i w = (w1, x)" by fastforce
  note g = get_step [OF ok 1]
  have x: "x = Inr p" using run 1 by (auto simp: ResultService_Results_def with_poll_def Let_def split_beta split: sum.splits if_splits)
  then have plain: "parts \<notin> set (optionIDs p)" using g plain_ids by blast
  have ok1: "world_ok s r0 w1" and ev: "evolves c (w_db w) (w_db w1)" and rd: "read_from (w_db w1) p" using g x by simp_all
  consider (closed) "Status p = Closed" | (active) "Status p = Active"
    using run 1 x by (auto simp: ResultService_Results_def split: if_splits)
  then show ?thesis
  proof cases
    case closed
    obtain w2 y where 2: "j_LoadResult (live_results c s E) i w1 = (w2, y)" by fastforce
    have "y = Inr r" using run 1 2 x closed by (auto simp: ResultService_Results_def with_poll_def split: sum.splits)
    then have "snd (LoadResult c (failing (E C_Load)) (db_run c (inside (E C_Load) 0)) i (db_run c (o_writes (before (E C_Load))) (w_db w1))) = Inr r"
      using 2 w_on_db(4) [of c s "E C_Load" "LoadResult c (failing (E C_Load)) (db_run c (inside (E C_Load) 0)) i" w1]
      by (simp add: live_results_def)
    moreover have "evolves c (w_db w) (db_run c (o_writes (before (E C_Load))) (w_db w1))"
      using db_run_evolves ev evolves_trans by blast
    ultimately show ?thesis using closed g x ev plain by metis
  next
    case active
    obtain w2 y where 2: "j_Totals (live_store c s E) i (optionIDs p) w1 = (w2, y)" by fastforce
    obtain t where t: "y = Inr t" "w' = w2" "r = \<lparr>res_PollID = i, res_Status = Active, res_Source = redis_live,
        res_AsOf = tot_AsOf t, res_FinalizedAt = None, res_Participants = tot_Participants t, res_Options = tot_Options t\<rparr>"
      using run 1 2 x active by (auto simp: ResultService_Results_def split: sum.splits)
    have "t = ballot_totals (cast_ballots s (w_calls w')) i (optionIDs p) (api_now (E C_Totals))" if "ID p = i"
      using count_now [OF ok1 rd, of w' E t] good 2 t that by simp
    with active t g x ev plain show ?thesis by (auto simp: Let_def)
  qed
qed

end

section \<open>Claims\<close>


abbreviation demo_shown :: "invocation list" where
  "demo_shown \<equiv> demo_voted @ [(Reply [], Second, Second, Totals_c demo_id [demo_yes, demo_no])]"

lemma demo_shown_ok: "history_ok demo_store 0 Second Hour demo_voted" "history_ok demo_store 0 Second Hour demo_shown"
  using demo_TTL(1) demo_store_ok
  by (simp_all add: history_ok_def demo_calls_def history_events_def delivered_def gate_events_def demo_store_def
      peek_events_def demo_ballot_def plain_hash_def duration_unit_defs numeral_2_eq_2)

lemma demo_results:
  "\<exists>r. ResultService_Results (live_results demo_repo demo_store (demo_around 0 0)) (live_store demo_repo demo_store (demo_around 0 0)) demo_id
     demo_running = (demo_stage demo_shown, Inr (demo_poll, r))"
proof -
  have same: "db_run demo_repo [] d = d" for d by (simp add: db_run_def)
  note env = live_results_def live_store_def on_db_def on_redis_def others_def reading_def demo_around_simps same
  obtain t where t: "snd (Totals demo_store (Reply []) Second Second demo_id [demo_yes, demo_no] (store_run demo_store demo_voted [])) = Inr t"
    using redis_server.Totals_history [OF demo_mem(1) refl demo_mem(2) demo_shown_ok(1), of "[demo_yes, demo_no]" "[]" Second demo_id] by simp
  have get: "j_GetByID (live_results demo_repo demo_store (demo_around 0 0)) demo_id demo_running = (demo_running, Inr demo_poll)"
    by (simp add: env demo_running_def demo_poll_loaded)
  have r: "store_run demo_store demo_shown [] = fst (Totals demo_store (Reply []) Second Second demo_id [demo_yes, demo_no] (store_run demo_store demo_voted []))"
    using store_run_append [of demo_store demo_voted "[(Reply [], Second, Second, Totals_c demo_id [demo_yes, demo_no])]" "[]"] by simp
  have v: "store_run demo_store [(Reply [], Second, Second, Record_c demo_ballot)] (store_run demo_store demo_calls []) = store_run demo_store demo_voted []"
    by (rule store_run_append [symmetric])
  have "j_Totals (live_store demo_repo demo_store (demo_around 0 0)) demo_id [demo_yes, demo_no] demo_running = (demo_stage demo_shown, Inr t)"
    using t r v by (simp add: env demo_running_def demo_stage_def split_beta del: store_run.simps)
  then show ?thesis
    by (simp add: ResultService_Results_def get demo_poll_fields optionIDs_def demo_poll_simps demo_opts_def)
qed


end
