(* ===== verification/Go_Time.thy ===== *)
theory Go_Time
  imports Go_Encoding
begin

text \<open>
  What the source uses of Go's package time beyond instants and durations: the text of an instant in
  a JSON document (\<open>Time.UnmarshalJSON\<close>, whose strict mode is switched off in Go) and the years that
  \<open>Time.MarshalJSON\<close> writes.
\<close>

text \<open>Days since 1970-01-01 of a date of the Gregorian calendar.\<close>

definition days_from_civil :: "int \<Rightarrow> int \<Rightarrow> int \<Rightarrow> int" where
  "days_from_civil y m d =
    (let y' = (if m \<le> 2 then y - 1 else y); era = y' div 400; yoe = y' mod 400;
         doy = (153 * ((m + 9) mod 12) + 2) div 5 + d - 1
     in era * 146097 + (yoe * 365 + yoe div 4 - yoe div 100 + doy) - 719468)"

definition leap_year :: "int \<Rightarrow> bool" where
  "leap_year y \<longleftrightarrow> y mod 4 = 0 \<and> (y mod 100 \<noteq> 0 \<or> y mod 400 = 0)"

definition days_in :: "int \<Rightarrow> int \<Rightarrow> int" where
  "days_in m y = (if m = 2 then (if leap_year y then 29 else 28) else if m \<in> {4, 6, 9, 11} then 30 else 31)"

text \<open>A number of one or two digits, or of exactly \<open>n\<close>; a literal byte.\<close>

definition num_fixed :: "nat \<Rightarrow> string \<Rightarrow> (int \<times> string) option" where
  "num_fixed n s =
    (if length s < n then None
     else map_option (\<lambda>x. (int x, drop n s)) (dec_val 0 (take n s)))"

definition num_short :: "string \<Rightarrow> (int \<times> string) option" where
  "num_short s = (case num_fixed 2 s of None \<Rightarrow> num_fixed 1 s | Some x \<Rightarrow> Some x)"

definition lit :: "char \<Rightarrow> string \<Rightarrow> string option" where
  "lit c s = (case s of x # r \<Rightarrow> if x = c then Some r else None | [] \<Rightarrow> None)"

text \<open>\<open>parseNanoseconds\<close>: at most nine digits count.\<close>

definition fraction :: "string \<Rightarrow> int \<times> string" where
  "fraction s =
    (case s of
       c # r \<Rightarrow>
         let d = takeWhile is_digit r; e = take 9 d in
         if (c = CHR ''.'' \<or> c = CHR '','') \<and> d \<noteq> []
         then (case dec_val 0 e of None \<Rightarrow> (0, s) | Some x \<Rightarrow> (int x * 10 ^ (9 - length e), drop (length d) r))
         else (0, s)
     | [] \<Rightarrow> (0, s))"

text \<open>Seconds east of UTC; nothing may follow.\<close>

definition zone :: "string \<Rightarrow> int option" where
  "zone s =
    (if s = ''Z'' then Some 0
     else case s of
       sign # r \<Rightarrow>
         (case num_fixed 2 r of
            None \<Rightarrow> None
          | Some (h, r1) \<Rightarrow>
            (case lit (CHR '':'') r1 of
               None \<Rightarrow> None
             | Some r2 \<Rightarrow>
               (case num_fixed 2 r2 of
                  None \<Rightarrow> None
                | Some (m, r3) \<Rightarrow>
                  if r3 \<noteq> [] \<or> h > 24 \<or> m > 60 then None
                  else if sign = CHR ''+'' then Some ((h * 60 + m) * 60)
                  else if sign = CHR ''-'' then Some (- (h * 60 + m) * 60) else None)))
     | [] \<Rightarrow> None)"

definition parse_date :: "string \<Rightarrow> (int \<times> string) option" where
  "parse_date s =
    Option.bind (num_fixed 4 s) (\<lambda>(y, s1). Option.bind (lit (CHR ''-'') s1) (\<lambda>s2.
    Option.bind (num_fixed 2 s2) (\<lambda>(m, s3). Option.bind (lit (CHR ''-'') s3) (\<lambda>s4.
    Option.bind (num_fixed 2 s4) (\<lambda>(d, s5).
      if 1 \<le> m \<and> m \<le> 12 \<and> 1 \<le> d \<and> d \<le> days_in m y then Some (days_from_civil y m d, s5) else None)))))"

definition parse_clock :: "string \<Rightarrow> (int \<times> string) option" where
  "parse_clock s =
    Option.bind (num_short s) (\<lambda>(h, s1). Option.bind (lit (CHR '':'') s1) (\<lambda>s2.
    Option.bind (num_fixed 2 s2) (\<lambda>(m, s3). Option.bind (lit (CHR '':'') s3) (\<lambda>s4.
    Option.bind (num_fixed 2 s4) (\<lambda>(sec, s5).
      if h < 24 \<and> m < 60 \<and> sec < 60
      then (let (ns, s6) = fraction s5 in Some (((h * 60 + m) * 60 + sec) * 1000000000 + ns, s6)) else None)))))"

definition parse_RFC3339 :: "string \<Rightarrow> time option" where
  "parse_RFC3339 s =
    Option.bind (parse_date s) (\<lambda>(day, s1). Option.bind (lit (CHR ''T'') s1) (\<lambda>s2.
    Option.bind (parse_clock s2) (\<lambda>(ns, s3). Option.bind (zone s3) (\<lambda>off.
      Some ((day * 86400 - off) * 1000000000 + ns)))))"

text \<open>The instants that \<open>MarshalJSON\<close> writes: those of the years 0 to 9999.\<close>

definition json_year :: "time \<Rightarrow> bool" where
  "json_year t \<longleftrightarrow> days_from_civil 0 1 1 * 86400 * 1000000000 \<le> t \<and> t < days_from_civil 10000 1 1 * 86400 * 1000000000"

lemma parse_RFC3339_examples:
  "parse_RFC3339 ''1970-01-01T00:00:00Z'' = Some 0"
  "parse_RFC3339 ''2000-02-29T23:59:59.5+01:30'' = Some 951863399500000000"
  "parse_RFC3339 ''2001-02-29T00:00:00Z'' = None"
  by code_simp+

end
