(* ===== verification/Go_Json.thy ===== *)
theory Go_Json
  imports Go_Encoding
begin

text \<open>
  What the source uses of Go's package encoding/json: the syntax of a JSON value in a body of
  bytes, the text of a string literal, the lookup of a struct field by the key of an object, and
  the decoding of slices. Numbers and strings keep their source text, which the decoding of a
  field looks at.
\<close>

section \<open>Text of a string literal\<close>

text \<open>\<open>utf8.AppendRune\<close>.\<close>

definition encode_rune :: "nat \<Rightarrow> string" where
  "encode_rune r =
    (if r < 128 then [char_of r]
     else if r < 2048 then [char_of (192 + r div 64), char_of (128 + r mod 64)]
     else if r > 1114111 \<or> 55296 \<le> r \<and> r \<le> 57343 then [char_of (239 :: nat), char_of (191 :: nat), char_of (189 :: nat)]
     else if r < 65536 then [char_of (224 + r div 4096), char_of (128 + r div 64 mod 64), char_of (128 + r mod 64)]
     else [char_of (240 + r div 262144), char_of (128 + r div 4096 mod 64), char_of (128 + r div 64 mod 64), char_of (128 + r mod 64)])"

text \<open>The value of the four digits of \<open>\uXXXX\<close>.\<close>

definition hex4 :: "string \<Rightarrow> (nat \<times> string) option" where
  "hex4 s =
    (case s of a # b # c # d # r \<Rightarrow>
       (case (from_hex a, from_hex b, from_hex c, from_hex d) of
          (Some w, Some x, Some y, Some z) \<Rightarrow> Some (4096 * w + 256 * x + 16 * y + z, r)
        | _ \<Rightarrow> None)
     | _ \<Rightarrow> None)"

definition simple_escape :: "char \<Rightarrow> char option" where
  "simple_escape e =
    (if e = CHR 0x22 \<or> e = CHR 0x5C \<or> e = CHR ''/'' then Some e
     else if e = CHR ''b'' then Some (CHR 0x08) else if e = CHR ''f'' then Some (CHR 0x0C)
     else if e = CHR ''n'' then Some (CHR 0x0A) else if e = CHR ''r'' then Some (CHR 0x0D)
     else if e = CHR ''t'' then Some (CHR 0x09) else None)"

text \<open>A surrogate and what follows it: the rune of the pair, or none.\<close>

definition surrogate_pair :: "nat \<Rightarrow> string \<Rightarrow> (nat \<times> string) option" where
  "surrogate_pair hi s =
    (case s of b # u # r \<Rightarrow>
       if b = CHR 0x5C \<and> u = CHR ''u'' \<and> hi < 56320
       then (case hex4 r of
               Some (lo, r') \<Rightarrow> if 56320 \<le> lo \<and> lo \<le> 57343 then Some (65536 + (hi - 55296) * 1024 + (lo - 56320), r') else None
             | None \<Rightarrow> None)
       else None
     | _ \<Rightarrow> None)"

text \<open>\<open>unquote\<close>: the string that a literal stands for; the scanner has accepted the literal.\<close>

fun unquote :: "nat \<Rightarrow> string \<Rightarrow> string option" where
  "unquote k [] = Some []"
| "unquote 0 (c # s) = None"
| "unquote (Suc k) (c # s) =
    (if c = CHR 0x5C then
       (case s of
          [] \<Rightarrow> None
        | e # s1 \<Rightarrow>
          if e = CHR ''u'' then
            (case hex4 s1 of
               None \<Rightarrow> None
             | Some (r, s2) \<Rightarrow>
               if 55296 \<le> r \<and> r \<le> 57343 then
                 (case surrogate_pair r s2 of
                    Some (r', s3) \<Rightarrow> map_option (\<lambda>t. encode_rune r' @ t) (unquote k s3)
                  | None \<Rightarrow> map_option (\<lambda>t. encode_rune RuneError @ t) (unquote k s2))
               else map_option (\<lambda>t. encode_rune r @ t) (unquote k s2))
          else (case simple_escape e of None \<Rightarrow> None | Some x \<Rightarrow> map_option ((#) x) (unquote k s1)))
     else
       (let (r, w) = decode_rune (c # s)
        in map_option (\<lambda>t. (if r = RuneError \<and> w = 1 then encode_rune RuneError else take w (c # s)) @ t)
             (unquote k (drop w (c # s)))))"

definition json_string :: "string \<Rightarrow> string option" where
  "json_string raw = unquote (length raw) raw"

section \<open>Syntax\<close>

datatype json = JNull | JBool bool | JNum string | JStr string | JArr "json list" | JObj "(string \<times> json) list"

definition json_space :: "char \<Rightarrow> bool" where
  "json_space c \<longleftrightarrow> c \<in> {CHR '' '', CHR 0x09, CHR 0x0A, CHR 0x0D}"

abbreviation skip :: "string \<Rightarrow> string" where
  "skip s \<equiv> dropWhile json_space s"

text \<open>The rest of a string literal after its opening quote: its raw text, and what follows the closing quote.\<close>

fun scan_string :: "string \<Rightarrow> (string \<times> string) option" where
  "scan_string [] = None"
| "scan_string (c # s) =
    (if c = CHR 0x22 then Some ([], s)
     else if byte_val c < 32 then None
     else if c = CHR 0x5C then
       (case s of
          [] \<Rightarrow> None
        | e # s' \<Rightarrow>
          if simple_escape e \<noteq> None \<or> e = CHR ''u'' \<and> hex4 s' \<noteq> None
          then map_option (\<lambda>(t, r). (c # e # t, r)) (scan_string s') else None)
     else map_option (\<lambda>(t, r). (c # t, r)) (scan_string s))"

definition digits :: "string \<Rightarrow> (string \<times> string) option" where
  "digits s = (let d = takeWhile is_digit s in if d = [] then None else Some (d, drop (length d) s))"

definition scan_number :: "string \<Rightarrow> (string \<times> string) option" where
  "scan_number s =
    (let (sgn, s1) = (case s of c # r \<Rightarrow> if c = CHR ''-'' then ([c], r) else ([], s) | [] \<Rightarrow> ([], s)) in
     case (case s1 of c # r \<Rightarrow> if c = CHR ''0'' then Some ([c], r) else digits s1 | [] \<Rightarrow> None) of
       None \<Rightarrow> None
     | Some (ip, s2) \<Rightarrow>
       (case (case s2 of c # r \<Rightarrow> if c = CHR ''.'' then map_option (\<lambda>(d, q). (c # d, q)) (digits r) else Some ([], s2)
              | [] \<Rightarrow> Some ([], s2)) of
          None \<Rightarrow> None
        | Some (frac, s3) \<Rightarrow>
          (case (case s3 of
                   c # r \<Rightarrow>
                     if c = CHR ''e'' \<or> c = CHR ''E'' then
                       (let (g, q) = (case r of x # y \<Rightarrow> if x = CHR ''+'' \<or> x = CHR ''-'' then ([x], y) else ([], r) | [] \<Rightarrow> ([], r))
                        in map_option (\<lambda>(d, q'). (c # g @ d, q')) (digits q))
                     else Some ([], s3)
                 | [] \<Rightarrow> Some ([], s3)) of
             None \<Rightarrow> None
           | Some (ex, s4) \<Rightarrow> Some (sgn @ ip @ frac @ ex, s4))))"

text \<open>A value, the elements of an array after \<open>[\<close>, the members of an object after the opening brace. The fuel
  counts calls: twice the length of the input is enough, as two calls in a row consume a byte.\<close>

fun scan_value :: "nat \<Rightarrow> string \<Rightarrow> (json \<times> string) option"
  and scan_elems :: "nat \<Rightarrow> string \<Rightarrow> (json list \<times> string) option"
  and scan_members :: "nat \<Rightarrow> string \<Rightarrow> ((string \<times> json) list \<times> string) option" where
  "scan_value 0 s = None"
| "scan_value (Suc k) s =
    (case skip s of
       [] \<Rightarrow> None
     | c # t \<Rightarrow>
       if c = CHR 0x22 then map_option (\<lambda>(x, r). (JStr x, r)) (scan_string t)
       else if c = CHR ''['' then
         (case skip t of
            [] \<Rightarrow> None
          | d # r \<Rightarrow> if d = CHR '']'' then Some (JArr [], r) else map_option (\<lambda>(vs, q). (JArr vs, q)) (scan_elems k t))
       else if c = CHR 0x7B then
         (case skip t of
            [] \<Rightarrow> None
          | d # r \<Rightarrow> if d = CHR 0x7D then Some (JObj [], r) else map_option (\<lambda>(vs, q). (JObj vs, q)) (scan_members k t))
       else if has_prefix (c # t) ''null'' then Some (JNull, drop 4 (c # t))
       else if has_prefix (c # t) ''true'' then Some (JBool True, drop 4 (c # t))
       else if has_prefix (c # t) ''false'' then Some (JBool False, drop 5 (c # t))
       else map_option (\<lambda>(x, r). (JNum x, r)) (scan_number (c # t)))"
| "scan_elems 0 s = None"
| "scan_elems (Suc k) s =
    (case scan_value k s of
       None \<Rightarrow> None
     | Some (v, r) \<Rightarrow>
       (case skip r of
          [] \<Rightarrow> None
        | c # q \<Rightarrow>
          if c = CHR '','' then map_option (\<lambda>(vs, p). (v # vs, p)) (scan_elems k q)
          else if c = CHR '']'' then Some ([v], q) else None))"
| "scan_members 0 s = None"
| "scan_members (Suc k) s =
    (case skip s of
       [] \<Rightarrow> None
     | c # t \<Rightarrow>
       if c \<noteq> CHR 0x22 then None
       else (case scan_string t of
          None \<Rightarrow> None
        | Some (key, r) \<Rightarrow>
          (case skip r of
             [] \<Rightarrow> None
           | d # q \<Rightarrow>
             if d \<noteq> CHR '':'' then None
             else (case scan_value k q of
                None \<Rightarrow> None
              | Some (v, p) \<Rightarrow>
                (case skip p of
                   [] \<Rightarrow> None
                 | e # u \<Rightarrow>
                   if e = CHR '','' then map_option (\<lambda>(vs, z). ((key, v) # vs, z)) (scan_members k u)
                   else if e = CHR 0x7D then Some ([(key, v)], u) else None)))))"

definition json_value :: "string \<Rightarrow> (json \<times> string) option" where
  "json_value s = scan_value (2 * length s + 1) s"

section \<open>The fuel is enough\<close>

lemma length_skip: "length (skip s) \<le> length s"
  by (rule length_dropWhile_le)

lemma skip_Cons: "skip s = c # t \<Longrightarrow> length t < length s"
  using length_skip [of s] by simp

lemma scan_string_length: "scan_string s = Some (x, r) \<Longrightarrow> length r < length s"
  by (induction s arbitrary: x r rule: scan_string.induct) (fastforce split: if_splits list.splits)+

lemma digits_length: "digits s = Some (x, r) \<Longrightarrow> length r < length s"
  by (auto simp: digits_def Let_def split: if_splits) (metis is_digit_def length_greater_0_conv list.set_intros(1) takeWhile.simps(1) length_0_conv diff_less takeWhile_eq_Nil_iff)

lemma scan_number_length: "scan_number s = Some (x, r) \<Longrightarrow> length r < length s"
  by (auto simp: scan_number_def Let_def split: list.splits if_splits option.splits dest!: digits_length)

lemma scan_lengths:
  "(\<forall>s v r. scan_value k s = Some (v, r) \<longrightarrow> length r < length s) \<and>
   (\<forall>s vs r. scan_elems k s = Some (vs, r) \<longrightarrow> length r < length s) \<and>
   (\<forall>s ms r. scan_members k s = Some (ms, r) \<longrightarrow> length r < length s)"
proof (induction k)
  case (Suc k)
  then have v: "\<And>s v r. scan_value k s = Some (v, r) \<Longrightarrow> length r < length s"
    and e: "\<And>s vs r. scan_elems k s = Some (vs, r) \<Longrightarrow> length r < length s"
    and m: "\<And>s ms r. scan_members k s = Some (ms, r) \<Longrightarrow> length r < length s" by blast+
  show ?case
  proof (intro conjI allI impI)
    fix s x r assume "scan_value (Suc k) s = Some (x, r)"
    then show "length r < length s"
      by (auto split: list.splits if_splits dest!: skip_Cons scan_string_length scan_number_length e m)
  next
    fix s x r assume "scan_elems (Suc k) s = Some (x, r)"
    then show "length r < length s"
      by (auto split: list.splits if_splits option.splits dest!: skip_Cons v e)
  next
    fix s x r assume "scan_members (Suc k) s = Some (x, r)"
    then show "length r < length s"
      by (auto split: list.splits if_splits option.splits dest!: skip_Cons scan_string_length v m)
  qed
qed simp

text \<open>A scan asks only for shorter texts.\<close>

lemma value_fuel:
  assumes "\<And>q. length q < length s \<Longrightarrow> scan_elems k q = scan_elems i q"
    and "\<And>q. length q < length s \<Longrightarrow> scan_members k q = scan_members i q"
  shows "scan_value (Suc k) s = scan_value (Suc i) s"
proof (cases "skip s")
  case Nil
  show ?thesis unfolding scan_value.simps Nil by simp
next
  case (Cons c t)
  have t: "length t < length s" by (rule skip_Cons [OF Cons])
  show ?thesis unfolding scan_value.simps Cons list.case assms(1) [OF t] assms(2) [OF t] ..
qed

lemma elems_fuel:
  assumes "scan_value k s = scan_value i s" and "\<And>q. length q < length s \<Longrightarrow> scan_elems k q = scan_elems i q"
  shows "scan_elems (Suc k) s = scan_elems (Suc i) s"
proof (cases "scan_value i s")
  case None
  then show ?thesis by (simp add: assms(1))
next
  case (Some a)
  obtain x r where a: "a = (x, r)" by (cases a)
  show ?thesis
  proof (cases "skip r")
    case (Cons c q)
    have "length q < length s" using Some a scan_lengths skip_Cons [OF Cons] by (metis less_trans)
    from assms(2) [OF this] show ?thesis using Cons by (simp add: assms(1) Some a)
  qed (simp add: assms(1) Some a del: dropWhile_eq_Nil_conv)
qed

lemma members_fuel:
  assumes v: "\<And>q. length q < length s \<Longrightarrow> scan_value k q = scan_value i q"
    and m: "\<And>q. length q < length s \<Longrightarrow> scan_members k q = scan_members i q"
  shows "scan_members (Suc k) s = scan_members (Suc i) s"
proof (cases "\<exists>c t key r d q. skip s = c # t \<and> scan_string t = Some (key, r) \<and> skip r = d # q")
  case False
  note [simp del] = dropWhile_eq_Nil_conv
  show ?thesis
    using False by (cases "skip s"; simp; cases "scan_string (tl (skip s))"; auto split: list.splits)
next
  case True
  note [simp del] = dropWhile_eq_Nil_conv
  obtain c t key r d q where here: "skip s = c # t" "scan_string t = Some (key, r)" "skip r = d # q" using True by blast
  have q: "length q < length s" using skip_Cons [OF here(1)] scan_string_length [OF here(2)] skip_Cons [OF here(3)] by simp
  show ?thesis
  proof (cases "scan_value i q")
    case None
    then show ?thesis by (simp add: here v [OF q])
  next
    case (Some b)
    obtain x p where b: "b = (x, p)" by (cases b)
    show ?thesis
    proof (cases "skip p")
      case (Cons z u)
      have "length u < length s" using q Some b scan_lengths skip_Cons [OF Cons] by (metis less_trans)
      from m [OF this] show ?thesis using Cons by (simp add: here v [OF q] Some b)
    qed (simp add: here v [OF q] Some b)
  qed
qed

lemma scan_fuels:
  "(\<forall>s j. 2 * length s < k \<longrightarrow> 2 * length s < j \<longrightarrow> scan_value k s = scan_value j s) \<and>
   (\<forall>s j. 2 * length s + 1 < k \<longrightarrow> 2 * length s + 1 < j \<longrightarrow> scan_elems k s = scan_elems j s) \<and>
   (\<forall>s j. 2 * length s + 1 < k \<longrightarrow> 2 * length s + 1 < j \<longrightarrow> scan_members k s = scan_members j s)"
proof (induction k)
  case (Suc k)
  have v: "scan_value k s = scan_value j s" if "2 * length s < k" "2 * length s < j" for s j using Suc that by blast
  have e: "scan_elems k s = scan_elems j s" if "2 * length s + 1 < k" "2 * length s + 1 < j" for s j using Suc that by blast
  have m: "scan_members k s = scan_members j s" if "2 * length s + 1 < k" "2 * length s + 1 < j" for s j using Suc that by blast
  show ?case
  proof (intro conjI allI impI)
    fix s :: string and j assume "2 * length s < Suc k" "2 * length s < j"
    then obtain i where i: "j = Suc i" "2 * length s \<le> k" "2 * length s \<le> i" by (cases j) auto
    show "scan_value (Suc k) s = scan_value j s" unfolding i(1) by (rule value_fuel) (use i in \<open>auto intro: e m\<close>)
  next
    fix s :: string and j assume "2 * length s + 1 < Suc k" "2 * length s + 1 < j"
    then obtain i where i: "j = Suc i" "2 * length s < k" "2 * length s < i" by (cases j) auto
    show "scan_elems (Suc k) s = scan_elems j s" unfolding i(1) by (rule elems_fuel) (use i in \<open>auto intro: v e\<close>)
  next
    fix s :: string and j assume "2 * length s + 1 < Suc k" "2 * length s + 1 < j"
    then obtain i where i: "j = Suc i" "2 * length s < k" "2 * length s < i" by (cases j) auto
    show "scan_members (Suc k) s = scan_members j s" unfolding i(1) by (rule members_fuel) (use i in \<open>auto intro: v m\<close>)
  qed
qed simp

text \<open>More fuel makes no difference.\<close>

lemma json_value_fuel: "2 * length s < k \<Longrightarrow> scan_value k s = json_value s"
  unfolding json_value_def by (rule conjunct1 [OF scan_fuels, rule_format]) simp_all

end
