(* ===== verification/Go_Http.thy ===== *)
theory Go_Http
  imports Go_Net Go_Time Go_Json
begin

text \<open>
  What the source uses of Go's packages mime, net/url, path and net/http: media types, query parameters,
  escaping, cookies of a request, cleaning of paths, and the matching of a request by a \<open>ServeMux\<close>.
\<close>

section \<open>Package strings again\<close>

text \<open>\<open>strings.ToLower\<close>, for comparisons with ASCII texts: besides the letters A to Z, two letters beyond
  ASCII have a lower case in ASCII (I with a dot, the Kelvin sign). Other letters are left alone.\<close>

definition lower_char :: "char \<Rightarrow> char" where
  "lower_char c = (if 65 \<le> byte_val c \<and> byte_val c \<le> 90 then char_of (byte_val c + 32) else c)"

fun to_lower :: "string \<Rightarrow> string" where
  "to_lower [] = []"
| "to_lower (c # s) =
    (if byte_val c = 196 \<and> s \<noteq> [] \<and> byte_val (hd s) = 176 then CHR ''i'' # to_lower (tl s)
     else if byte_val c = 226 \<and> 2 \<le> length s \<and> byte_val (s ! 0) = 132 \<and> byte_val (s ! 1) = 170
     then CHR ''k'' # to_lower (drop 2 s)
     else lower_char c # to_lower s)"

text \<open>\<open>strings.Cut\<close> with a separator that may be missing.\<close>

definition before :: "char \<Rightarrow> string \<Rightarrow> string" where
  "before c s = takeWhile (\<lambda>x. x \<noteq> c) s"

definition after :: "char \<Rightarrow> string \<Rightarrow> string" where
  "after c s = tl (dropWhile (\<lambda>x. x \<noteq> c) s)"

section \<open>Media types\<close>

definition tspecial :: "char \<Rightarrow> bool" where
  "tspecial c \<longleftrightarrow> c \<in> set ''()<>@,;:/[]?='' \<or> c = CHR 0x22 \<or> c = CHR 0x5C"

definition token_char :: "char \<Rightarrow> bool" where
  "token_char c \<longleftrightarrow> 32 < byte_val c \<and> byte_val c < 127 \<and> \<not> tspecial c"

definition consume_token :: "string \<Rightarrow> string \<times> string" where
  "consume_token s = (takeWhile token_char s, dropWhile token_char s)"

text \<open>\<open>checkMediaTypeDisposition\<close>.\<close>

definition media_type_ok :: "string \<Rightarrow> bool" where
  "media_type_ok s =
    (let (typ, rest) = consume_token s in
     typ \<noteq> [] \<and> (rest = [] \<or> (hd rest = CHR ''/'' \<and> fst (consume_token (tl rest)) \<noteq> [] \<and> snd (consume_token (tl rest)) = [])))"

text \<open>The inside of a quoted string; \<open>None\<close> when it does not end or holds a line break.\<close>

fun quoted :: "string \<Rightarrow> (string \<times> string) option" where
  "quoted [] = None"
| "quoted (c # s) =
    (if c = CHR 0x22 then Some ([], s)
     else if c = CHR 0x5C \<and> s \<noteq> [] \<and> tspecial (hd s) then map_option (\<lambda>(t, r). (hd s # t, r)) (quoted (tl s))
     else if c = CHR 0x0D \<or> c = CHR 0x0A then None
     else map_option (\<lambda>(t, r). (c # t, r)) (quoted s))"

definition consume_value :: "string \<Rightarrow> string \<times> string" where
  "consume_value s =
    (case s of [] \<Rightarrow> ([], [])
     | c # r \<Rightarrow> if c = CHR 0x22 then (case quoted r of None \<Rightarrow> ([], s) | Some x \<Rightarrow> x) else consume_token s)"

text \<open>\<open>consumeMediaParam\<close>; \<open>None\<close> when it returns an empty name.\<close>

definition media_param :: "string \<Rightarrow> (string \<times> string \<times> string) option" where
  "media_param s =
    (let r = trim_left s in
     if r = [] \<or> hd r \<noteq> CHR '';'' then None
     else (let (name, r2) = consume_token (trim_left (tl r)); r3 = trim_left r2 in
       if name = [] \<or> r3 = [] \<or> hd r3 \<noteq> CHR ''='' then None
       else (let r4 = trim_left (tl r3); (v, r5) = consume_value r4 in
         if v = [] \<and> r5 = r4 then None else Some (to_lower name, v, r5))))"

text \<open>The loop over the parameters: whether it ends without an error. Every round takes a byte, so that the
  length of the text is fuel enough.\<close>

fun media_params :: "nat \<Rightarrow> (string \<rightharpoonup> string) \<Rightarrow> string \<Rightarrow> bool" where
  "media_params 0 m s \<longleftrightarrow> trim_left s = []"
| "media_params (Suc k) m s \<longleftrightarrow>
    (let s1 = trim_left s in
     s1 = [] \<or>
     (case media_param s1 of
        None \<Rightarrow> trim_space s1 = '';''
      | Some (name, v, rest) \<Rightarrow> (m name = None \<or> m name = Some v) \<and> media_params k (m(name \<mapsto> v)) rest))"

text \<open>\<open>mime.ParseMediaType\<close>: the media type, or \<open>None\<close> for an error.\<close>

definition ParseMediaType :: "string \<Rightarrow> string option" where
  "ParseMediaType v =
    (let base = before (CHR '';'') v; mt = trim_space (to_lower base); rest = drop (length base) v
     in if media_type_ok mt \<and> media_params (length rest) Map.empty rest then Some mt else None)"

section \<open>URLs\<close>

text \<open>\<open>unescape\<close>; a plus sign is a space in a query.\<close>

fun url_unescape :: "bool \<Rightarrow> string \<Rightarrow> string option" where
  "url_unescape q [] = Some []"
| "url_unescape q (c # s) =
    (if c = CHR ''%'' then
       (case s of
          a # b # r \<Rightarrow>
            (case (from_hex a, from_hex b) of
               (Some x, Some y) \<Rightarrow> map_option ((#) (char_of (16 * x + y))) (url_unescape q r)
             | _ \<Rightarrow> None)
        | _ \<Rightarrow> None)
     else map_option ((#) (if q \<and> c = CHR ''+'' then CHR '' '' else c)) (url_unescape q s))"

text \<open>\<open>r.URL.Query().Get(key)\<close>.\<close>

definition query_pair :: "string \<Rightarrow> (string \<times> string) option" where
  "query_pair part =
    (if part = [] \<or> CHR '';'' \<in> set part then None
     else case (url_unescape True (before (CHR ''='') part), url_unescape True (after (CHR ''='') part)) of
       (Some k, Some v) \<Rightarrow> Some (k, v) | _ \<Rightarrow> None)"

definition query_get :: "string \<Rightarrow> string \<Rightarrow> string" where
  "query_get key raw =
    (case map_of (List.map_filter query_pair (split (CHR ''&'') raw)) key of None \<Rightarrow> [] | Some v \<Rightarrow> v)"

definition url_plain :: "char \<Rightarrow> bool" where
  "url_plain c \<longleftrightarrow> 48 \<le> byte_val c \<and> byte_val c \<le> 57 \<or> 65 \<le> byte_val c \<and> byte_val c \<le> 90 \<or>
     97 \<le> byte_val c \<and> byte_val c \<le> 122 \<or> c \<in> set ''-_.~''"

definition upper_hex :: "nat \<Rightarrow> char" where
  "upper_hex d = ''0123456789ABCDEF'' ! d"

definition escape_with :: "(char \<Rightarrow> bool) \<Rightarrow> string \<Rightarrow> string" where
  "escape_with keep s =
    concat (map (\<lambda>c. if url_plain c \<or> keep c then [c] else [CHR ''%'', upper_hex (byte_val c div 16), upper_hex (byte_val c mod 16)]) s)"

text \<open>\<open>url.PathEscape\<close>, and the path of \<open>URL.String\<close>.\<close>

definition PathEscape :: "string \<Rightarrow> string" where
  "PathEscape = escape_with (\<lambda>c. c \<in> set ''$&+:=@'')"

definition path_text :: "string \<Rightarrow> string" where
  "path_text = escape_with (\<lambda>c. c \<in> set ''$&+,/:;=@'')"

section \<open>Paths\<close>

text \<open>\<open>path.Clean\<close> of a rooted path, by its segments; \<open>cleanPath\<close> of net/http keeps a slash at the end.\<close>

fun clean_segs :: "string list \<Rightarrow> string list \<Rightarrow> string list" where
  "clean_segs acc [] = rev acc"
| "clean_segs acc (x # xs) =
    (if x = [] \<or> x = ''.'' then clean_segs acc xs
     else if x = ''..'' then clean_segs (tl acc) xs
     else clean_segs (x # acc) xs)"

definition clean_path :: "string \<Rightarrow> string" where
  "clean_path p =
    (if p = [] then ''/''
     else let p1 = (if hd p = CHR ''/'' then p else CHR ''/'' # p);
              np = CHR ''/'' # join (CHR ''/'') (clean_segs [] (split (CHR ''/'') p1))
          in if last p1 = CHR ''/'' \<and> np \<noteq> ''/'' then np @ ''/'' else np)"

section \<open>ServeMux\<close>

text \<open>A pattern: its method (none for any), its segments, whether it ends in a slash and so matches every
  longer path, and the handler. The end \<open>{$}\<close> is the literal segment \<open>/\<close>.\<close>

datatype pattern_seg = Literal string | Wildcard

record 'h pattern =
  pat_method :: "string option"
  pat_segs :: "pattern_seg list"
  pat_multi :: bool
  pat_handler :: 'h

text \<open>Segments are matched unescaped.\<close>

definition path_unescape :: "string \<Rightarrow> string" where
  "path_unescape s = (case url_unescape False s of None \<Rightarrow> s | Some t \<Rightarrow> t)"

definition first_segment :: "string \<Rightarrow> string \<times> string" where
  "first_segment p =
    (if p = ''/'' then (p, [])
     else (let q = tl p in (path_unescape (before (CHR ''/'') q), dropWhile (\<lambda>x. x \<noteq> CHR ''/'') q)))"

lemma first_segment_shorter: "p \<noteq> [] \<Longrightarrow> length (snd (first_segment p)) < length p"
  using length_dropWhile_le [of "\<lambda>x. x \<noteq> CHR ''/''" "tl p"] by (cases p) (auto simp: first_segment_def Let_def)

text \<open>The patterns that agree so far with the rest of their segments: literals are tried first, then
  wildcards, then a pattern that ends in a slash.\<close>

definition descend :: "pattern_seg \<Rightarrow> (pattern_seg list \<times> 'h pattern) list \<Rightarrow> (pattern_seg list \<times> 'h pattern) list" where
  "descend x ps = map (\<lambda>(segs, p). (tl segs, p)) (filter (\<lambda>(segs, p). segs \<noteq> [] \<and> hd segs = x) ps)"

function match_path :: "(pattern_seg list \<times> 'h pattern) list \<Rightarrow> string \<Rightarrow> string list \<Rightarrow> ('h pattern \<times> string list) option" where
  "match_path ps p found =
    (if p = [] then map_option (\<lambda>(segs, pat). (pat, found)) (find (\<lambda>(segs, pat). segs = [] \<and> \<not> pat_multi pat) ps)
     else
       (let (seg, rest) = first_segment p in
        case match_path (descend (Literal seg) ps) rest found of
          Some x \<Rightarrow> Some x
        | None \<Rightarrow>
          (case (if seg = ''/'' then None else match_path (descend Wildcard ps) rest (found @ [seg])) of
             Some x \<Rightarrow> Some x
           | None \<Rightarrow> map_option (\<lambda>(segs, pat). (pat, found)) (find (\<lambda>(segs, pat). segs = [] \<and> pat_multi pat) ps))))"
  by pat_completeness auto
termination
proof (relation "measure (\<lambda>(ps, p, found). length p)", goal_cases)
  case (2 ps p found x seg rest)
  then have "rest = snd (first_segment p)" by (metis snd_conv)
  with 2 show ?case using first_segment_shorter [of p] by simp
next
  case (3 ps p found x seg rest)
  then have "rest = snd (first_segment p)" by (metis snd_conv)
  with 3 show ?case using first_segment_shorter [of p] by simp
qed simp

declare match_path.simps [simp del]

definition match_method :: "'h pattern list \<Rightarrow> string option \<Rightarrow> string \<Rightarrow> ('h pattern \<times> string list) option" where
  "match_method ps m p = match_path (map (\<lambda>x. (pat_segs x, x)) (filter (\<lambda>x. pat_method x = m) ps)) p []"

text \<open>\<open>matchMethodAndPath\<close>.\<close>

definition mux_match :: "'h pattern list \<Rightarrow> string \<Rightarrow> string \<Rightarrow> ('h pattern \<times> string list) option" where
  "mux_match ps m p =
    (case match_method ps (Some m) p of
       Some x \<Rightarrow> Some x
     | None \<Rightarrow>
       (case (if m = ''HEAD'' then match_method ps (Some ''GET'') p else None) of
          Some x \<Rightarrow> Some x
        | None \<Rightarrow> match_method ps None p))"

definition exact_match :: "('h pattern \<times> string list) option \<Rightarrow> string \<Rightarrow> bool" where
  "exact_match x p =
    (case x of None \<Rightarrow> False
     | Some (pat, _) \<Rightarrow>
       \<not> pat_multi pat \<or>
       (p \<noteq> [] \<and> last p = CHR ''/'' \<and> Suc (length (pat_segs pat)) = length (filter (\<lambda>c. c = CHR ''/'') p)))"

datatype 'h routed = Handled 'h "string list" | Moved string | Wrong_method "string list" | No_route

text \<open>\<open>matchingMethods\<close>, sorted.\<close>

definition allowed_methods :: "'h pattern list \<Rightarrow> string \<Rightarrow> string list" where
  "allowed_methods ps p =
    (let fits = (\<lambda>m. match_method ps (Some m) p \<noteq> None \<or> (last p \<noteq> CHR ''/'' \<and> match_method ps (Some m) (p @ ''/'') \<noteq> None));
         ms = filter fits (List.map_filter pat_method ps)
     in sort (remdups (if ''GET'' \<in> set ms then ''HEAD'' # ms else ms)))"

text \<open>\<open>findHandler\<close>, for requests other than CONNECT: \<open>p0\<close> is the escaped path of the request and \<open>p1\<close> its path.
  A redirect carries the path it leads to.\<close>

definition find_handler :: "'h pattern list \<Rightarrow> string \<Rightarrow> string \<Rightarrow> string \<Rightarrow> 'h routed" where
  "find_handler ps m p0 p1 =
    (let p = clean_path p0; x = mux_match ps m p in
     if \<not> exact_match x p \<and> last p \<noteq> CHR ''/'' \<and> exact_match (mux_match ps m (p @ ''/'')) (p @ ''/'')
     then Moved (clean_path p1 @ ''/'')
     else if p \<noteq> p0 then Moved p
     else (case x of
       Some (pat, found) \<Rightarrow> Handled (pat_handler pat) found
     | None \<Rightarrow> if allowed_methods ps p \<noteq> [] then Wrong_method (allowed_methods ps p) else No_route))"

section \<open>Cookies of a request\<close>

definition trim_ascii :: "string \<Rightarrow> string" where
  "trim_ascii s = rev (dropWhile json_space (rev (dropWhile json_space s)))"

definition cookie_byte :: "char \<Rightarrow> bool" where
  "cookie_byte c \<longleftrightarrow> 32 \<le> byte_val c \<and> byte_val c < 127 \<and> c \<noteq> CHR 0x22 \<and> c \<noteq> CHR '';'' \<and> c \<noteq> CHR 0x5C"

definition cookie_value :: "string \<Rightarrow> string option" where
  "cookie_value raw =
    (let v = (if 1 < length raw \<and> hd raw = CHR 0x22 \<and> last raw = CHR 0x22 then butlast (tl raw) else raw)
     in if list_all cookie_byte v then Some v else None)"

definition cookie_part :: "string \<Rightarrow> string \<Rightarrow> string option" where
  "cookie_part name part =
    (let q = trim_ascii part in
     if trim_ascii (before (CHR ''='') q) = name then cookie_value (after (CHR ''='') q) else None)"

text \<open>\<open>r.Cookie(name)\<close> over the Cookie headers of the request, for a name that is a token.\<close>

definition request_cookie :: "string \<Rightarrow> string list \<Rightarrow> string option" where
  "request_cookie name lines =
    (case concat (map (\<lambda>l. List.map_filter (cookie_part name) (split (CHR '';'') (trim_ascii l))) lines) of
       [] \<Rightarrow> None | v # _ \<Rightarrow> Some v)"

end
