(* ===== verification/Go_Config.thy ===== *)
theory Go_Config
  imports Go_Http Go_Float
begin

text \<open>
  What the configuration uses of Go's standard library beyond the other theories: \<open>strconv.ParseBool\<close>,
  \<open>time.ParseDuration\<close> and \<open>Duration.String\<close>, and the parts of \<open>url.Parse\<close> that it looks at.
\<close>

definition ParseBool :: "string \<Rightarrow> bool option" where
  "ParseBool s =
    (if s \<in> {''1'', ''t'', ''T'', ''true'', ''TRUE'', ''True''} then Some True
     else if s \<in> {''0'', ''f'', ''F'', ''false'', ''FALSE'', ''False''} then Some False else None)"

definition FormatBool :: "bool \<Rightarrow> string" where
  "FormatBool b = (if b then ''true'' else ''false'')"

section \<open>Durations\<close>

definition duration_unit :: "string \<Rightarrow> int option" where
  "duration_unit u =
    (if u = ''ns'' then Some Nanosecond
     else if u = ''us'' \<or> u = [char_of (194 :: nat), char_of (181 :: nat), CHR ''s''] \<or> u = [char_of (206 :: nat), char_of (188 :: nat), CHR ''s'']
     then Some Microsecond
     else if u = ''ms'' then Some Millisecond else if u = ''s'' then Some Second
     else if u = ''m'' then Some Minute else if u = ''h'' then Some Hour else None)"

text \<open>\<open>leadingInt\<close>; \<open>None\<close> for an overflow.\<close>

fun leading_int :: "int \<Rightarrow> string \<Rightarrow> (int \<times> string) option" where
  "leading_int x [] = Some (x, [])"
| "leading_int x (c # s) =
    (if \<not> is_digit c then Some (x, c # s)
     else if x > 2 ^ 63 div 10 then None
     else (let y = x * 10 + (int (byte_val c) - 48) in if y > 2 ^ 63 then None else leading_int y s))"

text \<open>\<open>leadingFraction\<close>: digits beyond the precision are skipped.\<close>

fun leading_fraction :: "bool \<Rightarrow> int \<Rightarrow> nat \<Rightarrow> string \<Rightarrow> int \<times> nat \<times> string" where
  "leading_fraction over x k [] = (x, k, [])"
| "leading_fraction over x k (c # s) =
    (if \<not> is_digit c then (x, k, c # s)
     else if over \<or> x > (2 ^ 63 - 1) div 10 \<or> x * 10 + (int (byte_val c) - 48) > 2 ^ 63 then leading_fraction True x k s
     else leading_fraction False (x * 10 + (int (byte_val c) - 48)) (Suc k) s)"

text \<open>One number with its unit: its nanoseconds and the rest.\<close>

definition duration_part :: "string \<Rightarrow> (int \<times> string) option" where
  "duration_part s =
    (case leading_int 0 s of
       None \<Rightarrow> None
     | Some (v, s1) \<Rightarrow>
       (let pre = (length s1 \<noteq> length s);
            dot = (s1 \<noteq> [] \<and> hd s1 = CHR ''.'');
            (f, k, s2) = (if dot then leading_fraction False 0 0 (tl s1) else (0, 0, s1));
            post = (dot \<and> length s2 \<noteq> length (tl s1));
            u = takeWhile (\<lambda>c. c \<noteq> CHR ''.'' \<and> \<not> is_digit c) s2
        in if \<not> pre \<and> \<not> post then None
           else (case duration_unit u of
              None \<Rightarrow> None
            | Some unit \<Rightarrow>
              if v > 2 ^ 63 div unit then None
              else (let n = v * unit + (if f > 0 then \<lfloor>float_round (float_round (of_int f) * float_round (of_int unit / 10 ^ k))\<rfloor> else 0)
                in if n > 2 ^ 63 then None else Some (n, drop (length u) s2)))))"

text \<open>The loop; every round takes a byte.\<close>

fun duration_parts :: "nat \<Rightarrow> int \<Rightarrow> string \<Rightarrow> int option" where
  "duration_parts 0 d s = (if s = [] then Some d else None)"
| "duration_parts (Suc n) d s =
    (if s = [] then Some d
     else case duration_part s of
       None \<Rightarrow> None
     | Some (v, r) \<Rightarrow> if d + v > 2 ^ 63 then None else duration_parts n (d + v) r)"

definition ParseDuration :: "string \<Rightarrow> duration option" where
  "ParseDuration s =
    (let neg = (s \<noteq> [] \<and> hd s = CHR ''-''); t = (if s \<noteq> [] \<and> (hd s = CHR ''-'' \<or> hd s = CHR ''+'') then tl s else s) in
     if t = ''0'' then Some 0 else if t = [] then None
     else (case duration_parts (length t) 0 t of
       None \<Rightarrow> None
     | Some d \<Rightarrow> if neg then Some (- d) else if d > 2 ^ 63 - 1 then None else Some d))"

text \<open>\<open>Duration.String\<close> of a positive number of whole seconds.\<close>

definition seconds_text :: "duration \<Rightarrow> string" where
  "seconds_text d =
    (let n = d div Second in
     (if n < 3600 then [] else itoa (n div 3600) @ ''h'') @ (if n < 60 then [] else itoa (n div 60 mod 60) @ ''m'') @ itoa (n mod 60) @ ''s'')"

section \<open>URLs\<close>

record url =
  u_Scheme :: string
  u_User :: bool
  u_Host :: string
  u_Path :: string
  u_RawQuery :: string
  u_Fragment :: string

definition letter :: "char \<Rightarrow> bool" where
  "letter c \<longleftrightarrow> 65 \<le> byte_val c \<and> byte_val c \<le> 90 \<or> 97 \<le> byte_val c \<and> byte_val c \<le> 122"

text \<open>\<open>getScheme\<close>; \<open>None\<close> for an error.\<close>

definition get_scheme :: "string \<Rightarrow> (string \<times> string) option" where
  "get_scheme s =
    (let name = takeWhile (\<lambda>c. letter c \<or> is_digit c \<or> c \<in> set ''+-.'') s; rest = drop (length name) s in
     if rest \<noteq> [] \<and> hd rest = CHR '':'' then
       (if name = [] then None else if letter (hd name) then Some (name, tl rest) else Some ([], s))
     else Some ([], s))"

definition host_char :: "char \<Rightarrow> bool" where
  "host_char c \<longleftrightarrow> url_plain c \<or> c \<in> set ''!$&()*+,;=:[]<>'' \<or> c = CHR 0x22 \<or> c = CHR 0x27"

text \<open>\<open>unescape\<close> of a host, or of a zone: in a host an escape of a byte below 128 is refused, but for the percent sign,
  in a zone an escape of a byte that a host cannot hold, but for the percent sign and the space; and so
  is any byte below 128 that a host cannot hold.\<close>

fun unescape_host :: "bool \<Rightarrow> string \<Rightarrow> string option" where
  "unescape_host iz [] = Some []"
| "unescape_host iz (c # s) =
    (if c = CHR ''%'' then
       (case s of
          a # b # r \<Rightarrow>
            (case (from_hex a, from_hex b) of
               (Some x, Some y) \<Rightarrow>
                 if \<not> iz \<and> x < 8 \<and> \<not> (a = CHR ''2'' \<and> b = CHR ''5'') then None
                 else if iz \<and> \<not> (a = CHR ''2'' \<and> b = CHR ''5'') \<and> 16 * x + y \<noteq> 32 \<and> \<not> host_char (char_of (16 * x + y)) then None
                 else map_option ((#) (char_of (16 * x + y))) (unescape_host iz r)
             | _ \<Rightarrow> None)
        | _ \<Rightarrow> None)
     else if byte_val c < 128 \<and> \<not> host_char c then None
     else map_option ((#) c) (unescape_host iz s))"

definition optional_port :: "string \<Rightarrow> bool" where
  "optional_port p \<longleftrightarrow> p = [] \<or> (hd p = CHR '':'' \<and> list_all is_digit (tl p))"

text \<open>The text before the zone of a bracketed address, and the zone with its \<open>%25\<close>.\<close>

fun cut_zone :: "string \<Rightarrow> string \<times> string" where
  "cut_zone [] = ([], [])"
| "cut_zone (c # s) = (if has_prefix (c # s) ''%25'' then ([], c # s) else apfst ((#) c) (cut_zone s))"

definition parse_host :: "string \<Rightarrow> string option" where
  "parse_host h =
    (if h \<noteq> [] \<and> hd h = CHR ''['' then
       (case cut_last (CHR '']'') h of
          None \<Rightarrow> None
        | Some (inside, port) \<Rightarrow>
          if \<not> optional_port port then None
          else (let (addr, zone) = cut_zone inside in
            Option.bind (unescape_host False addr) (\<lambda>x.
            Option.bind (unescape_host True zone) (\<lambda>y.
            map_option (\<lambda>z. x @ y @ z) (unescape_host False (CHR '']'' # port))))))
     else (case cut_last (CHR '':'') h of
       None \<Rightarrow> unescape_host False h
     | Some (_, port) \<Rightarrow> if list_all is_digit port then unescape_host False h else None))"

text \<open>A user part, whatever it holds, is only told from none.\<close>

definition parse_authority :: "string \<Rightarrow> (bool \<times> string) option" where
  "parse_authority a =
    (case cut_last (CHR ''@'') a of
       None \<Rightarrow> map_option (Pair False) (parse_host a)
     | Some (_, h) \<Rightarrow> map_option (Pair True) (parse_host h))"

definition ParseURL :: "string \<Rightarrow> url option" where
  "ParseURL raw =
    (let u = before (CHR ''#'') raw; frag = after (CHR ''#'') raw in
     if \<not> list_all (\<lambda>c. 32 \<le> byte_val c \<and> byte_val c \<noteq> 127) u then None
     else (case (get_scheme u, url_unescape False frag) of
       (Some (scheme, rest0), Some fragment) \<Rightarrow>
         (let force = (has_suffix rest0 ''?'' \<and> length (filter (\<lambda>c. c = CHR ''?'') rest0) = 1);
              query = (if force then [] else after (CHR ''?'') rest0);
              rest = before (CHR ''?'') rest0;
              blank = \<lparr>u_Scheme = to_lower scheme, u_User = False, u_Host = [], u_Path = [], u_RawQuery = query, u_Fragment = fragment\<rparr>
          in if \<not> has_prefix rest ''/'' \<and> scheme \<noteq> [] then Some blank
             else if \<not> has_prefix rest ''/'' \<and> CHR '':'' \<in> set (before (CHR ''/'') rest) then None
             else if (scheme \<noteq> [] \<or> \<not> has_prefix rest ''///'') \<and> has_prefix rest ''//'' then
               (let auth = before (CHR ''/'') (drop 2 rest); tail = drop (length auth + 2) rest in
                case (parse_authority auth, url_unescape False tail) of
                  (Some (user, host), Some path) \<Rightarrow> Some (blank\<lparr>u_User := user, u_Host := host, u_Path := path\<rparr>)
                | _ \<Rightarrow> None)
             else (case url_unescape False rest of None \<Rightarrow> None | Some path \<Rightarrow> Some (blank\<lparr>u_Path := path\<rparr>)))
     | _ \<Rightarrow> None))"

end
