(* ===== verification/Config.thy ===== *)
theory Config
  imports Go_Config
begin

text \<open>
  internal/config/config.go: the configuration, the readers of environment variables and \<open>Load\<close>. The
  environment is \<open>os.Getenv\<close>, with no text for a variable that is not set. The order in which Go
  walks the map of the durations is an argument. Of an error for a value that does not parse, only
  the variable is kept.
\<close>

section \<open>The configuration\<close>

datatype log_level = LevelDebug | LevelInfo | LevelWarn | LevelError

record config =
  HTTPAddr :: string
  DatabaseURL :: string
  RedisAddr :: string
  RedisPassword :: string
  RedisDB :: int
  AdminToken :: string
  CookieSigningKey :: "byte list"
  DedupHMACKey :: "byte list"
  CookieSecure :: bool
  VoteBuckets :: int
  RedisRetention :: duration
  MaxRedisTTL :: duration
  PollCacheTTL :: duration
  SnapshotInterval :: duration
  VoteRequestTimeout :: duration
  TrustProxyHeaders :: bool
  TrustedProxies :: "ip_net list"
  LogLevel :: log_level
  ShutdownTimeout :: duration
  RateLimitPerMinute :: int
  PublicBaseURL :: string

type_synonym environ = "string \<Rightarrow> string"

datatype config_error = Unparsable string | Refused string

section \<open>Environment variables\<close>

definition env :: "environ \<Rightarrow> string \<Rightarrow> string \<Rightarrow> string" where
  "env E k fallback = (if E k \<noteq> [] then E k else fallback)"

definition or_unparsable :: "string \<Rightarrow> 'a option \<Rightarrow> config_error + 'a" where
  "or_unparsable k x = (case x of None \<Rightarrow> Inl (Unparsable k) | Some y \<Rightarrow> Inr y)"

definition intEnv :: "environ \<Rightarrow> string \<Rightarrow> int \<Rightarrow> config_error + int" where
  "intEnv E k fallback = or_unparsable k (parse_int64 (env E k (itoa fallback)))"

definition int64Env :: "environ \<Rightarrow> string \<Rightarrow> int \<Rightarrow> config_error + int" where
  "int64Env E k fallback = or_unparsable k (parse_int64 (env E k (itoa fallback)))"

definition boolEnv :: "environ \<Rightarrow> string \<Rightarrow> bool \<Rightarrow> config_error + bool" where
  "boolEnv E k fallback = or_unparsable k (ParseBool (env E k (FormatBool fallback)))"

definition durationEnv :: "environ \<Rightarrow> string \<Rightarrow> duration \<Rightarrow> config_error + duration" where
  "durationEnv E k fallback = or_unparsable k (ParseDuration (env E k (seconds_text fallback)))"

section \<open>Load\<close>

definition trim_slashes :: "string \<Rightarrow> string" where
  "trim_slashes s = rev (dropWhile (\<lambda>c. c = CHR ''/'') (rev s))"

definition initial_config :: "environ \<Rightarrow> config" where
  "initial_config E = \<lparr>
     HTTPAddr = env E ''HTTP_ADDR'' '':8080'', DatabaseURL = E ''DATABASE_URL'',
     RedisAddr = env E ''REDIS_ADDR'' ''localhost:6379'', RedisPassword = E ''REDIS_PASSWORD'', RedisDB = 0,
     AdminToken = E ''ADMIN_TOKEN'', CookieSigningKey = bytes_of (E ''COOKIE_SIGNING_KEY''),
     DedupHMACKey = bytes_of (E ''DEDUP_HMAC_KEY''), CookieSecure = False, VoteBuckets = 64, RedisRetention = 24 * Hour,
     MaxRedisTTL = 30 * 24 * Hour, PollCacheTTL = 30 * Second,
     SnapshotInterval = 5 * Second, VoteRequestTimeout = 2 * Second,
     TrustProxyHeaders = False, TrustedProxies = [], LogLevel = LevelInfo, ShutdownTimeout = 15 * Second, RateLimitPerMinute = 120,
     PublicBaseURL = trim_slashes (env E ''PUBLIC_BASE_URL'' ''http://localhost:8080'')\<rparr>"

text \<open>The loop over TRUSTED_PROXY_CIDRS.\<close>

fun parse_proxies :: "string list \<Rightarrow> config_error + ip_net list" where
  "parse_proxies [] = Inr []"
| "parse_proxies (raw # rest) =
     (let t = trim_space raw in
      if t = [] then parse_proxies rest
      else case ParseCIDR t of
        None \<Rightarrow> Inl (Unparsable ''TRUSTED_PROXY_CIDRS'')
      | Some network \<Rightarrow> map_sum id ((#) network) (parse_proxies rest))"

definition trusted_proxies :: "environ \<Rightarrow> config_error + ip_net list" where
  "trusted_proxies E =
     (case parse_proxies (split (CHR '','') (E ''TRUSTED_PROXY_CIDRS'')) of
        Inl e \<Rightarrow> Inl e
      | Inr [] \<Rightarrow> Inl (Refused ''TRUSTED_PROXY_CIDRS is required when TRUST_PROXY_HEADERS=true'')
      | Inr ns \<Rightarrow> Inr ns)"

text \<open>The map of the durations: its keys and what they point to.\<close>

definition duration_keys :: "string list" where
  "duration_keys = [''REDIS_RETENTION'', ''MAX_REDIS_TTL'', ''POLL_CACHE_TTL'', ''SNAPSHOT_INTERVAL'', ''VOTE_REQUEST_TIMEOUT'', ''SHUTDOWN_TIMEOUT'']"

definition get_duration :: "string \<Rightarrow> config \<Rightarrow> duration" where
  "get_duration k c =
     (if k = ''REDIS_RETENTION'' then RedisRetention c else if k = ''MAX_REDIS_TTL'' then MaxRedisTTL c
      else if k = ''POLL_CACHE_TTL'' then PollCacheTTL c else if k = ''SNAPSHOT_INTERVAL'' then SnapshotInterval c
      else if k = ''VOTE_REQUEST_TIMEOUT'' then VoteRequestTimeout c else ShutdownTimeout c)"

definition set_duration :: "string \<Rightarrow> duration \<Rightarrow> config \<Rightarrow> config" where
  "set_duration k d c =
     (if k = ''REDIS_RETENTION'' then c\<lparr>RedisRetention := d\<rparr> else if k = ''MAX_REDIS_TTL'' then c\<lparr>MaxRedisTTL := d\<rparr>
      else if k = ''POLL_CACHE_TTL'' then c\<lparr>PollCacheTTL := d\<rparr> else if k = ''SNAPSHOT_INTERVAL'' then c\<lparr>SnapshotInterval := d\<rparr>
      else if k = ''VOTE_REQUEST_TIMEOUT'' then c\<lparr>VoteRequestTimeout := d\<rparr> else c\<lparr>ShutdownTimeout := d\<rparr>)"

fun load_durations :: "environ \<Rightarrow> string list \<Rightarrow> config \<Rightarrow> config_error + config" where
  "load_durations E [] c = Inr c"
| "load_durations E (k # ks) c =
     (case durationEnv E k (get_duration k c) of
        Inl e \<Rightarrow> Inl e
      | Inr d \<Rightarrow> load_durations E ks (set_duration k d c))"

definition log_level_of :: "string \<Rightarrow> config_error + log_level" where
  "log_level_of s =
     (let l = to_lower s in
      if l = ''debug'' then Inr LevelDebug else if l = ''info'' then Inr LevelInfo else if l = ''warn'' then Inr LevelWarn
      else if l = ''error'' then Inr LevelError else Inl (Refused ''LOG_LEVEL must be debug, info, warn, or error''))"

text \<open>The checks of the loaded values.\<close>

definition origin_ok :: "url \<Rightarrow> bool" where
  "origin_ok u \<longleftrightarrow> u_Host u \<noteq> [] \<and> (u_Scheme u = ''http'' \<or> u_Scheme u = ''https'') \<and> \<not> u_User u \<and>
     (u_Path u = [] \<or> u_Path u = ''/'') \<and> u_RawQuery u = [] \<and> u_Fragment u = []"

definition check_config :: "config \<Rightarrow> config_error option" where
  "check_config c =
     (if DatabaseURL c = [] then Some (Refused ''DATABASE_URL is required'')
      else if length (AdminToken c) < 16 then Some (Refused ''ADMIN_TOKEN must contain at least 16 bytes'')
      else if length (CookieSigningKey c) < 32 \<or> length (DedupHMACKey c) < 32
      then Some (Refused ''COOKIE_SIGNING_KEY and DEDUP_HMAC_KEY must contain at least 32 bytes'')
      else if CookieSigningKey c = DedupHMACKey c then Some (Refused ''signing and dedup keys must differ'')
      else if VoteBuckets c < 1 \<or> VoteBuckets c > 4096 then Some (Refused ''VOTE_BUCKETS must be between 1 and 4096'')
      else if RedisRetention c \<le> 0 \<or> MaxRedisTTL c \<le> 0 \<or> PollCacheTTL c \<le> 0 \<or> VoteRequestTimeout c \<le> 0
      then Some (Refused ''durations must be positive'')
      else if RateLimitPerMinute c < 1 then Some (Refused ''RATE_LIMIT_PER_MINUTE must be positive'')
      else (case ParseURL (PublicBaseURL c) of
        None \<Rightarrow> Some (Refused ''PUBLIC_BASE_URL must be an absolute http(s) origin without credentials, path, query, or fragment'')
      | Some u \<Rightarrow>
        if \<not> origin_ok u then Some (Refused ''PUBLIC_BASE_URL must be an absolute http(s) origin without credentials, path, query, or fragment'')
        else if CookieSecure c \<and> u_Scheme u \<noteq> ''https'' then Some (Refused ''PUBLIC_BASE_URL must use https when COOKIE_SECURE=true'')
        else None))"

definition bind_sum :: "'e + 'a \<Rightarrow> ('a \<Rightarrow> 'e + 'b) \<Rightarrow> 'e + 'b" where
  "bind_sum x f = (case x of Inl e \<Rightarrow> Inl e | Inr y \<Rightarrow> f y)"

definition Load :: "environ \<Rightarrow> string list \<Rightarrow> config_error + config" where
  "Load E order =
     bind_sum (intEnv E ''REDIS_DB'' 0) (\<lambda>db.
     bind_sum (intEnv E ''VOTE_BUCKETS'' 64) (\<lambda>n.
     bind_sum (int64Env E ''RATE_LIMIT_PER_MINUTE'' 120) (\<lambda>rate.
     bind_sum (boolEnv E ''COOKIE_SECURE'' False) (\<lambda>secure.
     bind_sum (boolEnv E ''TRUST_PROXY_HEADERS'' False) (\<lambda>trust.
     bind_sum (if trust then trusted_proxies E else Inr []) (\<lambda>proxies.
     bind_sum (load_durations E order ((initial_config E)
       \<lparr>RedisDB := db, VoteBuckets := n, RateLimitPerMinute := rate, CookieSecure := secure,
        TrustProxyHeaders := trust, TrustedProxies := proxies\<rparr>)) (\<lambda>c.
     bind_sum (log_level_of (env E ''LOG_LEVEL'' ''info'')) (\<lambda>level.
     let c' = c\<lparr>LogLevel := level\<rparr> in (case check_config c' of Some e \<Rightarrow> Inl e | None \<Rightarrow> Inr c')))))))))"

section \<open>The durations\<close>

lemma bind_sum_Inr [simp]: "bind_sum x f = Inr z \<longleftrightarrow> (\<exists>y. x = Inr y \<and> f y = Inr z)"
  by (cases x) (simp_all add: bind_sum_def)

lemma or_unparsable_Inr [simp]: "or_unparsable k x = Inr y \<longleftrightarrow> x = Some y"
  by (cases x) (simp_all add: or_unparsable_def)

text \<open>A configuration without its durations.\<close>

definition timeless :: "config \<Rightarrow> config" where
  "timeless c = c\<lparr>RedisRetention := 0, MaxRedisTTL := 0, PollCacheTTL := 0, SnapshotInterval := 0, VoteRequestTimeout := 0, ShutdownTimeout := 0\<rparr>"

lemma config_eqI:
  assumes "timeless c = timeless c'" and "\<And>k. k \<in> set duration_keys \<Longrightarrow> get_duration k c = get_duration k c'"
  shows "c = c'"
  using assms(1) assms(2) [of "''REDIS_RETENTION''"] assms(2) [of "''MAX_REDIS_TTL''"] assms(2) [of "''POLL_CACHE_TTL''"]
    assms(2) [of "''SNAPSHOT_INTERVAL''"] assms(2) [of "''VOTE_REQUEST_TIMEOUT''"] assms(2) [of "''SHUTDOWN_TIMEOUT''"]
  by (cases c; cases c') (simp add: duration_keys_def get_duration_def timeless_def)

lemma get_set_duration:
  assumes "k \<in> set duration_keys" and "k' \<in> set duration_keys"
  shows "get_duration k' (set_duration k d c) = (if k' = k then d else get_duration k' c)"
  using assms by (auto simp: duration_keys_def get_duration_def set_duration_def)

lemma timeless_set_duration [simp]: "timeless (set_duration k d c) = timeless c"
  by (simp add: timeless_def set_duration_def)

text \<open>What the loop leaves in a field.\<close>

lemma load_durations_Inr:
  assumes "load_durations E ks c = Inr c'" and "distinct ks" and "set ks \<subseteq> set duration_keys"
  shows "timeless c' = timeless c \<and> (\<forall>k\<in>set duration_keys.
    if k \<in> set ks then durationEnv E k (get_duration k c) = Inr (get_duration k c') else get_duration k c' = get_duration k c)"
  using assms
proof (induction ks arbitrary: c)
  case (Cons k ks)
  from Cons.prems(1) obtain d where d: "durationEnv E k (get_duration k c) = Inr d" "load_durations E ks (set_duration k d c) = Inr c'"
    by (auto split: sum.splits)
  have k: "k \<in> set duration_keys" "k \<notin> set ks" "distinct ks" "set ks \<subseteq> set duration_keys" using Cons.prems by auto
  note IH = Cons.IH [OF d(2) k(3,4)]
  have "if j \<in> set (k # ks) then durationEnv E j (get_duration j c) = Inr (get_duration j c') else get_duration j c' = get_duration j c"
    if j: "j \<in> set duration_keys" for j
  proof (cases "j = k")
    case True
    then show ?thesis using IH j d(1) k(2) by (simp add: get_set_duration)
  next
    case False
    then have "get_duration j (set_duration k d c) = get_duration j c" using get_set_duration [OF k(1) j] by simp
    then show ?thesis using IH j False by (cases "j \<in> set ks") (auto split: if_splits)
  qed
  then show ?case using IH by simp
qed simp

lemma load_durations_total:
  assumes "\<And>k. k \<in> set ks \<Longrightarrow> \<exists>d. durationEnv E k (get_duration k c) = Inr d" and "distinct ks" and "set ks \<subseteq> set duration_keys"
  shows "\<exists>c'. load_durations E ks c = Inr c'"
  using assms
proof (induction ks arbitrary: c)
  case (Cons k ks)
  obtain d where d: "durationEnv E k (get_duration k c) = Inr d" using Cons.prems(1) [of k] by auto
  have "durationEnv E k' (get_duration k' (set_duration k d c)) = durationEnv E k' (get_duration k' c)" if "k' \<in> set ks" for k'
  proof -
    have "k \<in> set duration_keys" "k' \<in> set duration_keys" "k' \<noteq> k" using that Cons.prems(2,3) by auto
    then show ?thesis by (simp add: get_set_duration)
  qed
  then have "\<exists>c'. load_durations E ks (set_duration k d c) = Inr c'"
    using Cons.prems by (intro Cons.IH) auto
  with d show ?case by simp
qed simp

lemma load_durations_eqI:
  assumes "load_durations E ks c = Inr c'" and "distinct ks" and "set ks = set duration_keys"
    and "timeless c'' = timeless c" and "\<And>k. k \<in> set duration_keys \<Longrightarrow> durationEnv E k (get_duration k c) = Inr (get_duration k c'')"
  shows "c' = c''"
proof (rule config_eqI)
  note all = load_durations_Inr [OF assms(1,2)]
  show "timeless c' = timeless c''" using all assms(3,4) by simp
  fix k
  assume k: "k \<in> set duration_keys"
  then have "durationEnv E k (get_duration k c) = Inr (get_duration k c')" using all assms(3) by simp
  with assms(5) [OF k] show "get_duration k c' = get_duration k c''" by simp
qed

text \<open>The order of the map decides at most which error is reported.\<close>

lemma load_durations_order:
  assumes "load_durations E ks c = Inr c'" and "distinct ks" and "set ks = set duration_keys"
    and "distinct ks'" and "set ks' = set duration_keys"
  shows "load_durations E ks' c = Inr c'"
proof -
  note one = load_durations_Inr [OF assms(1,2)]
  have "\<exists>c''. load_durations E ks' c = Inr c''"
    using one assms(3-5) by (intro load_durations_total) auto
  then obtain c'' where c'': "load_durations E ks' c = Inr c''" by blast
  have "c'' = c'"
    using one assms(3,5) by (intro load_durations_eqI [OF c'' assms(4,5)]) simp_all
  with c'' show ?thesis by simp
qed

section \<open>Claims\<close>

definition key_order :: "string list \<Rightarrow> bool" where
  "key_order ks \<longleftrightarrow> distinct ks \<and> set ks = set duration_keys"

text \<open>A configuration as the rest of the program relies on it.\<close>

definition safe_config :: "config \<Rightarrow> bool" where
  "safe_config c \<longleftrightarrow> DatabaseURL c \<noteq> [] \<and> 16 \<le> length (AdminToken c) \<and>
     32 \<le> length (CookieSigningKey c) \<and> 32 \<le> length (DedupHMACKey c) \<and> CookieSigningKey c \<noteq> DedupHMACKey c \<and>
     1 \<le> VoteBuckets c \<and> VoteBuckets c \<le> 4096 \<and>
     0 < RedisRetention c \<and> 0 < MaxRedisTTL c \<and> 0 < PollCacheTTL c \<and> 0 < VoteRequestTimeout c \<and> 1 \<le> RateLimitPerMinute c \<and>
     (TrustedProxies c \<noteq> [] \<longleftrightarrow> TrustProxyHeaders c) \<and>
     (\<exists>u. ParseURL (PublicBaseURL c) = Some u \<and> origin_ok u \<and> (CookieSecure c \<longrightarrow> u_Scheme u = ''https''))"

lemma if_Some_None: "(if b then Some e else x) = None \<longleftrightarrow> \<not> b \<and> x = None"
  by simp

lemma check_config_None:
  assumes "check_config c = None"
  shows "DatabaseURL c \<noteq> [] \<and> 16 \<le> length (AdminToken c) \<and>
     32 \<le> length (CookieSigningKey c) \<and> 32 \<le> length (DedupHMACKey c) \<and> CookieSigningKey c \<noteq> DedupHMACKey c \<and>
     1 \<le> VoteBuckets c \<and> VoteBuckets c \<le> 4096 \<and>
     0 < RedisRetention c \<and> 0 < MaxRedisTTL c \<and> 0 < PollCacheTTL c \<and> 0 < VoteRequestTimeout c \<and> 1 \<le> RateLimitPerMinute c"
    and "\<exists>u. ParseURL (PublicBaseURL c) = Some u \<and> origin_ok u \<and> (CookieSecure c \<longrightarrow> u_Scheme u = ''https'')"
proof -
  note facts = assms [unfolded check_config_def if_Some_None not_less not_le de_Morgan_disj]
  from facts show "DatabaseURL c \<noteq> [] \<and> 16 \<le> length (AdminToken c) \<and>
     32 \<le> length (CookieSigningKey c) \<and> 32 \<le> length (DedupHMACKey c) \<and> CookieSigningKey c \<noteq> DedupHMACKey c \<and>
     1 \<le> VoteBuckets c \<and> VoteBuckets c \<le> 4096 \<and>
     0 < RedisRetention c \<and> 0 < MaxRedisTTL c \<and> 0 < PollCacheTTL c \<and> 0 < VoteRequestTimeout c \<and> 1 \<le> RateLimitPerMinute c"
    by (elim conjE) (intro conjI)
  from facts obtain u where u: "ParseURL (PublicBaseURL c) = Some u"
    by (cases "ParseURL (PublicBaseURL c)") simp_all
  from facts have "origin_ok u \<and> \<not> (CookieSecure c \<and> u_Scheme u \<noteq> ''https'')"
    unfolding u option.case if_Some_None not_not by (elim conjE) (intro conjI)
  with u show "\<exists>u. ParseURL (PublicBaseURL c) = Some u \<and> origin_ok u \<and> (CookieSecure c \<longrightarrow> u_Scheme u = ''https'')" by blast
qed

lemma trusted_proxies_Inr: "trusted_proxies E = Inr ns \<Longrightarrow> ns \<noteq> []"
  by (auto simp: trusted_proxies_def split: sum.splits list.splits)

lemma Load_parts:
  assumes "Load E ks = Inr c"
  obtains db n rate secure trust proxies c1 level where
    "intEnv E ''REDIS_DB'' 0 = Inr db" "intEnv E ''VOTE_BUCKETS'' 64 = Inr n" "int64Env E ''RATE_LIMIT_PER_MINUTE'' 120 = Inr rate"
    "boolEnv E ''COOKIE_SECURE'' False = Inr secure" "boolEnv E ''TRUST_PROXY_HEADERS'' False = Inr trust"
    "(if trust then trusted_proxies E else Inr []) = Inr proxies" "proxies \<noteq> [] \<longleftrightarrow> trust"
    "load_durations E ks ((initial_config E)\<lparr>RedisDB := db, VoteBuckets := n, RateLimitPerMinute := rate, CookieSecure := secure,
        TrustProxyHeaders := trust, TrustedProxies := proxies\<rparr>) = Inr c1"
    "log_level_of (env E ''LOG_LEVEL'' ''info'') = Inr level" "c = c1\<lparr>LogLevel := level\<rparr>" "check_config c = None"
  using assms trusted_proxies_Inr by (auto simp: Load_def Let_def simp del: not_None_eq split: option.splits if_splits)

lemma Load_intro:
  assumes "intEnv E ''REDIS_DB'' 0 = Inr db" and "intEnv E ''VOTE_BUCKETS'' 64 = Inr n" and "int64Env E ''RATE_LIMIT_PER_MINUTE'' 120 = Inr rate"
    and "boolEnv E ''COOKIE_SECURE'' False = Inr secure" and "boolEnv E ''TRUST_PROXY_HEADERS'' False = Inr trust"
    and "(if trust then trusted_proxies E else Inr []) = Inr proxies"
    and "load_durations E ks ((initial_config E)\<lparr>RedisDB := db, VoteBuckets := n, RateLimitPerMinute := rate, CookieSecure := secure,
        TrustProxyHeaders := trust, TrustedProxies := proxies\<rparr>) = Inr c1"
    and "log_level_of (env E ''LOG_LEVEL'' ''info'') = Inr level" and "check_config (c1\<lparr>LogLevel := level\<rparr>) = None"
  shows "Load E ks = Inr (c1\<lparr>LogLevel := level\<rparr>)"
  unfolding Load_def bind_sum_def by (simp only: assms sum.case Let_def option.case)

lemma Load_accepts:
  assumes "Load E ks = Inr c" and "key_order ks" and "key_order ks'"
  shows "safe_config c \<and> Load E ks' = Inr c \<and>
    DatabaseURL c = E ''DATABASE_URL'' \<and> AdminToken c = E ''ADMIN_TOKEN'' \<and> CookieSigningKey c = bytes_of (E ''COOKIE_SIGNING_KEY'') \<and>
    DedupHMACKey c = bytes_of (E ''DEDUP_HMAC_KEY'') \<and> PublicBaseURL c = trim_slashes (env E ''PUBLIC_BASE_URL'' ''http://localhost:8080'') \<and>
    (\<forall>k\<in>set duration_keys. durationEnv E k (get_duration k (initial_config E)) = Inr (get_duration k c))"
proof -
  from assms(1) obtain db n rate secure trust proxies c1 level where
    L: "intEnv E ''REDIS_DB'' 0 = Inr db" "intEnv E ''VOTE_BUCKETS'' 64 = Inr n" "int64Env E ''RATE_LIMIT_PER_MINUTE'' 120 = Inr rate"
    "boolEnv E ''COOKIE_SECURE'' False = Inr secure" "boolEnv E ''TRUST_PROXY_HEADERS'' False = Inr trust"
    "(if trust then trusted_proxies E else Inr []) = Inr proxies" "proxies \<noteq> [] \<longleftrightarrow> trust"
    and d: "load_durations E ks ((initial_config E)\<lparr>RedisDB := db, VoteBuckets := n, RateLimitPerMinute := rate, CookieSecure := secure,
        TrustProxyHeaders := trust, TrustedProxies := proxies\<rparr>) = Inr c1"
    and l: "log_level_of (env E ''LOG_LEVEL'' ''info'') = Inr level" and c: "c = c1\<lparr>LogLevel := level\<rparr>" and ok: "check_config c = None"
    by (rule Load_parts)
  let ?c0 = "(initial_config E)\<lparr>RedisDB := db, VoteBuckets := n, RateLimitPerMinute := rate, CookieSecure := secure,
        TrustProxyHeaders := trust, TrustedProxies := proxies\<rparr>"
  have ks: "distinct ks" "set ks = set duration_keys" "distinct ks'" "set ks' = set duration_keys"
    using assms(2,3) by (simp_all add: key_order_def)
  have "load_durations E ks' ?c0 = Inr c1" using load_durations_order [OF d ks] .
  then have "Load E ks' = Inr c" using Load_intro [OF L(1-6) _ l] ok c by simp
  moreover have t: "timeless c1 = timeless ?c0"
    and durations: "\<forall>k\<in>set duration_keys. durationEnv E k (get_duration k ?c0) = Inr (get_duration k c1)"
    using load_durations_Inr [OF d ks(1)] ks(2) by auto
  have "get_duration k ?c0 = get_duration k (initial_config E)" "get_duration k c = get_duration k c1" for k
    by (simp_all add: get_duration_def c)
  moreover have "timeless c1 = (timeless c1)\<lparr>TrustedProxies := proxies, TrustProxyHeaders := trust, DatabaseURL := E ''DATABASE_URL'',
      AdminToken := E ''ADMIN_TOKEN'', CookieSigningKey := bytes_of (E ''COOKIE_SIGNING_KEY''), DedupHMACKey := bytes_of (E ''DEDUP_HMAC_KEY''),
      PublicBaseURL := trim_slashes (env E ''PUBLIC_BASE_URL'' ''http://localhost:8080'')\<rparr>"
    unfolding t by (simp add: timeless_def initial_config_def)
  then have fields: "TrustedProxies c1 = proxies" "TrustProxyHeaders c1 = trust" "DatabaseURL c1 = E ''DATABASE_URL''"
      "AdminToken c1 = E ''ADMIN_TOKEN''" "CookieSigningKey c1 = bytes_of (E ''COOKIE_SIGNING_KEY'')" "DedupHMACKey c1 = bytes_of (E ''DEDUP_HMAC_KEY'')"
      "PublicBaseURL c1 = trim_slashes (env E ''PUBLIC_BASE_URL'' ''http://localhost:8080'')"
    by (cases c1; simp add: timeless_def)+
  moreover have "safe_config c" using check_config_None [OF ok] L(7) fields unfolding safe_config_def by (simp add: c)
  ultimately show ?thesis using durations by (simp add: c)
qed

lemma Load_safe: "Load E ks = Inr c \<Longrightarrow> key_order ks \<Longrightarrow> safe_config c"
  using Load_accepts by blast

text \<open>C31. A configuration that Load accepts has what the rest of the program relies on (\<open>safe_config\<close>): secrets of
  sufficient length, two different keys, 1 to 4096 vote buckets, positive durations and rate,
  trusted proxies exactly when forwarded headers are trusted, a public origin, and cookies marked
  secure only behind https. Its secrets, address and durations are what the environment says, the
  documented defaults where it says nothing; and the order in which Go walks the map of the
  durations does not matter.\<close>

theorem accepted_configuration_is_safe:
  assumes "Load E ks = Inr c" and "key_order ks" and "key_order ks'"
  shows "safe_config c \<and> Load E ks' = Inr c \<and>
    DatabaseURL c = E ''DATABASE_URL'' \<and> AdminToken c = E ''ADMIN_TOKEN'' \<and> CookieSigningKey c = bytes_of (E ''COOKIE_SIGNING_KEY'') \<and>
    DedupHMACKey c = bytes_of (E ''DEDUP_HMAC_KEY'') \<and> PublicBaseURL c = trim_slashes (env E ''PUBLIC_BASE_URL'' ''http://localhost:8080'') \<and>
    (\<forall>k\<in>set duration_keys. durationEnv E k (get_duration k (initial_config E)) = Inr (get_duration k c))"
  by (rule Load_accepts [OF assms])

lemma default_durations:
  assumes "k \<in> set duration_keys"
  shows "ParseDuration (seconds_text (get_duration k (initial_config E))) = Some (get_duration k (initial_config E))"
proof -
  have "ParseDuration (seconds_text (24 * Hour)) = Some (24 * Hour)" "ParseDuration (seconds_text (30 * 24 * Hour)) = Some (30 * 24 * Hour)"
    "ParseDuration (seconds_text (30 * Second)) = Some (30 * Second)" "ParseDuration (seconds_text (5 * Second)) = Some (5 * Second)"
    "ParseDuration (seconds_text (2 * Second)) = Some (2 * Second)" "ParseDuration (seconds_text (15 * Second)) = Some (15 * Second)"
    by code_simp+
  with assms show ?thesis by (auto simp: duration_keys_def get_duration_def initial_config_def)
qed

text \<open>A duration that the environment does not set keeps its default.\<close>

lemma unset_duration:
  assumes "k \<in> set duration_keys" and "E k = []"
  shows "durationEnv E k (get_duration k (initial_config E)) = Inr (get_duration k (initial_config E))"
  using default_durations [OF assms(1)] assms(2) by (simp add: durationEnv_def env_def)

definition demo_environ :: environ where
  "demo_environ k = (case map_of [(''DATABASE_URL'', ''postgres://example''), (''ADMIN_TOKEN'', ''0123456789abcdef''),
      (''COOKIE_SIGNING_KEY'', ''01234567890123456789012345678901''), (''DEDUP_HMAC_KEY'', ''abcdefghijklmnopqrstuvwxyz012345''),
      (''COOKIE_SECURE'', ''true''), (''PUBLIC_BASE_URL'', ''https://poll.example/'')] k of None \<Rightarrow> [] | Some v \<Rightarrow> v)"

lemma unset_int: "E k = [] \<Longrightarrow> in64 n \<Longrightarrow> intEnv E k n = Inr n \<and> int64Env E k n = Inr n"
  by (simp add: intEnv_def int64Env_def env_def or_unparsable_def parse_int64_itoa)

lemma demo_empty: "demo_environ ''REDIS_DB'' = []" "demo_environ ''VOTE_BUCKETS'' = []" "demo_environ ''RATE_LIMIT_PER_MINUTE'' = []"
  by code_simp+

lemma demo_reads:
  "intEnv demo_environ ''REDIS_DB'' 0 = Inr 0" "intEnv demo_environ ''VOTE_BUCKETS'' 64 = Inr 64"
  "int64Env demo_environ ''RATE_LIMIT_PER_MINUTE'' 120 = Inr 120"
  using unset_int [of demo_environ "''REDIS_DB''" 0] unset_int [of demo_environ "''VOTE_BUCKETS''" 64]
    unset_int [of demo_environ "''RATE_LIMIT_PER_MINUTE''" 120] demo_empty
  by (simp_all add: in64_def)

lemma demo_switches:
  "boolEnv demo_environ ''COOKIE_SECURE'' False = Inr True"
  "boolEnv demo_environ ''TRUST_PROXY_HEADERS'' False = Inr False" "log_level_of (env demo_environ ''LOG_LEVEL'' ''info'') = Inr LevelInfo"
  by code_simp+

lemma demo_values:
  "demo_environ ''DATABASE_URL'' = ''postgres://example''" "demo_environ ''ADMIN_TOKEN'' = ''0123456789abcdef''"
  "demo_environ ''COOKIE_SIGNING_KEY'' = ''01234567890123456789012345678901''" "demo_environ ''DEDUP_HMAC_KEY'' = ''abcdefghijklmnopqrstuvwxyz012345''"
  "trim_slashes (env demo_environ ''PUBLIC_BASE_URL'' ''http://localhost:8080'') = ''https://poll.example''"
  by code_simp+

lemma demo_unset: "k \<in> set duration_keys \<Longrightarrow> demo_environ k = []"
proof -
  have "list_all (\<lambda>k. demo_environ k = []) duration_keys" by code_simp
  then show "k \<in> set duration_keys \<Longrightarrow> demo_environ k = []" by (simp add: list_all_iff)
qed

lemma demo_origin: "ParseURL ''https://poll.example'' = Some \<lparr>u_Scheme = ''https'', u_User = False, u_Host = ''poll.example'', u_Path = [], u_RawQuery = [], u_Fragment = []\<rparr>"
  by code_simp

lemma demo_keys: "bytes_of ''01234567890123456789012345678901'' \<noteq> bytes_of ''abcdefghijklmnopqrstuvwxyz012345''"
  by code_simp

definition demo_loaded :: config where
  "demo_loaded = (initial_config demo_environ)\<lparr>RedisDB := 0, VoteBuckets := 64, RateLimitPerMinute := 120, CookieSecure := True,
     TrustProxyHeaders := False, TrustedProxies := []\<rparr>"

lemma demo_checked:
  assumes "timeless c = timeless demo_loaded" and "\<And>k. k \<in> {''REDIS_RETENTION'', ''MAX_REDIS_TTL'', ''POLL_CACHE_TTL'', ''VOTE_REQUEST_TIMEOUT''} \<Longrightarrow> 0 < get_duration k c"
  shows "check_config (c\<lparr>LogLevel := l\<rparr>) = None"
proof -
  have "0 < RedisRetention c" "0 < MaxRedisTTL c" "0 < PollCacheTTL c" "0 < VoteRequestTimeout c"
    using assms(2) [of "''REDIS_RETENTION''"] assms(2) [of "''MAX_REDIS_TTL''"] assms(2) [of "''POLL_CACHE_TTL''"] assms(2) [of "''VOTE_REQUEST_TIMEOUT''"]
    by (simp_all add: get_duration_def)
  moreover have "DatabaseURL c = ''postgres://example''" "AdminToken c = ''0123456789abcdef''" "CookieSigningKey c = bytes_of ''01234567890123456789012345678901''"
    "DedupHMACKey c = bytes_of ''abcdefghijklmnopqrstuvwxyz012345''" "VoteBuckets c = 64" "RateLimitPerMinute c = 120" "PublicBaseURL c = ''https://poll.example''"
    using assms(1) by (cases c; simp add: timeless_def demo_loaded_def initial_config_def demo_values)+
  ultimately show ?thesis
    by (simp add: check_config_def demo_origin demo_keys origin_ok_def)
qed

lemma demo_Load: "Load demo_environ duration_keys = Inr demo_loaded"
proof -
  have "get_duration k demo_loaded = get_duration k (initial_config demo_environ)" for k
    by (simp add: demo_loaded_def get_duration_def)
  then have d: "durationEnv demo_environ k (get_duration k demo_loaded) = Inr (get_duration k demo_loaded)" if "k \<in> set duration_keys" for k
    using unset_duration [OF that, of demo_environ] demo_unset [OF that] by simp
  obtain c where c: "load_durations demo_environ duration_keys demo_loaded = Inr c"
    using load_durations_total [of duration_keys demo_environ demo_loaded] d by (auto simp: duration_keys_def)
  have dist: "distinct duration_keys" by (simp add: duration_keys_def)
  have "c = demo_loaded"
    using d by (intro load_durations_eqI [OF c dist refl]) simp_all
  moreover have "0 < get_duration k demo_loaded" for k
    by (simp add: get_duration_def demo_loaded_def initial_config_def duration_unit_defs)
  ultimately have "load_durations demo_environ duration_keys demo_loaded = Inr demo_loaded" "check_config (demo_loaded\<lparr>LogLevel := LevelInfo\<rparr>) = None"
    using c demo_checked [of demo_loaded LevelInfo] by simp_all
  moreover have "demo_loaded\<lparr>LogLevel := LevelInfo\<rparr> = demo_loaded" by (simp add: demo_loaded_def initial_config_def)
  ultimately show ?thesis
    using Load_intro [OF demo_reads demo_switches(1,2) _ _ demo_switches(3), of "[]" duration_keys demo_loaded]
    by (simp only: if_False demo_loaded_def [symmetric])
qed

theorem accepted_configuration_is_safe_witness:
  "Load demo_environ (rev duration_keys) = Inr demo_loaded \<and> safe_config demo_loaded \<and> PublicBaseURL demo_loaded = ''https://poll.example''"
proof -
  have ks: "key_order duration_keys" "key_order (rev duration_keys)" by (simp_all add: key_order_def) (simp_all add: duration_keys_def)
  from accepted_configuration_is_safe [OF demo_Load ks] show ?thesis by (simp add: demo_values)
qed

section \<open>What is accepted and should not be\<close>

text \<open>Two of the durations are not checked: a snapshot interval that is not positive makes the worker panic at
  its start. And a public URL that ends in a question mark counts as an origin, so that the links of
  polls, which are appended to it, do not lead to the page of the poll.\<close>

lemma unchecked_durations: "check_config (c\<lparr>SnapshotInterval := d, ShutdownTimeout := d'\<rparr>) = check_config c"
  by (cases "ParseURL (PublicBaseURL c)") (simp_all add: check_config_def)

lemma question_mark_is_origin: "map_option origin_ok (ParseURL ''https://poll.example?'') = Some True"
  by code_simp

end
