(* ===== verification/Go_Float_Order.thy ===== *)
theory Go_Float_Order
  imports Go_Float
begin

text \<open>
  Rounding to a \<open>float64\<close> keeps the order, and leaves the integers up to \<open>2 ^ 53\<close> as they are.
\<close>

lemma round_half_even_int [simp]: "round_half_even (of_int n) = n"
  by (simp add: round_half_even_def)

lemma round_half_even_mono: "x \<le> y \<Longrightarrow> round_half_even x \<le> round_half_even y"
proof -
  assume le: "x \<le> y"
  have "\<lfloor>x\<rfloor> \<le> round_half_even x" "round_half_even x \<le> \<lfloor>x\<rfloor> + 1" "\<lfloor>y\<rfloor> \<le> round_half_even y" for x y :: rat
    by (auto simp: round_half_even_def Let_def)
  moreover have "\<lfloor>x\<rfloor> \<le> \<lfloor>y\<rfloor>" using le by (rule floor_mono)
  moreover have "round_half_even x \<le> round_half_even y" if "\<lfloor>x\<rfloor> = \<lfloor>y\<rfloor>"
    using le that by (auto simp: round_half_even_def Let_def)
  ultimately show ?thesis by (cases "\<lfloor>x\<rfloor> = \<lfloor>y\<rfloor>") (auto, smt (verit, ccfv_SIG))
qed

lemma powi_shift: "(2 :: rat) powi i * 2 powi j = 2 powi (i + j)"
  by (simp add: powi_add_rat)

text \<open>A positive number rounds to something between the powers of two around it.\<close>

lemma float_round_between:
  assumes "0 < x"
  shows "2 powi exponent x \<le> float_round x \<and> float_round x \<le> 2 powi (exponent x + 1)"
proof -
  let ?u = "ulp x"
  have b: "2 powi exponent x \<le> x" "x < 2 powi (exponent x + 1)" using exponent_bounds [OF assms] by auto
  have p: "of_int (2 ^ 52) = (2 :: rat) powi 52" "of_int (2 ^ 53) = (2 :: rat) powi 53" by (simp_all add: power_int_def)
  have u: "2 powi exponent x = of_int (2 ^ 52) * ?u" "2 powi (exponent x + 1) = of_int (2 ^ 53) * ?u"
    unfolding p ulp_def powi_shift by (simp_all add: add.commute)
  have "of_int (2 ^ 52) \<le> x / ?u" "x / ?u \<le> of_int (2 ^ 53)"
    using b u ulp_pos [of x] by (simp_all add: field_simps)
  then have "2 ^ 52 \<le> round_half_even (x / ?u)" "round_half_even (x / ?u) \<le> 2 ^ 53"
    using round_half_even_mono [of "of_int (2 ^ 52)" "x / ?u"] round_half_even_mono [of "x / ?u" "of_int (2 ^ 53)"]
    by (simp_all only: round_half_even_int)
  then have "of_int (2 ^ 52) * ?u \<le> of_int (round_half_even (x / ?u)) * ?u"
    "of_int (round_half_even (x / ?u)) * ?u \<le> of_int (2 ^ 53) * ?u"
    using ulp_pos [of x] by (intro mult_right_mono; simp only: of_int_le_iff less_imp_le)+
  then show ?thesis using assms u by (simp add: float_round_def)
qed

lemma exponent_mono:
  assumes "0 < x" and "x \<le> y"
  shows "exponent x \<le> exponent y"
proof -
  have "2 powi exponent x < (2 :: rat) powi (exponent y + 1)"
    using exponent_bounds [of x] exponent_bounds [of y] assms by linarith
  then have "\<not> exponent y + 1 \<le> exponent x"
    using power_int_increasing [of "exponent y + 1" "exponent x" "2 :: rat"] by auto
  then show ?thesis by simp
qed

lemma float_round_mono_pos:
  assumes "0 < x" and "x \<le> y"
  shows "float_round x \<le> float_round y"
proof (cases "exponent x = exponent y")
  case True
  then have "ulp x = ulp y" by (simp add: ulp_def)
  moreover have "round_half_even (x / ulp y) \<le> round_half_even (y / ulp y)"
    using assms(2) ulp_pos [of y] by (intro round_half_even_mono divide_right_mono) auto
  ultimately show ?thesis
    using assms ulp_pos [of y] by (simp add: float_round_def)
next
  case False
  then have "exponent x + 1 \<le> exponent y" using exponent_mono [OF assms] by simp
  then have "(2 :: rat) powi (exponent x + 1) \<le> 2 powi exponent y" by (rule power_int_increasing) simp
  with float_round_between [of x] float_round_between [of y] assms show ?thesis by linarith
qed

lemma float_round_pos: "0 < x \<Longrightarrow> 0 < float_round x"
  using float_round_between [of x] zero_less_power_int [of "2 :: rat" "exponent x"] by linarith

lemma float_round_mono:
  assumes "0 \<le> x" and "x \<le> y"
  shows "float_round x \<le> float_round y"
proof (cases "x = 0")
  case True
  then show ?thesis using assms float_round_pos [of y] by (cases "y = 0") auto
qed (use assms float_round_mono_pos in auto)

lemma float_round_int:
  assumes "0 \<le> n" and "n \<le> 2 ^ 53"
  shows "float_round (of_int n) = of_int n"
proof (cases "n = 0")
  case False
  let ?x = "of_int n :: rat" and ?e = "exponent (of_int n)"
  have pos: "0 < ?x" using False assms by simp
  have b: "2 powi ?e \<le> ?x" "?x < 2 powi (?e + 1)" using exponent_bounds [OF pos] by auto
  have "0 \<le> ?e"
  proof (rule ccontr)
    assume "\<not> ?thesis"
    then have "(2 :: rat) powi (?e + 1) \<le> 2 powi 0" by (intro power_int_increasing) auto
    with b(2) pos False assms show False by simp
  qed
  have "\<exists>m. ?x / ulp ?x = of_int m"
  proof (cases "?e \<le> 52")
    case True
    have "?x / ulp ?x = ?x * 2 powi (52 - ?e)"
      by (simp add: ulp_def power_int_diff)
    also have "\<dots> = of_int (n * 2 ^ nat (52 - ?e))" using True by (simp add: power_int_def)
    finally show ?thesis by blast
  next
    case False
    then have "(2 :: rat) powi 53 \<le> 2 powi ?e" by (intro power_int_increasing) auto
    with b(1) have "(2 :: rat) powi 53 \<le> ?x" by linarith
    then have "of_int (2 ^ 53) \<le> ?x" by (simp add: power_int_def)
    then have n: "n = 2 ^ 53" using assms(2) by (simp only: of_int_le_iff)
    have "2 powi ?e \<le> (2 :: rat) powi 53" using b(1) unfolding n by (simp add: power_int_def)
    then have "?e = 53" using False power_int_strict_increasing [of 53 ?e "2 :: rat"] by fastforce
    then have "?x / ulp ?x = of_int (2 ^ 52)" by (simp add: ulp_def n power_int_def)
    then show ?thesis by blast
  qed
  then obtain m where m: "?x / ulp ?x = of_int m" by blast
  then have "?x = of_int m * ulp ?x" using ulp_pos [of ?x] by (simp add: field_simps)
  with m pos show ?thesis by (simp add: float_round_def)
qed simp

end
