(* ===== verification/Http_Response.thy ===== *)
theory Http_Response
  imports Go_Http Identity
begin

text \<open>
  Requests and responses of the package internal/httpapi: the response writer as the middleware wraps it
  (\<open>statusWriter\<close> in middleware.go), and response.go. A body of JSON is its tree, with instants and
  floating point numbers as they are; the text that encoding/json makes of a tree is not modelled.
\<close>

section \<open>Requests\<close>

text \<open>\<open>rq_Path\<close> and \<open>rq_EscapedPath\<close> are \<open>r.URL.Path\<close> and \<open>r.URL.EscapedPath()\<close>; \<open>rq_BodyOk\<close> says that reading the body
  ends without an error of the connection; \<open>rq_ID\<close> is the request ID in the context.\<close>

record request =
  rq_Method :: string
  rq_Path :: string
  rq_EscapedPath :: string
  rq_RawQuery :: string
  rq_Header :: "(string \<times> string) list"
  rq_RemoteAddr :: string
  rq_Body :: string
  rq_BodyOk :: bool
  rq_ID :: string

definition header_get :: "request \<Rightarrow> string \<Rightarrow> string" where
  "header_get r k = (case map_of (rq_Header r) k of None \<Rightarrow> [] | Some v \<Rightarrow> v)"

definition header_values :: "request \<Rightarrow> string \<Rightarrow> string list" where
  "header_values r k = map snd (filter (\<lambda>(x, v). x = k) (rq_Header r))"

section \<open>Responses\<close>

datatype jval = VNull | VBool bool | VInt int | VFloat rat | VStr string | VTime time
  | VArr "jval list" | VObj "(string \<times> jval) list"

text \<open>A tree that \<open>json.Encoder.Encode\<close> can write.\<close>

fun encodable :: "jval \<Rightarrow> bool" where
  "encodable (VTime t) \<longleftrightarrow> json_year t"
| "encodable (VArr vs) \<longleftrightarrow> list_all encodable vs"
| "encodable (VObj vs) \<longleftrightarrow> list_all (\<lambda>(k, v). encodable v) vs"
| "encodable v \<longleftrightarrow> True"

datatype payload = Json jval | Text string

text \<open>The header map that the handlers change (cookies apart), the status that \<open>statusWriter\<close> keeps (0 for none), what
  was sent at the first \<open>WriteHeader\<close>, and the body.\<close>

record writer =
  w_header :: "string \<rightharpoonup> string"
  w_cookies :: "cookie list"
  w_status :: int
  w_sent :: "(int \<times> (string \<rightharpoonup> string) \<times> cookie list) option"
  w_body :: "payload list"

definition new_writer :: writer where
  "new_writer = \<lparr>w_header = Map.empty, w_cookies = [], w_status = 0, w_sent = None, w_body = []\<rparr>"

definition set_header :: "string \<Rightarrow> string \<Rightarrow> writer \<Rightarrow> writer" where
  "set_header k v w = w\<lparr>w_header := (w_header w)(k \<mapsto> v)\<rparr>"

definition SetCookie :: "cookie \<Rightarrow> writer \<Rightarrow> writer" where
  "SetCookie c w = w\<lparr>w_cookies := w_cookies w @ [c]\<rparr>"

definition WriteHeader :: "int \<Rightarrow> writer \<Rightarrow> writer" where
  "WriteHeader code w = w\<lparr>w_status := code,
     w_sent := (case w_sent w of None \<Rightarrow> Some (code, w_header w, w_cookies w) | Some x \<Rightarrow> Some x)\<rparr>"

definition Write :: "payload \<Rightarrow> writer \<Rightarrow> writer" where
  "Write b w = (let w1 = (if w_status w = 0 then WriteHeader 200 w else w) in w1\<lparr>w_body := w_body w1 @ [b]\<rparr>)"

text \<open>An encoding that fails leaves the body empty; the status is sent already.\<close>

definition writeJSON :: "int \<Rightarrow> jval \<Rightarrow> writer \<Rightarrow> writer" where
  "writeJSON status v w =
     (let w1 = WriteHeader status (set_header ''Content-Type'' ''application/json'' w)
      in if encodable v then Write (Json v) w1 else w1)"

definition errorEnvelope :: "string \<Rightarrow> string \<Rightarrow> string \<Rightarrow> jval" where
  "errorEnvelope code message rid =
     VObj [(''error'', VObj [(''code'', VStr code), (''message'', VStr message), (''request_id'', VStr rid)])]"

definition writeError :: "request \<Rightarrow> int \<Rightarrow> string \<Rightarrow> string \<Rightarrow> writer \<Rightarrow> writer" where
  "writeError r status code message w = writeJSON status (errorEnvelope code message (rq_ID r)) w"

text \<open>\<open>http.Error\<close> and \<open>http.NotFound\<close>.\<close>

definition http_Error :: "string \<Rightarrow> int \<Rightarrow> writer \<Rightarrow> writer" where
  "http_Error msg code w =
     Write (Text (msg @ [CHR 0x0A]))
       (WriteHeader code (set_header ''X-Content-Type-Options'' ''nosniff'' (set_header ''Content-Type'' ''text/plain; charset=utf-8'' w)))"

definition http_NotFound :: "writer \<Rightarrow> writer" where
  "http_NotFound w = http_Error ''404 page not found'' 404 w"

fun html_escape :: "string \<Rightarrow> string" where
  "html_escape [] = []"
| "html_escape (c # s) =
    (if c = CHR ''&'' then ''&amp;'' else if c = CHR ''<'' then ''&lt;'' else if c = CHR ''>'' then ''&gt;''
     else if c = CHR 0x22 then ''&#34;'' else if c = CHR 0x27 then ''&#39;'' else [c]) @ html_escape s"

definition escape_non_ascii :: "string \<Rightarrow> string" where
  "escape_non_ascii s =
     concat (map (\<lambda>c. if byte_val c < 128 then [c] else [CHR ''%'', hex_char (byte_val c div 16), hex_char (byte_val c mod 16)]) s)"

text \<open>\<open>http.Redirect\<close> to a clean path of the same host.\<close>

definition http_Redirect :: "request \<Rightarrow> string \<Rightarrow> int \<Rightarrow> string \<Rightarrow> writer \<Rightarrow> writer" where
  "http_Redirect r url code phrase w =
     (let had = w_header w ''Content-Type'' \<noteq> None;
          w1 = set_header ''Location'' (escape_non_ascii url) w;
          w2 = (if \<not> had \<and> (rq_Method r = ''GET'' \<or> rq_Method r = ''HEAD'')
                then set_header ''Content-Type'' ''text/html; charset=utf-8'' w1 else w1);
          w3 = WriteHeader code w2
      in if \<not> had \<and> rq_Method r = ''GET''
         then Write (Text (''<a href='' @ [CHR 0x22] @ html_escape url @ [CHR 0x22] @ ''>'' @ phrase @ ''</a>.'' @ [CHR 0x0A, CHR 0x0A])) w3 else w3)"

section \<open>Request bodies\<close>

definition requireJSON :: "request \<Rightarrow> writer \<Rightarrow> writer \<times> bool" where
  "requireJSON r w =
     (if ParseMediaType (header_get r ''Content-Type'') = Some ''application/json'' then (w, True)
      else (writeError r 415 ''invalid_content_type'' ''Content-Type must be application/json'' w, False))"

text \<open>The key of an object member as it selects a field of a struct: the exact name first, else up to simple
  case folding, of which two letters beyond ASCII fold into ASCII.\<close>

fun fold_name :: "string \<Rightarrow> string" where
  "fold_name [] = []"
| "fold_name (c # s) =
    (if byte_val c = 197 \<and> s \<noteq> [] \<and> byte_val (hd s) = 191 then CHR ''s'' # fold_name (tl s)
     else if byte_val c = 226 \<and> 2 \<le> length s \<and> byte_val (s ! 0) = 132 \<and> byte_val (s ! 1) = 170
     then CHR ''k'' # fold_name (drop 2 s)
     else lower_char c # fold_name s)"

definition field_of :: "string list \<Rightarrow> string \<Rightarrow> string option" where
  "field_of names key =
     (case json_string key of
        None \<Rightarrow> None
      | Some k \<Rightarrow> if k \<in> set names then Some k else find (\<lambda>f. f = fold_name k) names)"

text \<open>The members of an object, one after the other, into a struct; an unknown name is an error, and so is a
  value that does not fit. \<open>null\<close> leaves a struct as it is.\<close>

fun decode_members :: "string list \<Rightarrow> (string \<Rightarrow> json \<Rightarrow> 'a \<Rightarrow> 'a option) \<Rightarrow> (string \<times> json) list \<Rightarrow> 'a \<Rightarrow> 'a option" where
  "decode_members names put [] x = Some x"
| "decode_members names put ((key, v) # ms) x =
     (case field_of names key of
        None \<Rightarrow> None
      | Some f \<Rightarrow> Option.bind (put f v x) (decode_members names put ms))"

definition decode_struct :: "string list \<Rightarrow> (string \<Rightarrow> json \<Rightarrow> 'a \<Rightarrow> 'a option) \<Rightarrow> json \<Rightarrow> 'a \<Rightarrow> 'a option" where
  "decode_struct names put v x =
     (case v of JNull \<Rightarrow> Some x | JObj ms \<Rightarrow> decode_members names put ms x | _ \<Rightarrow> None)"

definition decode_string :: "json \<Rightarrow> string \<Rightarrow> string option" where
  "decode_string v x = (case v of JNull \<Rightarrow> Some x | JStr raw \<Rightarrow> json_string raw | _ \<Rightarrow> None)"

definition decode_int :: "json \<Rightarrow> int \<Rightarrow> int option" where
  "decode_int v x = (case v of JNull \<Rightarrow> Some x | JNum t \<Rightarrow> parse_int64 t | _ \<Rightarrow> None)"

definition decode_time :: "json \<Rightarrow> time \<Rightarrow> time option" where
  "decode_time v x = (case v of JNull \<Rightarrow> Some x | JStr raw \<Rightarrow> parse_RFC3339 raw | _ \<Rightarrow> None)"

text \<open>A slice is its array and its length. An element is decoded over what the array held there, so that a
  second value for the same field can leave old elements where it says \<open>null\<close>.\<close>

fun decode_elems :: "('a \<Rightarrow> json \<Rightarrow> 'a option) \<Rightarrow> 'a \<Rightarrow> 'a list \<Rightarrow> json list \<Rightarrow> 'a list option" where
  "decode_elems f z back [] = Some []"
| "decode_elems f z back (v # vs) =
     Option.bind (f (case back of [] \<Rightarrow> z | x # _ \<Rightarrow> x) v) (\<lambda>y.
     Option.bind (decode_elems f z (tl back) vs) (\<lambda>ys. Some (y # ys)))"

definition decode_slice :: "('a \<Rightarrow> json \<Rightarrow> 'a option) \<Rightarrow> 'a \<Rightarrow> json \<Rightarrow> 'a list \<times> nat \<Rightarrow> ('a list \<times> nat) option" where
  "decode_slice f z v x =
     (case v of
        JNull \<Rightarrow> Some ([], 0)
      | JArr [] \<Rightarrow> Some ([], 0)
      | JArr vs \<Rightarrow> map_option (\<lambda>ys. (ys @ drop (length ys) (fst x), length ys)) (decode_elems f z (fst x) vs)
      | _ \<Rightarrow> None)"

definition slice_of :: "'a list \<times> nat \<Rightarrow> 'a list" where
  "slice_of x = take (snd x) (fst x)"

text \<open>\<open>decodeJSON\<close>: a body of at most 32 KiB that holds one value, which fits, and white space.\<close>

definition decodeJSON :: "request \<Rightarrow> (json \<Rightarrow> 'a \<Rightarrow> 'a option) \<Rightarrow> 'a \<Rightarrow> 'a option" where
  "decodeJSON r decode x =
     (if length (rq_Body r) > 32 * 1024 \<or> \<not> rq_BodyOk r then None
      else (case json_value (rq_Body r) of
         None \<Rightarrow> None
       | Some (v, rest) \<Rightarrow> if skip rest = [] then decode v x else None))"

section \<open>Errors of the domain\<close>

definition handleDomainError :: "request \<Rightarrow> err \<Rightarrow> writer \<Rightarrow> writer" where
  "handleDomainError r e w =
     (if errors_is e ErrNotFound then writeError r 404 ''poll_not_found'' ''poll not found'' w
      else if errors_is e ErrNotActive then writeError r 409 ''poll_not_active'' ''poll is not active'' w
      else if errors_is e ErrInvalidSelection then writeError r 422 ''invalid_selection'' ''selection does not satisfy poll rules'' w
      else if errors_is e ErrInvalidInput then writeError r 400 ''invalid_request'' (err_text e) w
      else if errors_is e ErrInvalidTransition then writeError r 409 ''invalid_transition'' ''poll status transition is not allowed'' w
      else writeError r 503 ''temporarily_unavailable'' ''service is temporarily unavailable'' w)"

section \<open>Lemmas\<close>

named_theorems writer_simps \<open>status of a response\<close>

lemma status_simps [writer_simps]:
  "w_status (set_header k v w) = w_status w" "w_status (SetCookie c w) = w_status w"
  "w_status (WriteHeader n w) = n" "n \<noteq> 0 \<Longrightarrow> w_status (writeJSON n x w) = n"
  "n \<noteq> 0 \<Longrightarrow> w_status (writeError r n code m w) = n"
  by (simp_all add: set_header_def SetCookie_def WriteHeader_def writeJSON_def writeError_def Write_def Let_def)

definition error_status :: "err \<Rightarrow> int" where
  "error_status e = (case e of
     Sentinel s \<Rightarrow> (case s of ErrNotFound \<Rightarrow> 404 | ErrNotActive \<Rightarrow> 409 | ErrInvalidSelection \<Rightarrow> 422 | ErrInvalidInput \<Rightarrow> 400
       | ErrInvalidTransition \<Rightarrow> 409 | _ \<Rightarrow> 503)
   | Wrapped s m \<Rightarrow> (case s of ErrNotFound \<Rightarrow> 404 | ErrNotActive \<Rightarrow> 409 | ErrInvalidSelection \<Rightarrow> 422 | ErrInvalidInput \<Rightarrow> 400
       | ErrInvalidTransition \<Rightarrow> 409 | _ \<Rightarrow> 503)
   | Other m \<Rightarrow> 503)"

lemma handleDomainError_status [writer_simps]: "w_status (handleDomainError r e w) = error_status e"
  by (auto simp: handleDomainError_def error_status_def writer_simps split: err.splits sentinel.splits)

lemma requireJSON_cases:
  "requireJSON r w = (w, True) \<or>
   (snd (requireJSON r w) = False \<and> w_status (fst (requireJSON r w)) = 415)"
  by (simp add: requireJSON_def writer_simps)

end
