(* ===== verification/Http_Metrics.thy ===== *)
theory Http_Metrics
  imports Go_Float_Order Http_Response
begin

text \<open>
  The counters of the package internal/httpapi (metrics.go): what each operation adds, and the text of the
  exposition. Counters are 64-bit words; the map of a counter holds the keys that were counted.
\<close>

section \<open>State\<close>

datatype request_key = RequestKey (rk_route: string) (rk_method: string) (rk_status: string)

text \<open>The order of \<open>sort.Slice\<close> in \<open>ServeHTTP\<close>.\<close>

definition request_key_before :: "request_key \<Rightarrow> request_key \<Rightarrow> bool" where
  "request_key_before a b \<longleftrightarrow>
     (if rk_route a \<noteq> rk_route b then rk_route a < rk_route b
      else if rk_method a \<noteq> rk_method b then rk_method a < rk_method b
      else rk_status a < rk_status b)"

instantiation request_key :: linorder
begin

definition less_request_key :: "request_key \<Rightarrow> request_key \<Rightarrow> bool" where
  "less_request_key = request_key_before"

definition less_eq_request_key :: "request_key \<Rightarrow> request_key \<Rightarrow> bool" where
  "less_eq_request_key a b \<longleftrightarrow> a < b \<or> a = b"

instance
proof
  note key_order = less_request_key_def request_key_before_def less_eq_request_key_def
  fix a b c :: request_key
  show "a < b \<longleftrightarrow> a \<le> b \<and> \<not> b \<le> a"
    by (auto simp: key_order request_key.expand split: if_splits)
  show "a \<le> a" by (simp add: less_eq_request_key_def)
  show "a \<le> b \<Longrightarrow> b \<le> c \<Longrightarrow> a \<le> c"
    by (auto simp: key_order split: if_splits intro: less_trans)
  show "a \<le> b \<Longrightarrow> b \<le> a \<Longrightarrow> a = b"
    by (auto simp: key_order split: if_splits)
  show "a \<le> b \<or> b \<le> a"
    by (cases a; cases b) (auto simp: key_order split: if_splits)
qed

end

text \<open>The upper bounds, as the floating point numbers that the literals stand for.\<close>

definition duration_buckets :: "rat list" where
  "duration_buckets = map float_round [5 / 1000, 1 / 100, 25 / 1000, 5 / 100, 1 / 10, 1 / 4, 1 / 2, 1, 5 / 2, 5]"

record duration_histogram =
  h_buckets :: "64 word list"
  h_count :: "64 word"
  h_sum :: rat

definition empty_histogram :: duration_histogram where
  "empty_histogram = \<lparr>h_buckets = replicate (length duration_buckets) 0, h_count = 0, h_sum = 0\<rparr>"

record metrics =
  m_requests :: "request_key \<rightharpoonup> 64 word"
  m_durations :: "string \<rightharpoonup> duration_histogram"
  m_rejections :: "string \<rightharpoonup> 64 word"
  m_recorded :: "64 word"
  m_duplicates :: "64 word"
  m_snapshots :: "64 word"
  m_snapshotErrors :: "64 word"
  m_lastSnapshot :: int

definition empty_metrics :: metrics where
  "empty_metrics = \<lparr>m_requests = Map.empty, m_durations = Map.empty, m_rejections = Map.empty,
     m_recorded = 0, m_duplicates = 0, m_snapshots = 0, m_snapshotErrors = 0, m_lastSnapshot = 0\<rparr>"

section \<open>Operations\<close>

text \<open>\<open>m[k]++\<close>.\<close>

definition increment :: "'k \<Rightarrow> ('k \<rightharpoonup> 64 word) \<Rightarrow> ('k \<rightharpoonup> 64 word)" where
  "increment k m = m(k \<mapsto> (case m k of None \<Rightarrow> 1 | Some n \<Rightarrow> n + 1))"

definition Reject :: "string \<Rightarrow> metrics \<Rightarrow> metrics" where
  "Reject reason m = m\<lparr>m_rejections := increment reason (m_rejections m)\<rparr>"

definition observe :: "rat \<Rightarrow> duration_histogram \<Rightarrow> duration_histogram" where
  "observe seconds h = \<lparr>h_buckets = map2 (\<lambda>n upper. if seconds \<le> upper then n + 1 else n) (h_buckets h) duration_buckets,
     h_count = h_count h + 1, h_sum = float_round (h_sum h + seconds)\<rparr>"

definition ObserveHTTP :: "string \<Rightarrow> string \<Rightarrow> int \<Rightarrow> duration \<Rightarrow> metrics \<Rightarrow> metrics" where
  "ObserveHTTP route method status d m =
     (let seconds = duration_seconds d; key = RequestKey route method (itoa status);
          h = (case m_durations m route of None \<Rightarrow> empty_histogram | Some h \<Rightarrow> h)
      in m\<lparr>m_requests := increment key (m_requests m), m_durations := (m_durations m)(route \<mapsto> observe seconds h)\<rparr>)"

definition count_recorded :: "metrics \<Rightarrow> metrics" where
  "count_recorded m = m\<lparr>m_recorded := m_recorded m + 1\<rparr>"

definition count_duplicate :: "metrics \<Rightarrow> metrics" where
  "count_duplicate m = m\<lparr>m_duplicates := m_duplicates m + 1\<rparr>"

definition SnapshotSuccess :: "time \<Rightarrow> metrics \<Rightarrow> metrics" where
  "SnapshotSuccess now m = m\<lparr>m_snapshots := m_snapshots m + 1, m_lastSnapshot := wrap64 now\<rparr>"

definition SnapshotError :: "metrics \<Rightarrow> metrics" where
  "SnapshotError m = m\<lparr>m_snapshotErrors := m_snapshotErrors m + 1\<rparr>"

section \<open>Exposition\<close>

text \<open>\<open>promLabel\<close>, and the quotes that the verb %q puts around an ASCII text.\<close>

fun promLabel :: "string \<Rightarrow> string" where
  "promLabel [] = []"
| "promLabel (c # s) =
    (if c = CHR 0x5C then [CHR 0x5C, CHR 0x5C] else if c = CHR 0x0A then [CHR 0x5C, CHR ''n'']
     else if c = CHR 0x22 then [CHR 0x5C, CHR 0x22] else [c]) @ promLabel s"

definition quote_byte :: "char \<Rightarrow> string" where
  "quote_byte c =
    (if c = CHR 0x22 \<or> c = CHR 0x5C then [CHR 0x5C, c]
     else if 32 \<le> byte_val c \<and> byte_val c < 127 then [c]
     else if c = CHR 0x07 then CHR 0x5C # ''a'' else if c = CHR 0x08 then CHR 0x5C # ''b'' else if c = CHR 0x0C then CHR 0x5C # ''f''
     else if c = CHR 0x0A then CHR 0x5C # ''n'' else if c = CHR 0x0D then CHR 0x5C # ''r'' else if c = CHR 0x09 then CHR 0x5C # ''t''
     else if c = CHR 0x0B then CHR 0x5C # ''v''
     else [CHR 0x5C, CHR ''x'', hex_char (byte_val c div 16), hex_char (byte_val c mod 16)])"

definition quote :: "string \<Rightarrow> string" where
  "quote s = CHR 0x22 # concat (map quote_byte s) @ [CHR 0x22]"

text \<open>\<open>strconv.FormatFloat(x, 'g', -1, 64)\<close>: the fewest digits that read back as \<open>x\<close>.\<close>

definition dec_exponent :: "rat \<Rightarrow> int" where
  "dec_exponent x =
    (let (a, b) = quotient_of x; k = int (length (itoa_nat (nat a))) - int (length (itoa_nat (nat b)))
     in if 10 powi k \<le> x then k else k - 1)"

definition digits_at :: "rat \<Rightarrow> nat \<Rightarrow> int" where
  "digits_at x n = round_half_even (x / 10 powi (dec_exponent x - int n + 1))"

definition shortest :: "rat \<Rightarrow> nat" where
  "shortest x =
    (case find (\<lambda>n. float_round (of_int (digits_at x n) * 10 powi (dec_exponent x - int n + 1)) = x) [1..<18] of
       None \<Rightarrow> 17 | Some n \<Rightarrow> n)"

definition format_float :: "rat \<Rightarrow> string" where
  "format_float x =
    (if x = 0 then ''0''
     else let y = \<bar>x\<bar>; n = shortest y; e = dec_exponent y; ds = itoa (digits_at y n);
              body = (if e < -4 \<or> e \<ge> 6 then
                        hd ds # (if n = 1 then [] else CHR ''.'' # tl ds) @ ''e'' @ (if e < 0 then ''-'' else ''+'') @
                        (if \<bar>e\<bar> < 10 then ''0'' else []) @ itoa \<bar>e\<bar>
                      else if e < 0 then ''0.'' @ replicate (nat (- e - 1)) (CHR ''0'') @ ds
                      else if int n \<le> e + 1 then ds @ replicate (nat (e + 1) - n) (CHR ''0'')
                      else take (nat (e + 1)) ds @ ''.'' @ drop (nat (e + 1)) ds)
          in (if x < 0 then CHR ''-'' # body else body))"

abbreviation label :: "string \<Rightarrow> string \<Rightarrow> string" where
  "label k v \<equiv> k @ ''='' @ quote v"

definition word_text :: "64 word \<Rightarrow> string" where
  "word_text n = itoa (uint n)"

definition request_line :: "metrics \<Rightarrow> request_key \<Rightarrow> string" where
  "request_line m k = ''http_requests_total{'' @ label ''route'' (promLabel (rk_route k)) @ '','' @
     label ''method'' (promLabel (rk_method k)) @ '','' @ label ''status'' (promLabel (rk_status k)) @ ''} '' @
     word_text (case m_requests m k of None \<Rightarrow> 0 | Some n \<Rightarrow> n)"

definition duration_lines :: "string \<Rightarrow> duration_histogram \<Rightarrow> string list" where
  "duration_lines route h =
     (let r = label ''route'' (promLabel route) in
      map2 (\<lambda>n upper. ''http_request_duration_seconds_bucket{'' @ r @ '','' @ label ''le'' (format_float upper) @ ''} '' @ word_text n)
        (h_buckets h) duration_buckets @
      [''http_request_duration_seconds_bucket{'' @ r @ '','' @ label ''le'' ''+Inf'' @ ''} '' @ word_text (h_count h),
       ''http_request_duration_seconds_sum{'' @ r @ ''} '' @ format_float (h_sum h),
       ''http_request_duration_seconds_count{'' @ r @ ''} '' @ word_text (h_count h)])"

definition counter_lines :: "string \<Rightarrow> string \<Rightarrow> 64 word \<Rightarrow> string list" where
  "counter_lines name help n = [''# HELP '' @ name @ '' '' @ help, ''# TYPE '' @ name @ '' counter'', name @ '' '' @ word_text n]"

definition snapshot_age :: "time \<Rightarrow> metrics \<Rightarrow> rat" where
  "snapshot_age now m =
     (if m_lastSnapshot m > 0 then max 0 (duration_seconds (time_sub now (m_lastSnapshot m))) else 0)"

definition metrics_lines :: "time \<Rightarrow> metrics \<Rightarrow> string list" where
  "metrics_lines now m =
     [''# HELP http_requests_total Completed HTTP requests by normalized route, method, and status.'',
      ''# TYPE http_requests_total counter''] @
     map (request_line m) (sorted_list_of_set (dom (m_requests m))) @
     [''# HELP http_request_duration_seconds HTTP request duration by normalized route.'',
      ''# TYPE http_request_duration_seconds histogram''] @
     concat (map (\<lambda>route. duration_lines route (case m_durations m route of None \<Rightarrow> empty_histogram | Some h \<Rightarrow> h))
       (sorted_list_of_set (dom (m_durations m)))) @
     counter_lines ''votes_recorded_total'' ''Votes recorded for new browser identities.'' (m_recorded m) @
     counter_lines ''votes_duplicate_total'' ''Idempotent duplicate vote requests.'' (m_duplicates m) @
     [''# HELP votes_rejected_total Vote requests rejected by a bounded reason.'', ''# TYPE votes_rejected_total counter''] @
     map (\<lambda>reason. ''votes_rejected_total{'' @ label ''reason'' (promLabel reason) @ ''} '' @
           word_text (case m_rejections m reason of None \<Rightarrow> 0 | Some n \<Rightarrow> n))
       (sorted_list_of_set (dom (m_rejections m))) @
     counter_lines ''snapshot_success_total'' ''Successful snapshot worker passes.'' (m_snapshots m) @
     counter_lines ''snapshot_error_total'' ''Failed snapshot worker operations.'' (m_snapshotErrors m) @
     [''# HELP snapshot_age_seconds Seconds since the latest successful snapshot pass.'',
      ''# TYPE snapshot_age_seconds gauge'', ''snapshot_age_seconds '' @ format_float (snapshot_age now m)]"

definition Metrics_ServeHTTP :: "time \<Rightarrow> metrics \<Rightarrow> writer \<Rightarrow> writer" where
  "Metrics_ServeHTTP now m w =
     foldl (\<lambda>w l. Write (Text (l @ [CHR 0x0A])) w) (set_header ''Content-Type'' ''text/plain; version=0.0.4; charset=utf-8'' w)
       (metrics_lines now m)"

section \<open>The counters after a history\<close>

datatype metric_event = Http_done string string int duration | Rejected string | Vote_recorded | Vote_duplicate
  | Snapshot_done time | Snapshot_failed

fun metric_step :: "metric_event \<Rightarrow> metrics \<Rightarrow> metrics" where
  "metric_step (Http_done r me st d) m = ObserveHTTP r me st d m"
| "metric_step (Rejected reason) m = Reject reason m"
| "metric_step Vote_recorded m = count_recorded m"
| "metric_step Vote_duplicate m = count_duplicate m"
| "metric_step (Snapshot_done t) m = SnapshotSuccess t m"
| "metric_step Snapshot_failed m = SnapshotError m"

definition metrics_after :: "metric_event list \<Rightarrow> metrics" where
  "metrics_after es = foldl (\<lambda>m e. metric_step e m) empty_metrics es"

fun done_on :: "string \<Rightarrow> (string \<Rightarrow> int \<Rightarrow> duration \<Rightarrow> bool) \<Rightarrow> metric_event \<Rightarrow> bool" where
  "done_on r P (Http_done r' me st d) \<longleftrightarrow> r' = r \<and> P me st d"
| "done_on r P _ \<longleftrightarrow> False"

abbreviation occurrences :: "('a \<Rightarrow> bool) \<Rightarrow> 'a list \<Rightarrow> nat" where
  "occurrences P es \<equiv> length (filter P es)"

definition read_counter :: "('k \<rightharpoonup> 64 word) \<Rightarrow> 'k \<Rightarrow> 64 word" where
  "read_counter m k = (case m k of None \<Rightarrow> 0 | Some n \<Rightarrow> n)"

lemma read_increment [simp]: "read_counter (increment k m) k' = read_counter m k' + (if k = k' then 1 else 0)"
  by (cases "m k'") (simp_all add: read_counter_def increment_def)

lemma length_duration_buckets [simp]: "length duration_buckets = 10"
  by (simp add: duration_buckets_def)

lemma metrics_after_snoc: "metrics_after (es @ [e]) = metric_step e (metrics_after es)"
  by (simp add: metrics_after_def)

lemma metrics_after_Nil: "metrics_after [] = empty_metrics"
  by (simp add: metrics_after_def)

lemma requests_after:
  "read_counter (m_requests (metrics_after es)) (RequestKey r me (itoa st)) = of_nat (occurrences (done_on r (\<lambda>me' st' d. me' = me \<and> st' = st)) es)"
proof (induction es rule: rev_induct)
  case (snoc e es)
  then show ?case
    by (cases e) (auto simp: metrics_after_snoc ObserveHTTP_def Let_def Reject_def count_recorded_def count_duplicate_def
      SnapshotSuccess_def SnapshotError_def)
qed (simp add: metrics_after_Nil empty_metrics_def read_counter_def)

lemma rejections_after:
  "read_counter (m_rejections (metrics_after es)) reason = of_nat (occurrences (\<lambda>e. e = Rejected reason) es)"
proof (induction es rule: rev_induct)
  case (snoc e es)
  then show ?case
    by (cases e) (simp_all add: metrics_after_snoc ObserveHTTP_def Let_def Reject_def count_recorded_def count_duplicate_def
      SnapshotSuccess_def SnapshotError_def)
qed (simp add: metrics_after_Nil empty_metrics_def read_counter_def)

text \<open>What the histogram of a route holds after a history.\<close>

definition histogram_of :: "string \<Rightarrow> metric_event list \<Rightarrow> duration_histogram \<Rightarrow> bool" where
  "histogram_of r es h \<longleftrightarrow> h_count h = of_nat (occurrences (done_on r (\<lambda>me st d. True)) es) \<and>
     h_buckets h = map (\<lambda>upper. of_nat (occurrences (done_on r (\<lambda>me st d. duration_seconds d \<le> upper)) es)) duration_buckets"

lemma observe_histogram:
  assumes "histogram_of r es h"
  shows "histogram_of r (es @ [Http_done r me st d]) (observe (duration_seconds d) h)"
  using assms
  by (auto simp: histogram_of_def observe_def map2_map_map intro!: nth_equalityI)

lemma histogram_frame: "histogram_of r es h \<Longrightarrow> \<not> done_on r (\<lambda>me st d. True) e \<Longrightarrow> histogram_of r (es @ [e]) h"
  by (cases e) (simp_all add: histogram_of_def)

lemma durations_after:
  "case m_durations (metrics_after es) r of
     None \<Rightarrow> occurrences (done_on r (\<lambda>me st d. True)) es = 0
   | Some h \<Rightarrow> histogram_of r es h"
proof (induction es rule: rev_induct)
  case (snoc e es)
  show ?case
  proof (cases e)
    case (Http_done r' me st d)
    have empty: "histogram_of r es empty_histogram" if "occurrences (done_on r (\<lambda>me st d. True)) es = 0"
    proof -
      have "\<not> done_on r (\<lambda>me st d. True) x" if "x \<in> set es" for x
        using that \<open>occurrences (done_on r (\<lambda>me st d. True)) es = 0\<close> by (simp add: filter_empty_conv)
      then have "\<not> done_on r P x" if "x \<in> set es" for P x using that by (cases x) fastforce+
      then have "occurrences (done_on r P) es = 0" for P by (simp add: filter_empty_conv)
      then show ?thesis by (simp add: histogram_of_def empty_histogram_def map_replicate_const)
    qed
    show ?thesis
      using snoc empty observe_histogram [of r es _ me st d]
      by (cases "r' = r") (auto simp: Http_done metrics_after_snoc ObserveHTTP_def Let_def histogram_frame split: option.splits)
  qed (use snoc histogram_frame in \<open>auto simp: metrics_after_snoc Reject_def count_recorded_def count_duplicate_def
      SnapshotSuccess_def SnapshotError_def split: option.splits\<close>)
qed (simp add: metrics_after_Nil empty_metrics_def)

lemma sorted_duration_buckets: "sorted duration_buckets"
  unfolding duration_buckets_def by (simp add: float_round_mono)

lemma occurrences_le: "(\<And>e. P e \<Longrightarrow> Q e) \<Longrightarrow> occurrences P es \<le> occurrences Q es"
  by (induction es) auto

lemma uint_occurrences: "length es < 2 ^ 64 \<Longrightarrow> uint (of_nat (occurrences P es) :: 64 word) = int (occurrences P es)"
  using le_less_trans [OF length_filter_le [of P es]] by (simp add: unsigned_of_nat take_bit_nat_eq_self_iff)

text \<open>C39. The metrics count what happened: after any history, a request counter is the number of requests of its
  route, method and status, a rejection counter that of its reason, and the histogram of a route
  counts its requests and, per bound, those that were not longer, modulo \<open>2 ^ 64\<close>. While there were
  fewer events than that, the bounds of a histogram are cumulative, up to its count.\<close>

theorem metrics_count_the_events:
  "read_counter (m_requests (metrics_after es)) (RequestKey r me (itoa st)) =
     of_nat (occurrences (done_on r (\<lambda>me' st' d. me' = me \<and> st' = st)) es) \<and>
   read_counter (m_rejections (metrics_after es)) reason = of_nat (occurrences (\<lambda>e. e = Rejected reason) es) \<and>
   (case m_durations (metrics_after es) r of
      None \<Rightarrow> occurrences (done_on r (\<lambda>me st d. True)) es = 0
    | Some h \<Rightarrow> histogram_of r es h \<and>
        (length es < 2 ^ 64 \<longrightarrow> (\<forall>i j. i \<le> j \<longrightarrow> j < 10 \<longrightarrow>
           uint (h_buckets h ! i) \<le> uint (h_buckets h ! j) \<and> uint (h_buckets h ! j) \<le> uint (h_count h))))"
proof -
  have "uint (h_buckets h ! i) \<le> uint (h_buckets h ! j) \<and> uint (h_buckets h ! j) \<le> uint (h_count h)"
    if h: "histogram_of r es h" and n: "length es < 2 ^ 64" and ij: "i \<le> j" "j < 10" for h i j
  proof -
    have up: "duration_buckets ! i \<le> duration_buckets ! j"
      using sorted_duration_buckets ij by (simp add: sorted_iff_nth_mono)
    have b: "h_buckets h ! k = of_nat (occurrences (done_on r (\<lambda>me st d. duration_seconds d \<le> duration_buckets ! k)) es)" if "k < 10" for k
      using h that by (simp add: histogram_of_def)
    have "done_on r P e \<Longrightarrow> (\<And>me st d. P me st d \<Longrightarrow> Q me st d) \<Longrightarrow> done_on r Q e" for P Q e by (cases e) auto
    then have "occurrences (done_on r P) es \<le> occurrences (done_on r Q) es" if "\<And>me st d. P me st d \<Longrightarrow> Q me st d" for P Q
      using that by (intro occurrences_le) blast
    then show ?thesis
      using h b [of i] b [of j] up ij n by (simp add: histogram_of_def uint_occurrences)
  qed
  then show ?thesis
    using requests_after rejections_after durations_after [where es = es and r = r] by (auto split: option.splits)
qed

theorem metrics_count_the_events_witness:
  "read_counter (m_requests (metrics_after [Http_done ''/p/{slug}'' ''GET'' 200 (7 * Millisecond), Rejected ''validation''])) (RequestKey ''/p/{slug}'' ''GET'' ''200'') = 1"
proof -
  have "itoa 200 = ''200''" by code_simp
  then show ?thesis
    using conjunct1 [OF metrics_count_the_events, of "[Http_done ''/p/{slug}'' ''GET'' 200 (7 * Millisecond), Rejected ''validation'']" "''/p/{slug}''" "''GET''" 200]
    by simp
qed

end
