(* ===== verification/Http_Handlers.thy ===== *)
theory Http_Handlers
  imports Http_Metrics Services
begin

text \<open>
  The handlers of the package internal/httpapi: admin_handlers.go, public_handlers.go, qr_handler.go, the
  health checks of router.go and the pages of web.go. A handler gets the dependencies of the API,
  what the process reads during the request (clock and random bytes), the request, its path
  values, the state and the response writer, and returns the state and the writer.
\<close>

section \<open>Dependencies and state (router.go)\<close>

record 's poll_api =
  a_Create :: "create_poll \<Rightarrow> 's \<Rightarrow> 's \<times> (err + poll)"
  a_ListRecent :: "nat \<Rightarrow> 's \<Rightarrow> 's \<times> (err + poll list)"
  a_Publish :: "string \<Rightarrow> 's \<Rightarrow> 's \<times> (err + poll)"
  a_PublicBySlug :: "string \<Rightarrow> time \<Rightarrow> 's \<Rightarrow> 's \<times> (err + poll)"
  a_GetByID :: "string \<Rightarrow> 's \<Rightarrow> 's \<times> (err + poll)"

type_synonym 's vote_api = "string \<Rightarrow> string \<Rightarrow> string list \<Rightarrow> time \<Rightarrow> 's \<Rightarrow> 's \<times> (err + vote_status)"

record 's result_api =
  a_Results :: "string \<Rightarrow> 's \<Rightarrow> 's \<times> (err + poll \<times> poll_result)"
  a_Close :: "string \<Rightarrow> 's \<Rightarrow> 's \<times> (err + poll \<times> poll_result)"

record 's rate_limiter =
  a_AllowRate :: "string \<Rightarrow> int \<Rightarrow> 's \<Rightarrow> 's \<times> (err + bool)"
  a_Ping :: "'s \<Rightarrow> 's \<times> err option"

text \<open>\<open>api_PingDB\<close> stands for the database handle, which only the readiness check uses; \<open>api_files\<close>, \<open>api_page\<close> and
  \<open>api_spec\<close> for the embedded files, the text and outcome of the admin template, and openapi.yaml.\<close>

record 's api =
  api_polls :: "'s poll_api"
  api_votes :: "'s vote_api"
  api_results :: "'s result_api"
  api_rate :: "'s rate_limiter"
  api_cookies :: cookie_manager
  api_dedupKey :: "byte list"
  api_trustedProxies :: "ip_net list"
  api_rateLimit :: int
  api_PingDB :: "'s \<Rightarrow> 's \<times> err option"
  api_qr :: "(string \<Rightarrow> err + string) option"
  api_publicBaseURL :: string
  api_adminToken :: string
  api_files :: "string \<Rightarrow> string option"
  api_page :: "string \<Rightarrow> string"
  api_spec :: string

record 's api_state =
  st_svc :: 's
  st_metrics :: metrics
  st_qr :: "string \<rightharpoonup> string"

text \<open>The clock of the handler, the bytes for a new cookie and for a request ID, and how long the request took.\<close>

record request_env =
  q_now :: time
  q_cookie :: "byte list option"
  q_id :: "byte list option"
  q_duration :: duration

type_synonym 's response = "'s api_state \<times> writer"

abbreviation reject :: "string \<Rightarrow> 's api_state \<Rightarrow> 's api_state" where
  "reject reason st \<equiv> st\<lparr>st_metrics := Reject reason (st_metrics st)\<rparr>"

abbreviation unavailable :: "request \<Rightarrow> string \<Rightarrow> writer \<Rightarrow> writer" where
  "unavailable r msg w \<equiv> writeError r 503 ''temporarily_unavailable'' msg w"

section \<open>Documents\<close>

fun poll_type_text :: "poll_type \<Rightarrow> string" where
  "poll_type_text SingleChoice = ''single_choice''"
| "poll_type_text MultipleChoice = ''multiple_choice''"
| "poll_type_text (OtherType s) = s"

definition poll_type_of :: "string \<Rightarrow> poll_type" where
  "poll_type_of s = (if s = ''single_choice'' then SingleChoice else if s = ''multiple_choice'' then MultipleChoice else OtherType s)"

fun status_text :: "poll_status \<Rightarrow> string" where
  "status_text Draft = ''draft''"
| "status_text Active = ''active''"
| "status_text Closed = ''closed''"

fun source_text :: "result_source \<Rightarrow> string" where
  "source_text redis_live = ''redis_live''"
| "source_text postgres_snapshot = ''postgres_snapshot''"
| "source_text postgres_final = ''postgres_final''"

definition option_json :: "opt \<Rightarrow> jval" where
  "option_json o' = VObj [(''id'', VStr (opt_ID o')), (''text'', VStr (opt_Text o'))]"

text \<open>The options of a stored poll are never a nil slice.\<close>

definition poll_json :: "poll \<Rightarrow> jval" where
  "poll_json p = VObj ([(''id'', VStr (ID p)), (''slug'', VStr (Slug p)), (''question'', VStr (Question p)),
     (''type'', VStr (poll_type_text (Type p))), (''max_choices'', VInt (MaxChoices p)), (''status'', VStr (status_text (Status p))),
     (''starts_at'', VTime (StartsAt p)), (''ends_at'', VTime (EndsAt p)),
     (''created_at'', VTime (CreatedAt p)), (''updated_at'', VTime (UpdatedAt p))] @
     (case PublishedAt p of None \<Rightarrow> [] | Some t \<Rightarrow> [(''published_at'', VTime t)]) @
     (case ClosedAt p of None \<Rightarrow> [] | Some t \<Rightarrow> [(''closed_at'', VTime t)]) @
     [(''options'', VArr (map option_json (Options p)))])"

definition public_poll_json :: "poll \<Rightarrow> jval" where
  "public_poll_json p = VObj [(''id'', VStr (ID p)), (''slug'', VStr (Slug p)), (''question'', VStr (Question p)),
     (''type'', VStr (poll_type_text (Type p))), (''max_choices'', VInt (MaxChoices p)), (''ends_at'', VTime (EndsAt p)),
     (''options'', VArr (map option_json (Options p)))]"

text \<open>\<open>float64(count) * 100 / float64(participants)\<close>.\<close>

definition participant_percent :: "int \<Rightarrow> int \<Rightarrow> rat" where
  "participant_percent n participants =
     (if participants > 0
      then float_round (float_round (float_round (of_int n) * 100) / float_round (of_int participants)) else 0)"

record option_result =
  or'_ID :: string
  or'_Text :: string
  or'_Count :: int
  or'_Percent :: rat

record results_response =
  rs_PollID :: string
  rs_Status :: poll_status
  rs_Source :: result_source
  rs_AsOf :: time
  rs_Participants :: int
  rs_Options :: "option_result list"
  rs_FinalizationPending :: bool

definition resultResponse :: "poll \<Rightarrow> poll_result \<Rightarrow> results_response" where
  "resultResponse p r = \<lparr>rs_PollID = ID p, rs_Status = res_Status r, rs_Source = res_Source r, rs_AsOf = res_AsOf r,
     rs_Participants = res_Participants r,
     rs_Options = map (\<lambda>o'. \<lparr>or'_ID = opt_ID o', or'_Text = opt_Text o', or'_Count = map_get (res_Options r) (opt_ID o'),
         or'_Percent = participant_percent (map_get (res_Options r) (opt_ID o')) (res_Participants r)\<rparr>) (Options p),
     rs_FinalizationPending = False\<rparr>"

definition results_json :: "results_response \<Rightarrow> jval" where
  "results_json x = VObj ([(''poll_id'', VStr (rs_PollID x)), (''status'', VStr (status_text (rs_Status x))),
     (''source'', VStr (source_text (rs_Source x))), (''as_of'', VTime (rs_AsOf x)), (''participants_count'', VInt (rs_Participants x)),
     (''options'', if rs_Options x = [] then VNull else VArr (map (\<lambda>o'. VObj [(''id'', VStr (or'_ID o')), (''text'', VStr (or'_Text o')),
        (''count'', VInt (or'_Count o')), (''participant_percent'', VFloat (or'_Percent o'))]) (rs_Options x)))] @
     (if rs_FinalizationPending x then [(''finalization_pending'', VBool True)] else []))"

section \<open>Admin handlers\<close>

definition defaultPollListLimit :: int where "defaultPollListLimit = 50"
definition maxPollListLimit :: int where "maxPollListLimit = 100"

definition listPolls :: "'s api \<Rightarrow> request \<Rightarrow> 's response \<Rightarrow> 's response" where
  "listPolls A r sw =
     (let (st, w) = sw; raw = query_get ''limit'' (rq_RawQuery r) in
      case (if raw = [] then Some defaultPollListLimit
            else case parse_int64 raw of None \<Rightarrow> None
              | Some n \<Rightarrow> if n < 1 \<or> n > maxPollListLimit then None else Some n) of
        None \<Rightarrow> (st, writeError r 400 ''invalid_request'' ''limit must be between 1 and 100'' w)
      | Some limit \<Rightarrow>
        (case a_ListRecent (api_polls A) (nat limit) (st_svc st) of
           (s, Inl e) \<Rightarrow> (st\<lparr>st_svc := s\<rparr>, handleDomainError r e w)
         | (s, Inr ps) \<Rightarrow> (st\<lparr>st_svc := s\<rparr>, writeJSON 200 (VObj [(''polls'', VArr (map poll_json ps))]) w)))"

record create_request =
  cr_Question :: string
  cr_Type :: string
  cr_MaxChoices :: int
  cr_StartsAt :: time
  cr_EndsAt :: time
  cr_Options :: "string list \<times> nat"

text \<open>Go's zero time: the first instant of year 1.\<close>

definition zero_time :: time where
  "zero_time = days_from_civil 1 1 1 * 86400 * 1000000000"

definition zero_create :: create_request where
  "zero_create = \<lparr>cr_Question = [], cr_Type = [], cr_MaxChoices = 0, cr_StartsAt = zero_time, cr_EndsAt = zero_time, cr_Options = ([], 0)\<rparr>"

definition decode_text :: "string \<Rightarrow> json \<Rightarrow> string option" where
  "decode_text x v = decode_struct [''text''] (\<lambda>f. decode_string) v x"

definition put_create :: "string \<Rightarrow> json \<Rightarrow> create_request \<Rightarrow> create_request option" where
  "put_create f v x =
     (if f = ''question'' then map_option (\<lambda>y. x\<lparr>cr_Question := y\<rparr>) (decode_string v (cr_Question x))
      else if f = ''type'' then map_option (\<lambda>y. x\<lparr>cr_Type := y\<rparr>) (decode_string v (cr_Type x))
      else if f = ''max_choices'' then map_option (\<lambda>y. x\<lparr>cr_MaxChoices := y\<rparr>) (decode_int v (cr_MaxChoices x))
      else if f = ''starts_at'' then map_option (\<lambda>y. x\<lparr>cr_StartsAt := y\<rparr>) (decode_time v (cr_StartsAt x))
      else if f = ''ends_at'' then map_option (\<lambda>y. x\<lparr>cr_EndsAt := y\<rparr>) (decode_time v (cr_EndsAt x))
      else map_option (\<lambda>y. x\<lparr>cr_Options := y\<rparr>) (decode_slice decode_text [] v (cr_Options x)))"

definition createRequest :: "json \<Rightarrow> create_request \<Rightarrow> create_request option" where
  "createRequest = decode_struct [''question'', ''type'', ''max_choices'', ''starts_at'', ''ends_at'', ''options''] put_create"

definition createPoll :: "'s api \<Rightarrow> request \<Rightarrow> 's response \<Rightarrow> 's response" where
  "createPoll A r sw =
     (let (st, w) = sw; (w1, is_json) = requireJSON r w in
      if \<not> is_json then (st, w1)
      else (case decodeJSON r createRequest zero_create of
         None \<Rightarrow> (st, writeError r 400 ''invalid_request'' ''invalid JSON body'' w1)
       | Some req \<Rightarrow>
         (case a_Create (api_polls A)
                 \<lparr>in_Question = cr_Question req, in_Type = poll_type_of (cr_Type req), in_MaxChoices = cr_MaxChoices req,
                  in_StartsAt = cr_StartsAt req, in_EndsAt = cr_EndsAt req, in_Options = slice_of (cr_Options req)\<rparr> (st_svc st) of
            (s, Inl e) \<Rightarrow> (st\<lparr>st_svc := s\<rparr>, handleDomainError r e w1)
          | (s, Inr p) \<Rightarrow> (st\<lparr>st_svc := s\<rparr>, writeJSON 201 (poll_json p) w1))))"

text \<open>The three handlers that take a poll ID.\<close>

abbreviation invalid_poll_id :: "request \<Rightarrow> writer \<Rightarrow> writer" where
  "invalid_poll_id r w \<equiv> writeError r 400 ''invalid_request'' ''invalid poll id'' w"

definition publishPoll :: "'s api \<Rightarrow> request \<Rightarrow> string \<Rightarrow> 's response \<Rightarrow> 's response" where
  "publishPoll A r i sw =
     (let (st, w) = sw in
      if \<not> IsUUID i then (st, invalid_poll_id r w)
      else (case a_Publish (api_polls A) i (st_svc st) of
         (s, Inl e) \<Rightarrow> (st\<lparr>st_svc := s\<rparr>, handleDomainError r e w)
       | (s, Inr p) \<Rightarrow> (st\<lparr>st_svc := s\<rparr>, writeJSON 200 (poll_json p) w)))"

definition closePoll :: "'s api \<Rightarrow> request \<Rightarrow> string \<Rightarrow> 's response \<Rightarrow> 's response" where
  "closePoll A r i sw =
     (let (st, w) = sw in
      if \<not> IsUUID i then (st, invalid_poll_id r w)
      else (case a_Close (api_results A) i (st_svc st) of
         (s, Inl e) \<Rightarrow> (st\<lparr>st_svc := s\<rparr>, handleDomainError r e w)
       | (s, Inr (p, res)) \<Rightarrow> (st\<lparr>st_svc := s\<rparr>, writeJSON 200 (results_json (resultResponse p res)) w)))"

definition resultsPoll :: "'s api \<Rightarrow> request \<Rightarrow> string \<Rightarrow> 's response \<Rightarrow> 's response" where
  "resultsPoll A r i sw =
     (let (st, w) = sw in
      if \<not> IsUUID i then (st, invalid_poll_id r w)
      else (case a_Results (api_results A) i (st_svc st) of
         (s, Inl e) \<Rightarrow> (st\<lparr>st_svc := s\<rparr>, handleDomainError r e w)
       | (s, Inr (p, res)) \<Rightarrow> (st\<lparr>st_svc := s\<rparr>, writeJSON 200 (results_json (resultResponse p res)) w)))"

section \<open>QR codes\<close>

definition send_svg :: "poll \<Rightarrow> string \<Rightarrow> writer \<Rightarrow> writer" where
  "send_svg p svg w =
     Write (Text svg) (WriteHeader 200 (set_header ''Cache-Control'' ''private, max-age=300''
       (set_header ''Content-Disposition'' (''inline; filename='' @ [CHR 0x22] @ Slug p @ ''.svg'' @ [CHR 0x22])
         (set_header ''Content-Type'' ''image/svg+xml; charset=utf-8'' w))))"

definition qrPoll :: "'s api \<Rightarrow> request \<Rightarrow> string \<Rightarrow> 's response \<Rightarrow> 's response" where
  "qrPoll A r i sw =
     (let (st, w) = sw in
      if \<not> IsUUID i then (st, invalid_poll_id r w)
      else (case a_GetByID (api_polls A) i (st_svc st) of
         (s, Inl e) \<Rightarrow> (st\<lparr>st_svc := s\<rparr>, handleDomainError r e w)
       | (s, Inr p) \<Rightarrow>
         (let st1 = st\<lparr>st_svc := s\<rparr> in
          if Status p = Draft then (st1, writeError r 409 ''invalid_transition'' ''publish the poll before generating its QR code'' w)
          else (let url = api_publicBaseURL A @ ''/p/'' @ PathEscape (Slug p) in
            case st_qr st url of
              Some svg \<Rightarrow> (st1, send_svg p svg w)
            | None \<Rightarrow>
              (case api_qr A of
                 None \<Rightarrow> (st1, unavailable r ''QR generator unavailable'' w)
               | Some generate \<Rightarrow>
                 (case generate url of
                    Inl e \<Rightarrow> (st1, unavailable r ''QR generation failed'' w)
                  | Inr svg \<Rightarrow> (st1\<lparr>st_qr := (st_qr st)(url \<mapsto> svg)\<rparr>, send_svg p svg w)))))))"

section \<open>Public handlers\<close>

definition api_device :: "'s api \<Rightarrow> request_env \<Rightarrow> request \<Rightarrow> err + string \<times> cookie option" where
  "api_device A q r = DeviceID (api_cookies A) (q_now q) (q_cookie q) (request_cookie CookieName (header_values r ''Cookie''))"

abbreviation set_device_cookie :: "cookie option \<Rightarrow> writer \<Rightarrow> writer" where
  "set_device_cookie c w \<equiv> (case c of None \<Rightarrow> w | Some k \<Rightarrow> SetCookie k w)"

definition getPoll :: "'s api \<Rightarrow> request_env \<Rightarrow> request \<Rightarrow> string \<Rightarrow> 's response \<Rightarrow> 's response" where
  "getPoll A q r slug sw =
     (let (st, w) = sw in
      case a_PublicBySlug (api_polls A) slug (q_now q) (st_svc st) of
        (s, Inl e) \<Rightarrow> (st\<lparr>st_svc := s\<rparr>, handleDomainError r e w)
      | (s, Inr p) \<Rightarrow>
        (st\<lparr>st_svc := s\<rparr>,
         (case api_device A q r of
            Inl e \<Rightarrow> unavailable r ''service is temporarily unavailable'' w
          | Inr (device, c) \<Rightarrow> writeJSON 200 (public_poll_json p) (set_device_cookie c w))))"

text \<open>The body of a vote, and the loop that looks at its option IDs: the error message of the first bad one.\<close>

definition voteRequest :: "json \<Rightarrow> string list \<times> nat \<Rightarrow> (string list \<times> nat) option" where
  "voteRequest = decode_struct [''option_ids''] (\<lambda>f. decode_slice (\<lambda>x v. decode_string v x) [])"

fun bad_option :: "string set \<Rightarrow> string list \<Rightarrow> string option" where
  "bad_option seen [] = None"
| "bad_option seen (i # ids) =
     (if \<not> IsUUID i then Some ''option_ids must contain UUIDs''
      else if i \<in> seen then Some ''option_ids must be unique''
      else bad_option (insert i seen) ids)"

definition voteRejectionReason :: "err \<Rightarrow> string" where
  "voteRejectionReason e =
     (if errors_is e ErrNotActive then ''not_active''
      else if errors_is e ErrNotFound then ''not_found''
      else if errors_is e ErrInvalidSelection then ''invalid_selection''
      else ''dependency_error'')"

fun vote_status_text :: "vote_status \<Rightarrow> string" where
  "vote_status_text VoteRecorded = ''recorded''"
| "vote_status_text VoteAlreadyRecorded = ''already_recorded''"

definition network_key :: "'s api \<Rightarrow> request \<Rightarrow> string" where
  "network_key A r = NetworkHash (rq_RemoteAddr r) (header_get r ''X-Forwarded-For'') (api_dedupKey A) (api_trustedProxies A)"

text \<open>From the vote of the service on.\<close>

definition send_vote :: "request \<Rightarrow> cookie option \<Rightarrow> err + vote_status \<Rightarrow> 's response \<Rightarrow> 's response" where
  "send_vote r c y sw =
     (let (st, w) = sw in
      case y of
        Inl e \<Rightarrow> (reject (voteRejectionReason e) st, handleDomainError r e w)
      | Inr status \<Rightarrow>
        (let w1 = set_device_cookie c w; doc = VObj [(''status'', VStr (vote_status_text status))] in
         if status = VoteAlreadyRecorded
         then (st\<lparr>st_metrics := count_duplicate (st_metrics st)\<rparr>, writeJSON 200 doc w1)
         else (st\<lparr>st_metrics := count_recorded (st_metrics st)\<rparr>, writeJSON 201 doc w1)))"

definition vote_body :: "'s api \<Rightarrow> request_env \<Rightarrow> request \<Rightarrow> string \<Rightarrow> string list \<Rightarrow> 's response \<Rightarrow> 's response" where
  "vote_body A q r i ids sw =
     (let (st, w) = sw in
      case a_AllowRate (api_rate A) (network_key A r) (api_rateLimit A) (st_svc st) of
        (s, Inl e) \<Rightarrow> (reject ''dependency_error'' (st\<lparr>st_svc := s\<rparr>), unavailable r ''service is temporarily unavailable'' w)
      | (s, Inr allowed) \<Rightarrow>
        (let st1 = st\<lparr>st_svc := s\<rparr> in
         if \<not> allowed then (reject ''rate_limited'' st1, writeError r 429 ''rate_limited'' ''rate limit exceeded'' (set_header ''Retry-After'' ''60'' w))
         else (case api_device A q r of
            Inl e \<Rightarrow> (reject ''identity_error'' st1, unavailable r ''service is temporarily unavailable'' w)
          | Inr (device, c) \<Rightarrow>
            (let (s', y) = api_votes A i device ids (q_now q) s in send_vote r c y (st1\<lparr>st_svc := s'\<rparr>, w)))))"

definition vote :: "'s api \<Rightarrow> request_env \<Rightarrow> request \<Rightarrow> string \<Rightarrow> 's response \<Rightarrow> 's response" where
  "vote A q r i sw =
     (let (st, w) = sw in
      if \<not> IsUUID i then (reject ''validation'' st, invalid_poll_id r w)
      else (let (w1, is_json) = requireJSON r w in
        if \<not> is_json then (reject ''content_type'' st, w1)
        else (case decodeJSON r voteRequest ([], 0) of
           None \<Rightarrow> (reject ''invalid_json'' st, writeError r 400 ''invalid_request'' ''invalid JSON body'' w1)
         | Some req \<Rightarrow>
           (case bad_option {} (slice_of req) of
              Some msg \<Rightarrow> (reject ''validation'' st, writeError r 400 ''invalid_request'' msg w1)
            | None \<Rightarrow> vote_body A q r i (slice_of req) (st, w1)))))"

section \<open>Health checks and pages\<close>

definition live :: "writer \<Rightarrow> writer" where
  "live w = writeJSON 200 (VObj [(''status'', VStr ''ok'')]) w"

definition ready :: "'s api \<Rightarrow> request \<Rightarrow> 's response \<Rightarrow> 's response" where
  "ready A r sw =
     (let (st, w) = sw in
      case api_PingDB A (st_svc st) of
        (s, Some e) \<Rightarrow> (st\<lparr>st_svc := s\<rparr>, writeError r 503 ''not_ready'' ''database unavailable'' w)
      | (s, None) \<Rightarrow>
        (case a_Ping (api_rate A) s of
           (s', Some e) \<Rightarrow> (st\<lparr>st_svc := s'\<rparr>, writeError r 503 ''not_ready'' ''redis unavailable'' w)
         | (s', None) \<Rightarrow> (st\<lparr>st_svc := s'\<rparr>, writeJSON 200 (VObj [(''status'', VStr ''ready'')]) w)))"

definition home :: "request \<Rightarrow> writer \<Rightarrow> writer" where
  "home r w = http_Redirect r ''/admin'' 302 ''Found'' w"

definition serveEmbedded :: "'s api \<Rightarrow> string \<Rightarrow> string \<Rightarrow> string \<Rightarrow> writer \<Rightarrow> writer" where
  "serveEmbedded A name contentType cacheControl w =
     (case api_files A name of
        None \<Rightarrow> http_Error ''asset unavailable'' 500 w
      | Some data \<Rightarrow> Write (Text data) (WriteHeader 200 (set_header ''Cache-Control'' cacheControl (set_header ''Content-Type'' contentType w))))"

definition pollPage :: "'s api \<Rightarrow> writer \<Rightarrow> writer" where
  "pollPage A w = serveEmbedded A ''web/templates/poll.html'' ''text/html; charset=utf-8'' ''no-store'' w"

definition adminPage :: "'s api \<Rightarrow> writer \<Rightarrow> writer" where
  "adminPage A w = Write (Text (api_page A (api_publicBaseURL A)))
     (set_header ''Cache-Control'' ''no-store'' (set_header ''Content-Type'' ''text/html; charset=utf-8'' w))"

definition staticAsset :: "'s api \<Rightarrow> string \<Rightarrow> writer \<Rightarrow> writer" where
  "staticAsset A name w =
     (let serve = (\<lambda>contentType. serveEmbedded A (''web/static/'' @ name) contentType ''public, max-age=31536000, immutable'' w) in
      if name = ''app.css'' then serve ''text/css; charset=utf-8''
      else if has_suffix name ''.js'' \<and> (name = ''poll.js'' \<or> name = ''admin.js'') then serve ''text/javascript; charset=utf-8''
      else http_NotFound w)"

definition openAPISpec :: "'s api \<Rightarrow> writer \<Rightarrow> writer" where
  "openAPISpec A w = Write (Text (api_spec A)) (WriteHeader 200
     (set_header ''Cache-Control'' ''public, max-age=300'' (set_header ''Content-Type'' ''application/yaml; charset=utf-8'' w)))"

end
