(* ===== verification/Http_Router.thy ===== *)
theory Http_Router
  imports Http_Handlers
begin

text \<open>
  middleware.go, the routes of router.go and the security headers of web.go: what a request does to the
  state and which response it gets.
\<close>

section \<open>Routes\<close>

datatype public_route = R_home | R_pollPage | R_adminPage | R_static | R_spec | R_live | R_ready | R_metrics
  | R_getPoll | R_vote | R_admin

datatype admin_route = R_list | R_create | R_publish | R_close | R_results | R_qr

definition route :: "string \<Rightarrow> pattern_seg list \<Rightarrow> 'h \<Rightarrow> 'h pattern" where
  "route m segs h = \<lparr>pat_method = Some m, pat_segs = segs, pat_multi = False, pat_handler = h\<rparr>"

abbreviation api_v1 :: "pattern_seg list \<Rightarrow> pattern_seg list" where
  "api_v1 segs \<equiv> Literal ''api'' # Literal ''v1'' # segs"

definition public_routes :: "public_route pattern list" where
  "public_routes = [
     route ''GET'' [Literal ''/''] R_home,
     route ''GET'' [Literal ''p'', Wildcard] R_pollPage,
     route ''GET'' [Literal ''admin''] R_adminPage,
     route ''GET'' [Literal ''static'', Wildcard] R_static,
     route ''GET'' [Literal ''openapi.yaml''] R_spec,
     route ''GET'' [Literal ''health'', Literal ''live''] R_live,
     route ''GET'' [Literal ''health'', Literal ''ready''] R_ready,
     route ''GET'' [Literal ''metrics''] R_metrics,
     route ''GET'' (api_v1 [Literal ''polls'', Wildcard]) R_getPoll,
     route ''POST'' (api_v1 [Literal ''polls'', Wildcard, Literal ''votes'']) R_vote,
     \<lparr>pat_method = None, pat_segs = api_v1 [Literal ''admin''], pat_multi = True, pat_handler = R_admin\<rparr>]"

definition admin_routes :: "admin_route pattern list" where
  "admin_routes = (let polls = (\<lambda>rest. api_v1 (Literal ''admin'' # Literal ''polls'' # rest)) in [
     route ''GET'' (polls []) R_list,
     route ''POST'' (polls []) R_create,
     route ''POST'' (polls [Wildcard, Literal ''publish'']) R_publish,
     route ''POST'' (polls [Wildcard, Literal ''close'']) R_close,
     route ''GET'' (polls [Wildcard, Literal ''results'']) R_results,
     route ''GET'' (polls [Wildcard, Literal ''qr.svg'']) R_qr])"

text \<open>\<open>ServeMux.ServeHTTP\<close>.\<close>

definition run_mux :: "'h pattern list \<Rightarrow> ('h \<Rightarrow> string list \<Rightarrow> 's response \<Rightarrow> 's response) \<Rightarrow> request \<Rightarrow> 's response \<Rightarrow> 's response" where
  "run_mux ps handle r sw =
     (case find_handler ps (rq_Method r) (rq_EscapedPath r) (rq_Path r) of
        Handled h vs \<Rightarrow> handle h vs sw
      | Moved p \<Rightarrow>
        (let url = path_text p @ (if rq_RawQuery r = [] then [] else CHR ''?'' # rq_RawQuery r)
         in (fst sw, http_Redirect r url 301 ''Moved Permanently'' (snd sw)))
      | Wrong_method ms \<Rightarrow>
        (fst sw, http_Error ''Method Not Allowed'' 405 (set_header ''Allow'' (drop 2 (concat (map (\<lambda>m. '', '' @ m) ms))) (snd sw)))
      | No_route \<Rightarrow> (fst sw, http_NotFound (snd sw)))"

section \<open>Middleware\<close>

text \<open>\<open>provided\<close> is the token of the request; equal hashes count as equal tokens.\<close>

definition provided :: "request \<Rightarrow> string" where
  "provided r = trim_prefix (header_get r ''Authorization'') ''Bearer ''"

definition authorised :: "string \<Rightarrow> request \<Rightarrow> bool" where
  "authorised token r \<longleftrightarrow> provided r \<noteq> [] \<and> sha256 (bytes_of token) = sha256 (bytes_of (provided r))"

definition adminAuth :: "string \<Rightarrow> (request \<Rightarrow> 's response \<Rightarrow> 's response) \<Rightarrow> request \<Rightarrow> 's response \<Rightarrow> 's response" where
  "adminAuth token next r sw =
     (if \<not> authorised token r
      then (fst sw, writeError r 401 ''unauthorized'' ''valid bearer token required'' (snd sw))
      else next r sw)"

definition content_security_policy :: string where
  "content_security_policy =
     (let self = CHR 0x27 # ''self'' @ [CHR 0x27]; none = CHR 0x27 # ''none'' @ [CHR 0x27] in
      ''default-src '' @ self @ ''; script-src '' @ self @ ''; style-src '' @ self @ ''; img-src '' @ self @ '' blob: data:; connect-src '' @ self @
      ''; object-src '' @ none @ ''; base-uri '' @ none @ ''; frame-ancestors '' @ none @ ''; form-action '' @ self)"

definition securityHeaders :: "(request \<Rightarrow> 's response \<Rightarrow> 's response) \<Rightarrow> request \<Rightarrow> 's response \<Rightarrow> 's response" where
  "securityHeaders next r sw =
     (let w1 = set_header ''Content-Security-Policy'' content_security_policy (snd sw);
          w2 = set_header ''X-Content-Type-Options'' ''nosniff'' w1;
          w3 = set_header ''Referrer-Policy'' ''no-referrer'' w2;
          w4 = set_header ''X-Frame-Options'' ''DENY'' w3
      in next r (fst sw, w4))"

text \<open>The route of a request in the logs and the metrics.\<close>

definition routePattern :: "request \<Rightarrow> string" where
  "routePattern r =
     (let p = rq_Path r; polls = ''/api/v1/admin/polls/'' in
      if has_prefix p polls \<and> has_suffix p ''/publish'' then ''/api/v1/admin/polls/{id}/publish''
      else if has_prefix p polls \<and> has_suffix p ''/close'' then ''/api/v1/admin/polls/{id}/close''
      else if has_prefix p polls \<and> has_suffix p ''/results'' then ''/api/v1/admin/polls/{id}/results''
      else if has_prefix p polls \<and> has_suffix p ''/qr.svg'' then ''/api/v1/admin/polls/{id}/qr.svg''
      else if p = ''/api/v1/admin/polls'' then p
      else if has_prefix p ''/api/v1/polls/'' \<and> has_suffix p ''/votes'' then ''/api/v1/polls/{id}/votes''
      else if has_prefix p ''/api/v1/polls/'' then ''/api/v1/polls/{slug}''
      else if has_prefix p ''/p/'' then ''/p/{slug}''
      else if has_prefix p ''/static/'' then ''/static/{name}''
      else if p \<in> {''/'', ''/admin'', ''/openapi.yaml'', ''/health/live'', ''/health/ready'', ''/metrics''} then p
      else ''/unmatched'')"

definition randomID :: "byte list option \<Rightarrow> string" where
  "randomID rnd = (case rnd of None \<Rightarrow> ''unknown'' | Some b \<Rightarrow> hex_encode b)"

text \<open>\<open>next\<close> also says whether it panicked, at the state and the response where it did.\<close>

definition middleware ::
  "(request \<Rightarrow> 's response \<Rightarrow> 's response \<times> bool) \<Rightarrow> request_env \<Rightarrow> request \<Rightarrow> 's api_state \<Rightarrow> 's response" where
  "middleware next q r st =
     (let given = header_get r ''X-Request-ID'';
          i = (if given = [] \<or> length given > 128 then randomID (q_id q) else given);
          r1 = r\<lparr>rq_ID := i\<rparr>;
          ((st1, w1), panicked) = next r1 (st, set_header ''X-Request-ID'' i new_writer);
          w2 = (if panicked \<and> w_status w1 = 0 then writeError r1 500 ''internal_error'' ''internal server error'' w1 else w1);
          status = (if w_status w2 = 0 then 200 else w_status w2)
      in (st1\<lparr>st_metrics := ObserveHTTP (routePattern r1) (rq_Method r1) status (q_duration q) (st_metrics st1)\<rparr>, w2))"

section \<open>The whole server\<close>

text \<open>The path value of a pattern with one wildcard.\<close>

abbreviation path_value :: "string list \<Rightarrow> string" where
  "path_value vs \<equiv> (case vs of [] \<Rightarrow> [] | v # _ \<Rightarrow> v)"

fun admin_handler :: "'s api \<Rightarrow> request \<Rightarrow> admin_route \<Rightarrow> string list \<Rightarrow> 's response \<Rightarrow> 's response" where
  "admin_handler A r R_list vs = listPolls A r"
| "admin_handler A r R_create vs = createPoll A r"
| "admin_handler A r R_publish vs = publishPoll A r (path_value vs)"
| "admin_handler A r R_close vs = closePoll A r (path_value vs)"
| "admin_handler A r R_results vs = resultsPoll A r (path_value vs)"
| "admin_handler A r R_qr vs = qrPoll A r (path_value vs)"

definition admin_mux :: "'s api \<Rightarrow> request \<Rightarrow> 's response \<Rightarrow> 's response" where
  "admin_mux A r = run_mux admin_routes (admin_handler A r) r"

fun public_handler :: "'s api \<Rightarrow> request_env \<Rightarrow> request \<Rightarrow> public_route \<Rightarrow> string list \<Rightarrow> 's response \<Rightarrow> 's response" where
  "public_handler A q r R_home vs sw = apsnd (home r) sw"
| "public_handler A q r R_pollPage vs sw = apsnd (pollPage A) sw"
| "public_handler A q r R_adminPage vs sw = apsnd (adminPage A) sw"
| "public_handler A q r R_static vs sw = apsnd (staticAsset A (path_value vs)) sw"
| "public_handler A q r R_spec vs sw = apsnd (openAPISpec A) sw"
| "public_handler A q r R_live vs sw = apsnd live sw"
| "public_handler A q r R_ready vs sw = ready A r sw"
| "public_handler A q r R_metrics vs sw = (fst sw, Metrics_ServeHTTP (q_now q) (st_metrics (fst sw)) (snd sw))"
| "public_handler A q r R_getPoll vs sw = getPoll A q r (path_value vs) sw"
| "public_handler A q r R_vote vs sw = vote A q r (path_value vs) sw"
| "public_handler A q r R_admin vs sw = adminAuth (api_adminToken A) (admin_mux A) r sw"

definition public_mux :: "'s api \<Rightarrow> request_env \<Rightarrow> request \<Rightarrow> 's response \<Rightarrow> 's response" where
  "public_mux A q r = run_mux public_routes (public_handler A q r) r"

definition NewRouter :: "'s api \<Rightarrow> request_env \<Rightarrow> request \<Rightarrow> 's api_state \<Rightarrow> 's response" where
  "NewRouter A q r st = middleware (\<lambda>r sw. (securityHeaders (public_mux A q) r sw, False)) q r st"

end
