(* ===== verification/Http_Routes.thy ===== *)
theory Http_Routes
  imports Http_Router
begin

text \<open>
  Which handler a path leads to, by the segments of the path; what the wrappers around a handler do to
  its response.
\<close>

section \<open>Paths by segments\<close>

definition seg_path :: "string list \<Rightarrow> string" where
  "seg_path xs = concat (map (\<lambda>x. CHR ''/'' # x) xs)"

lemma seg_path_simps [simp]: "seg_path [] = []" "seg_path (x # xs) = CHR ''/'' # x @ seg_path xs"
  by (simp_all add: seg_path_def)

definition plain_seg :: "string \<Rightarrow> bool" where
  "plain_seg x \<longleftrightarrow> x \<noteq> [] \<and> CHR ''/'' \<notin> set x \<and> x \<noteq> ''.'' \<and> x \<noteq> ''..''"

lemma split_seg_path:
  "list_all plain_seg xs \<Longrightarrow> CHR ''/'' \<notin> set y \<Longrightarrow> split (CHR ''/'') (y @ seg_path xs) = y # xs"
proof (induction xs arbitrary: y)
  case Nil
  then show ?case by (simp add: split_no_sep)
next
  case (Cons x xs)
  then show ?case by (simp add: split_append_sep plain_seg_def)
qed

lemma clean_segs_plain: "list_all plain_seg xs \<Longrightarrow> clean_segs acc xs = rev acc @ xs"
  by (induction xs arbitrary: acc) (auto simp: plain_seg_def)

lemma join_seg_path: "xs \<noteq> [] \<Longrightarrow> CHR ''/'' # join (CHR ''/'') xs = seg_path xs"
proof (induction xs)
  case (Cons x xs)
  then show ?case by (cases xs) auto
qed simp

lemma last_seg_path: "list_all plain_seg xs \<Longrightarrow> xs \<noteq> [] \<Longrightarrow> last (seg_path xs) \<noteq> CHR ''/''"
proof (induction xs)
  case (Cons x xs)
  show ?case
  proof (cases xs)
    case Nil
    then show ?thesis using Cons.prems by (auto simp: plain_seg_def dest: last_in_set)
  next
    case (Cons y ys)
    then show ?thesis using \<open>list_all plain_seg (x # xs)\<close> Cons.IH by simp
  qed
qed simp

lemma clean_seg_path [simp]:
  assumes "list_all plain_seg xs" and "xs \<noteq> []"
  shows "clean_path (seg_path xs) = seg_path xs"
proof -
  have "hd (seg_path xs) = CHR ''/''" "seg_path xs \<noteq> []" using assms(2) by (cases xs; simp)+
  moreover have "clean_segs [] (split (CHR ''/'') (seg_path xs)) = xs"
    using split_seg_path [OF assms(1), of "[]"] clean_segs_plain [OF assms(1), of "[]"] by simp
  ultimately show ?thesis
    using join_seg_path [OF assms(2)] last_seg_path [OF assms] by (simp add: clean_path_def Let_def)
qed

lemma first_seg_path [simp]:
  assumes "plain_seg x"
  shows "first_segment (CHR ''/'' # x @ seg_path xs) = (path_unescape x, seg_path xs)"
proof -
  have t: "CHR ''/'' \<notin> set x" "x \<noteq> []" using assms by (auto simp: plain_seg_def)
  have "takeWhile (\<lambda>c. c \<noteq> CHR ''/'') (x @ seg_path xs) = x" "dropWhile (\<lambda>c. c \<noteq> CHR ''/'') (x @ seg_path xs) = seg_path xs"
    using t(1) by (cases xs; auto simp: takeWhile_append dropWhile_append)+
  then show ?thesis using t(2) by (cases x) (simp_all add: first_segment_def before_def)
qed

lemma match_end:
  "match_path ps (seg_path []) found = map_option (\<lambda>(segs, pat). (pat, found)) (find (\<lambda>(segs, pat). segs = [] \<and> \<not> pat_multi pat) ps)"
  by (simp add: match_path.simps)

lemma match_seg:
  assumes "plain_seg x"
  shows "match_path ps (seg_path (x # xs)) found =
    (case match_path (descend (Literal (path_unescape x)) ps) (seg_path xs) found of
       Some y \<Rightarrow> Some y
     | None \<Rightarrow>
       (case (if path_unescape x = ''/'' then None else match_path (descend Wildcard ps) (seg_path xs) (found @ [path_unescape x])) of
          Some y \<Rightarrow> Some y
        | None \<Rightarrow> map_option (\<lambda>(segs, pat). (pat, found)) (find (\<lambda>(segs, pat). segs = [] \<and> pat_multi pat) ps)))"
  by (subst match_path.simps) (simp add: assms)

declare seg_path_simps [simp del]

lemma match_none: "match_path [] p found = None"
proof (induction p arbitrary: found rule: length_induct)
  case (1 p)
  then show ?case
    using first_segment_shorter [of p] by (subst match_path.simps) (auto simp: descend_def split: prod.split)
qed

text \<open>A text without a percent sign is its own unescaping.\<close>

lemma url_unescape_plain: "CHR ''%'' \<notin> set s \<Longrightarrow> url_unescape False s = Some s"
  by (induction False s rule: url_unescape.induct) auto

lemma path_unescape_plain: "CHR ''%'' \<notin> set s \<Longrightarrow> path_unescape s = s"
  by (simp add: path_unescape_def url_unescape_plain)

lemma plain_seg_literals [simp]:
  "plain_seg ''api''" "plain_seg ''v1''" "plain_seg ''polls''" "plain_seg ''votes''" "plain_seg ''admin''"
  "plain_seg ''publish''" "plain_seg ''close''" "plain_seg ''results''" "plain_seg ''qr.svg''"
  by (simp_all add: plain_seg_def)

lemma unescape_literals [simp]:
  "path_unescape ''api'' = ''api''" "path_unescape ''v1'' = ''v1''" "path_unescape ''polls'' = ''polls''" "path_unescape ''votes'' = ''votes''"
  "path_unescape ''admin'' = ''admin''" "path_unescape ''publish'' = ''publish''" "path_unescape ''close'' = ''close''"
  "path_unescape ''results'' = ''results''" "path_unescape ''qr.svg'' = ''qr.svg''"
  by (simp_all add: path_unescape_plain)

section \<open>The routes of the API\<close>

lemmas mux_defs = find_handler_def mux_match_def match_method_def exact_match_def public_routes_def admin_routes_def route_def
  match_seg match_end match_none descend_def Let_def

lemma vote_route:
  assumes "plain_seg i" and "path_unescape i = i" and "i \<noteq> ''/''"
  shows "find_handler public_routes ''POST'' (seg_path [''api'', ''v1'', ''polls'', i, ''votes'']) p = Handled R_vote [i]"
proof -
  let ?p = "seg_path [''api'', ''v1'', ''polls'', i, ''votes'']"
  have c: "clean_path ?p = ?p" using assms by (intro clean_seg_path) simp_all
  have m: "mux_match public_routes ''POST'' ?p = Some (route ''POST'' (api_v1 [Literal ''polls'', Wildcard, Literal ''votes'']) R_vote, [i])"
    using assms by (simp add: mux_match_def match_method_def public_routes_def route_def match_seg match_end match_none descend_def)
  show ?thesis unfolding find_handler_def Let_def c m by (simp add: exact_match_def route_def)
qed

end
