(* ===== verification/Http_Labels.thy ===== *)
theory Http_Labels
  imports Http_Routes
begin

text \<open>
  What holds of every response of the router, whatever the handler: it is sent, with the headers of the
  wrappers and a status from a fixed set, and an error is an error envelope with the ID of the
  request or a plain text.
\<close>

section \<open>Responses\<close>

definition statuses :: "int set" where
  "statuses = {200, 201, 301, 302, 400, 401, 404, 405, 409, 415, 422, 429, 500, 503}"

definition labelled :: "string \<Rightarrow> (string \<rightharpoonup> string) \<Rightarrow> bool" where
  "labelled i h \<longleftrightarrow> h ''X-Request-ID'' = Some i \<and> h ''Content-Security-Policy'' = Some content_security_policy \<and>
     h ''X-Content-Type-Options'' = Some ''nosniff'' \<and> h ''Referrer-Policy'' = Some ''no-referrer'' \<and> h ''X-Frame-Options'' = Some ''DENY''"

definition unsent :: "string \<Rightarrow> writer \<Rightarrow> bool" where
  "unsent i w \<longleftrightarrow> labelled i (w_header w) \<and> w_sent w = None \<and> w_status w = 0 \<and> w_body w = []"

definition answered :: "string \<Rightarrow> writer \<Rightarrow> bool" where
  "answered i w \<longleftrightarrow> (\<exists>h cs. w_sent w = Some (w_status w, h, cs) \<and> labelled i h \<and> w_status w \<in> statuses \<and>
     (400 \<le> w_status w \<longrightarrow> (\<exists>c m. w_body w = [Json (errorEnvelope c m i)]) \<or> (\<exists>t. w_body w = [Text t])))"

named_theorems answers \<open>responses of the handlers\<close>

lemma unsent_set_header [answers]:
  "k \<notin> {''X-Request-ID'', ''Content-Security-Policy'', ''X-Content-Type-Options'', ''Referrer-Policy'', ''X-Frame-Options''} \<Longrightarrow>
   unsent i w \<Longrightarrow> unsent i (set_header k v w)"
  by (auto simp: unsent_def labelled_def set_header_def)

lemma unsent_nosniff [answers]: "unsent i w \<Longrightarrow> unsent i (set_header ''X-Content-Type-Options'' ''nosniff'' w)"
  by (simp add: unsent_def labelled_def set_header_def)

lemma unsent_SetCookie [answers]: "unsent i w \<Longrightarrow> unsent i (SetCookie c w)"
  by (simp add: unsent_def SetCookie_def)

lemma answered_header [answers]:
  "unsent i w \<Longrightarrow> code \<in> statuses \<Longrightarrow> code < 400 \<Longrightarrow> answered i (WriteHeader code w)"
  by (simp add: unsent_def answered_def WriteHeader_def)

lemma answered_Text [answers]:
  "unsent i w \<Longrightarrow> code \<in> statuses \<Longrightarrow> answered i (Write (Text t) (WriteHeader code w))"
  by (auto simp: unsent_def answered_def WriteHeader_def Write_def statuses_def)

lemma answered_Write [answers]: "unsent i w \<Longrightarrow> answered i (Write b w)"
  by (auto simp: unsent_def answered_def WriteHeader_def Write_def statuses_def)

lemma answered_more: "answered i w \<Longrightarrow> w_status w = 200 \<Longrightarrow> answered i (Write b w) \<and> w_status (Write b w) = 200"
  by (simp add: answered_def Write_def)

lemma answered_writeJSON [answers]:
  "unsent i w \<Longrightarrow> code \<in> {200, 201} \<Longrightarrow> answered i (writeJSON code v w)"
  using unsent_set_header [of "''Content-Type''" i w]
  by (auto simp: unsent_def answered_def writeJSON_def WriteHeader_def Write_def statuses_def Let_def)

lemma answered_writeError [answers]:
  "unsent i w \<Longrightarrow> code \<in> statuses \<Longrightarrow> rq_ID r = i \<Longrightarrow> answered i (writeError r code c m w)"
  using unsent_set_header [of "''Content-Type''" i w]
  by (auto simp: unsent_def answered_def writeError_def writeJSON_def WriteHeader_def Write_def statuses_def Let_def errorEnvelope_def)

lemma answered_domain [answers]: "unsent i w \<Longrightarrow> rq_ID r = i \<Longrightarrow> answered i (handleDomainError r e w)"
  by (simp add: handleDomainError_def answered_writeError statuses_def)

lemma answered_http_Error [answers]: "unsent i w \<Longrightarrow> code \<in> statuses \<Longrightarrow> answered i (http_Error m code w)"
  by (simp add: http_Error_def answers)

lemma answered_redirect [answers]: "unsent i w \<Longrightarrow> code \<in> {301, 302} \<Longrightarrow> answered i (http_Redirect r u code p w)"
  by (auto simp: http_Redirect_def Let_def statuses_def answers)

lemma requireJSON_answers [answers]:
  "unsent i w \<Longrightarrow> snd (requireJSON r w) \<Longrightarrow> unsent i (fst (requireJSON r w))"
  "unsent i w \<Longrightarrow> rq_ID r = i \<Longrightarrow> \<not> snd (requireJSON r w) \<Longrightarrow> answered i (fst (requireJSON r w))"
  by (auto simp: requireJSON_def answers statuses_def split: if_splits)

section \<open>Handlers\<close>

text \<open>A handler that answers, and leaves the request counters alone.\<close>

definition serves :: "string \<Rightarrow> 's response \<Rightarrow> 's response \<Rightarrow> bool" where
  "serves i sw sw' \<longleftrightarrow> (unsent i (snd sw) \<longrightarrow> answered i (snd sw')) \<and>
     m_requests (st_metrics (fst sw')) = m_requests (st_metrics (fst sw)) \<and> m_durations (st_metrics (fst sw')) = m_durations (st_metrics (fst sw))"

lemma metric_frames [simp]:
  "m_requests (Reject reason m) = m_requests m" "m_durations (Reject reason m) = m_durations m"
  "m_requests (count_recorded m) = m_requests m" "m_durations (count_recorded m) = m_durations m"
  "m_requests (count_duplicate m) = m_requests m" "m_durations (count_duplicate m) = m_durations m"
  by (simp_all add: Reject_def count_recorded_def count_duplicate_def)

lemma status_in [simp]:
  "200 \<in> statuses" "201 \<in> statuses" "301 \<in> statuses" "302 \<in> statuses" "400 \<in> statuses" "401 \<in> statuses" "404 \<in> statuses"
  "405 \<in> statuses" "409 \<in> statuses" "415 \<in> statuses" "422 \<in> statuses" "429 \<in> statuses" "500 \<in> statuses" "503 \<in> statuses"
  by (simp_all add: statuses_def)

lemma admin_serves:
  assumes "rq_ID r = i"
  shows "serves i sw (admin_handler A r h vs sw)"
proof (cases h)
  case R_create
  then show ?thesis using assms
    by (auto simp: serves_def createPoll_def Let_def split_beta answers split: prod.splits sum.splits option.splits)
next
  case R_qr
  then show ?thesis using assms
    by (auto simp: serves_def qrPoll_def send_svg_def Let_def split_beta answers split: prod.splits sum.splits option.splits)
qed (use assms in \<open>auto simp: serves_def listPolls_def publishPoll_def closePoll_def resultsPoll_def Let_def answers
    split: prod.splits sum.splits option.splits\<close>)

lemma metrics_page_answers [answers]:
  "unsent i w \<Longrightarrow> answered i (Metrics_ServeHTTP now m w)"
proof -
  have more: "answered i w \<Longrightarrow> w_status w = 200 \<Longrightarrow> answered i (foldl (\<lambda>w l. Write (Text (l @ [CHR 0x0A])) w) w ls)" for w ls
    by (induction ls arbitrary: w) (simp_all add: answered_more)
  assume "unsent i w"
  then have w1: "unsent i (set_header ''Content-Type'' t w)" for t by (simp add: answers)
  obtain l ls where "metrics_lines now m = l # ls" by (simp add: metrics_lines_def)
  moreover have "w_status (Write b (set_header ''Content-Type'' t w)) = 200" for b t
    using w1 [of t] by (simp add: unsent_def Write_def WriteHeader_def)
  ultimately show ?thesis using w1 by (simp add: Metrics_ServeHTTP_def more answered_Write)
qed

lemma public_serves:
  assumes "rq_ID r = i" and "h \<noteq> R_admin"
  shows "serves i sw (public_handler A q r h vs sw)"
proof (cases h)
  case R_vote
  have "serves i (st, w) (vote_body A q r v ids (st, w))" for st w v ids
    using assms(1)
    by (auto simp: serves_def vote_body_def send_vote_def Let_def answers split: prod.splits sum.splits option.splits)
  then show ?thesis using assms(1) R_vote
    by (auto simp: serves_def vote_def Let_def split_beta answers split: option.splits)
next
  case R_admin
  then show ?thesis using assms(2) by simp
qed (use assms(1) in \<open>auto simp: serves_def getPoll_def ready_def live_def home_def pollPage_def adminPage_def staticAsset_def openAPISpec_def
    serveEmbedded_def http_NotFound_def Let_def answers split: prod.splits sum.splits option.splits\<close>)

lemma run_mux_serves:
  assumes "\<And>h vs. serves i sw (handle h vs sw)"
  shows "serves i sw (run_mux ps handle r sw)"
  using assms by (auto simp: run_mux_def serves_def http_NotFound_def Let_def answers split: routed.splits)

lemma router_serves:
  assumes "rq_ID r = i"
  shows "serves i sw (public_mux A q r sw)"
proof -
  have "serves i sw (admin_mux A r sw)"
    unfolding admin_mux_def by (intro run_mux_serves admin_serves assms)
  then have "serves i sw (public_handler A q r R_admin vs sw)" for vs
    using assms by (auto simp: adminAuth_def serves_def answers)
  then show ?thesis
    unfolding public_mux_def by (intro run_mux_serves) (metis public_serves [OF assms])
qed

text \<open>The request ID: the client's, or a new one.\<close>

definition request_id :: "request_env \<Rightarrow> request \<Rightarrow> string" where
  "request_id q r = (let given = header_get r ''X-Request-ID'' in
     if given = [] \<or> length given > 128 then randomID (q_id q) else given)"

text \<open>The router without its wrappers: \<open>w0\<close> has the headers, the request has its ID, and the status is counted.\<close>

lemma NewRouter_sends:
  obtains w0 where "unsent (request_id q r) w0" and
    "NewRouter A q r st = (let (st1, w1) = public_mux A q (r\<lparr>rq_ID := request_id q r\<rparr>) (st, w0) in
       (st1\<lparr>st_metrics := ObserveHTTP (routePattern r) (rq_Method r) (w_status w1) (q_duration q) (st_metrics st1)\<rparr>, w1))"
proof -
  let ?i = "request_id q r"
  let ?r = "r\<lparr>rq_ID := ?i\<rparr>"
  define sw where "sw = securityHeaders (public_mux A q) ?r (st, set_header ''X-Request-ID'' ?i new_writer)"
  obtain w0 where w0: "sw = public_mux A q ?r (st, w0)" "unsent ?i w0"
    by (simp add: sw_def securityHeaders_def Let_def unsent_def labelled_def set_header_def new_writer_def)
  have "rq_ID ?r = ?i" by simp
  from router_serves [OF this, of "(st, w0)" A q] w0 have "answered ?i (snd sw)" by (simp add: serves_def)
  then have "w_status (snd sw) \<noteq> 0" by (auto simp: answered_def statuses_def)
  moreover have "routePattern ?r = routePattern r" "rq_Method ?r = rq_Method r" by (simp_all add: routePattern_def)
  ultimately have "NewRouter A q r st = (let (st1, w1) = sw in
       (st1\<lparr>st_metrics := ObserveHTTP (routePattern r) (rq_Method r) (w_status w1) (q_duration q) (st_metrics st1)\<rparr>, w1))"
    by (simp add: NewRouter_def middleware_def Let_def split_beta sw_def request_id_def)
  with w0 show ?thesis by (intro that) simp_all
qed

section \<open>Claims\<close>


text \<open>After a panic before anything was sent, the response is an internal error.\<close>

lemma panic_is_internal_error:
  assumes "next (r\<lparr>rq_ID := request_id q r\<rparr>) (st, set_header ''X-Request-ID'' (request_id q r) new_writer) = ((st1, w1), True)"
    and "w_status w1 = 0"
  shows "w_status (snd (middleware next q r st)) = 500"
    and "st_svc (fst (middleware next q r st)) = st_svc st1"
  using assms by (simp_all add: middleware_def request_id_def Let_def split_beta writer_simps)

end
