(* ===== verification/Http_Votes.thy ===== *)
theory Http_Votes
  imports Http_Labels Service_Vote
begin

text \<open>
  A vote as a request: from the path and the body through the handler to the ballots. The locale states
  what the handler asks of the rate limiter and of the vote service; the theory of the process
  interprets it on the services as main wires them.
\<close>

section \<open>The request\<close>

lemma IsUUID_plain:
  assumes "IsUUID i"
  shows "plain_seg i" and "path_unescape i = i" and "i \<noteq> ''/''"
proof -
  have c: "c = CHR ''-'' \<or> is_hex c" if "c \<in> set i" for c
    using assms that hex_decode_eq_None_iff [of "remove_byte (CHR ''-'') i"] by (auto simp: IsUUID_def remove_byte_def)
  have "CHR ''/'' \<notin> set i" "CHR ''%'' \<notin> set i"
    using c [of "CHR ''/''"] c [of "CHR ''%''"] by (auto simp: is_hex_def from_hex_def Let_def)
  moreover have "length i = 36" using assms by (simp add: IsUUID_def)
  ultimately show "plain_seg i" "path_unescape i = i" "i \<noteq> ''/''"
    by (auto simp: plain_seg_def path_unescape_plain)
qed

text \<open>A request to vote in a poll, and the option IDs of its body.\<close>

definition votes_in :: "request \<Rightarrow> string \<Rightarrow> bool" where
  "votes_in r i \<longleftrightarrow> rq_Method r = ''POST'' \<and> rq_EscapedPath r = seg_path [''api'', ''v1'', ''polls'', i, ''votes''] \<and> IsUUID i"

definition chosen :: "request \<Rightarrow> string list option" where
  "chosen r = map_option slice_of (decodeJSON r voteRequest ([], 0))"

lemma chosen_id [simp]: "chosen (r\<lparr>rq_ID := x\<rparr>) = chosen r"
  by (simp add: chosen_def decodeJSON_def)

lemma api_device_id [simp]: "api_device A q (r\<lparr>rq_ID := x\<rparr>) = api_device A q r"
  by (simp add: api_device_def header_values_def)

text \<open>What a status tells of the ballots before and after: a ballot for one of the commands \<open>P\<close> was added (201), its
  device has a ballot (200), it was added or not (503), or not. What else appears is of others.\<close>

definition vote_told :: "ballot set \<Rightarrow> (vote_command \<Rightarrow> bool) \<Rightarrow> int \<Rightarrow> ballot list \<Rightarrow> ballot list \<Rightarrow> bool" where
  "vote_told alien P status bl bl' \<longleftrightarrow> (\<exists>xs. set xs \<subseteq> alien \<and>
     (if status = 201 then \<exists>cmd. P cmd \<and> bl' = ballot_of cmd # xs @ bl \<and> (vc_PollID cmd, vc_DeviceHash cmd) \<notin> set (voters (xs @ bl))
      else if status = 200 then \<exists>cmd. P cmd \<and> bl' \<in> {xs @ bl, ballot_of cmd # xs @ bl} \<and> (vc_PollID cmd, vc_DeviceHash cmd) \<in> set (voters bl')
      else bl' = xs @ bl \<or> (status = 503 \<and> (\<exists>cmd. P cmd \<and> bl' = ballot_of cmd # xs @ bl))))"

text \<open>A text of ASCII without backslashes stands for itself, and media types without white space around them.\<close>

lemma unquote_ascii: "list_all (\<lambda>c. byte_val c < 128 \<and> c \<noteq> CHR 0x5C) s \<Longrightarrow> length s \<le> k \<Longrightarrow> unquote k s = Some s"
proof (induction s arbitrary: k)
  case (Cons c s)
  then obtain k' where "k = Suc k'" by (cases k) auto
  with Cons show ?case by (simp add: decode_rune_ascii RuneError_def)
qed (cases k; simp)

lemma json_string_ascii: "list_all (\<lambda>c. byte_val c < 128 \<and> c \<noteq> CHR 0x5C) s \<Longrightarrow> json_string s = Some s"
  by (simp add: json_string_def unquote_ascii)

section \<open>The answer to a vote\<close>

definition answer_status :: "err + vote_status \<Rightarrow> int" where
  "answer_status y = (case y of Inl e \<Rightarrow> error_status e | Inr VoteRecorded \<Rightarrow> 201 | Inr VoteAlreadyRecorded \<Rightarrow> 200)"

lemma error_status_in: "error_status e \<in> {400, 404, 409, 422, 503}"
  by (auto simp: error_status_def split: err.splits sentinel.splits)

lemma answer_status_in:
  "answer_status y \<in> {200, 201, 400, 404, 409, 422, 429, 503}"
  "answer_status y = 201 \<longleftrightarrow> y = Inr VoteRecorded" "answer_status y = 200 \<longleftrightarrow> y = Inr VoteAlreadyRecorded"
  using error_status_in [of "projl y"] by (cases y; auto simp: answer_status_def split: vote_status.splits)+

lemma send_vote_answers:
  assumes "send_vote r ck y (st, w) = (st', w')"
  shows "st_svc st' = st_svc st" and "w_status w' = answer_status y"
    and "m_recorded (st_metrics st') = m_recorded (st_metrics st) + (if answer_status y = 201 then 1 else 0)"
    and "m_duplicates (st_metrics st') = m_duplicates (st_metrics st) + (if answer_status y = 200 then 1 else 0)"
  using assms unfolding answer_status_in
  by (cases y; cases "projr y"; auto simp: send_vote_def Let_def writer_simps answer_status_def count_recorded_def count_duplicate_def Reject_def)+

lemma effect_told:
  assumes "vote_effect cmd y (xs @ bl) bl'" and "distinct (voters bl')" and "set xs \<subseteq> alien" and "P cmd"
  shows "vote_told alien P (answer_status y) bl bl'"
proof (cases y)
  case (Inl e)
  then have "bl' = xs @ bl \<or> (answer_status y = 503 \<and> bl' = ballot_of cmd # xs @ bl)"
    using assms(1) by (auto simp: vote_effect_def answer_status_def error_status_def)
  then show ?thesis
    using assms(3,4) Inl answer_status_in(2,3) [of y] unfolding vote_told_def by (intro exI [of _ xs]) auto
next
  case (Inr a)
  then show ?thesis
    using assms(1,3,4) unfolding vote_told_def vote_effect_def answer_status_def
    by (intro exI [of _ xs]) (cases a; auto)
qed

lemma refused_told:
  assumes "bl' = xs @ bl" and "set xs \<subseteq> alien" and "status \<noteq> 200" and "status \<noteq> 201"
  shows "vote_told alien P status bl bl'"
  using assms unfolding vote_told_def by (intro exI [of _ xs]) simp

section \<open>The contract\<close>

locale ballot_api =
  fixes A :: "'s api" and ok :: "'s \<Rightarrow> bool" and fine :: "'s \<Rightarrow> bool" and ledger :: "'s \<Rightarrow> ballot list"
    and alien :: "ballot set" and casts :: "'s \<Rightarrow> string \<Rightarrow> string \<Rightarrow> string list \<Rightarrow> time \<Rightarrow> vote_command \<Rightarrow> bool"
  assumes allow: "ok s \<Longrightarrow> a_AllowRate (api_rate A) k n s = (s', x) \<Longrightarrow> ok s' \<and> (\<exists>xs. set xs \<subseteq> alien \<and> ledger s' = xs @ ledger s)"
    and vote: "ok s \<Longrightarrow> api_votes A i dev ids now s = (s', y) \<Longrightarrow> fine s' \<Longrightarrow>
      (\<exists>cmd xs. set xs \<subseteq> alien \<and> casts s' i dev ids now cmd \<and> vote_effect cmd y (xs @ ledger s) (ledger s') \<and> distinct (voters (ledger s'))) \<or>
      (\<exists>e xs. set xs \<subseteq> alien \<and> y = Inl e \<and> ledger s' = xs @ ledger s)"
begin

lemma vote_body_told:
  assumes ok: "ok (st_svc st)" and run: "vote_body A q r i ids (st, w) = (st', w')" and fine: "fine (st_svc st')"
  shows "w_status w' \<in> {200, 201, 400, 404, 409, 422, 429, 503} \<and>
    vote_told alien (\<lambda>cmd. \<exists>dev ck. api_device A q r = Inr (dev, ck) \<and> casts (st_svc st') i dev ids (q_now q) cmd)
      (w_status w') (ledger (st_svc st)) (ledger (st_svc st')) \<and>
    m_recorded (st_metrics st') = m_recorded (st_metrics st) + (if w_status w' = 201 then 1 else 0) \<and>
    m_duplicates (st_metrics st') = m_duplicates (st_metrics st) + (if w_status w' = 200 then 1 else 0)"
proof -
  obtain s1 x where a: "a_AllowRate (api_rate A) (network_key A r) (api_rateLimit A) (st_svc st) = (s1, x)" by fastforce
  from allow [OF ok a] obtain xs where s1: "ok s1" "set xs \<subseteq> alien" "ledger s1 = xs @ ledger (st_svc st)" by blast
  show ?thesis
  proof (cases "\<exists>dev ck. x = Inr True \<and> api_device A q r = Inr (dev, ck)")
    case False
    then have "st_svc st' = s1 \<and> w_status w' \<in> {429, 503} \<and> m_recorded (st_metrics st') = m_recorded (st_metrics st) \<and>
        m_duplicates (st_metrics st') = m_duplicates (st_metrics st)"
      using run a by (auto simp: vote_body_def Let_def writer_simps Reject_def split: sum.splits if_splits prod.splits)
    with s1 show ?thesis by (auto intro!: refused_told)
  next
    case True
    then obtain dev ck where d: "x = Inr True" "api_device A q r = Inr (dev, ck)" by blast
    obtain s2 y where v: "api_votes A i dev ids (q_now q) s1 = (s2, y)" by fastforce
    have "send_vote r ck y (st\<lparr>st_svc := s2\<rparr>, w) = (st', w')"
      using run a d v by (simp add: vote_body_def)
    note sent = send_vote_answers [OF this]
    let ?P = "\<lambda>cmd. \<exists>dev ck. api_device A q r = Inr (dev, ck) \<and> casts s2 i dev ids (q_now q) cmd"
    from vote [OF s1(1) v] fine sent(1) consider
        (effect) cmd ys where "set ys \<subseteq> alien" "casts s2 i dev ids (q_now q) cmd" "vote_effect cmd y (ys @ ledger s1) (ledger s2)" "distinct (voters (ledger s2))"
      | (none) e ys where "set ys \<subseteq> alien" "y = Inl e" "ledger s2 = ys @ ledger s1" by auto
    then have "vote_told alien ?P (answer_status y) (ledger (st_svc st)) (ledger s2)"
    proof cases
      case effect
      show ?thesis by (rule effect_told [of cmd y "ys @ xs"]) (use effect s1 d(2) sent(1) in auto)
    next
      case none
      show ?thesis by (rule refused_told [of _ "ys @ xs"]) (use none s1 answer_status_in(2,3) [of y] in auto)
    qed
    then show ?thesis using sent answer_status_in(1) [of y] by simp
  qed
qed

lemma vote_told_refl: "status \<notin> {200, 201} \<Longrightarrow> vote_told alien P status bl bl"
  by (auto simp: vote_told_def intro!: exI [of _ "[]"])

lemma vote_handler_told:
  assumes ok: "ok (st_svc st)" and run: "Http_Handlers.vote A q r i (st, w) = (st', w')" and fine: "fine (st_svc st')"
  shows "w_status w' \<in> {200, 201, 400, 404, 409, 415, 422, 429, 503} \<and>
    vote_told alien (\<lambda>cmd. \<exists>ids dev ck. chosen r = Some ids \<and> api_device A q r = Inr (dev, ck) \<and> casts (st_svc st') i dev ids (q_now q) cmd)
      (w_status w') (ledger (st_svc st)) (ledger (st_svc st')) \<and>
    m_recorded (st_metrics st') = m_recorded (st_metrics st) + (if w_status w' = 201 then 1 else 0) \<and>
    m_duplicates (st_metrics st') = m_duplicates (st_metrics st) + (if w_status w' = 200 then 1 else 0)"
proof (cases "IsUUID i \<and> snd (requireJSON r w) \<and> (\<exists>ids. chosen r = Some ids \<and> bad_option {} ids = None)")
  case True
  then obtain ids where ids: "chosen r = Some ids" "bad_option {} ids = None" by blast
  then have "vote_body A q r i ids (st, fst (requireJSON r w)) = (st', w')"
    using run True by (auto simp: vote_def chosen_def split_beta)
  from vote_body_told [OF ok this fine] show ?thesis using ids(1) by auto
next
  case False
  then have "st_svc st' = st_svc st \<and> w_status w' \<in> {400, 415} \<and> m_recorded (st_metrics st') = m_recorded (st_metrics st) \<and>
      m_duplicates (st_metrics st') = m_duplicates (st_metrics st)"
    using run requireJSON_cases [of r w]
    by (auto simp: vote_def Let_def split_beta writer_simps chosen_def Reject_def split: option.splits if_splits)
  then show ?thesis using vote_told_refl by auto
qed

text \<open>The request as the server gets it.\<close>

lemma vote_request_told:
  assumes ok: "ok (st_svc st)" and r: "votes_in r i" and run: "NewRouter A q r st = (st', w)" and fine: "fine (st_svc st')"
  shows "w_status w \<in> {200, 201, 400, 404, 409, 415, 422, 429, 503} \<and>
    vote_told alien (\<lambda>cmd. \<exists>ids dev ck. chosen r = Some ids \<and> api_device A q r = Inr (dev, ck) \<and> casts (st_svc st') i dev ids (q_now q) cmd)
      (w_status w) (ledger (st_svc st)) (ledger (st_svc st')) \<and>
    m_recorded (st_metrics st') = m_recorded (st_metrics st) + (if w_status w = 201 then 1 else 0) \<and>
    m_duplicates (st_metrics st') = m_duplicates (st_metrics st) + (if w_status w = 200 then 1 else 0)"
proof -
  let ?r = "r\<lparr>rq_ID := request_id q r\<rparr>"
  obtain w0 where w0: "NewRouter A q r st = (let (st1, w1) = public_mux A q ?r (st, w0) in
       (st1\<lparr>st_metrics := ObserveHTTP (routePattern r) (rq_Method r) (w_status w1) (q_duration q) (st_metrics st1)\<rparr>, w1))"
    by (rule NewRouter_sends)
  have i: "IsUUID i" using r by (simp add: votes_in_def)
  have "public_mux A q ?r (st, w0) = Http_Handlers.vote A q ?r i (st, w0)"
    using r vote_route [OF IsUUID_plain [OF i]] by (simp add: public_mux_def run_mux_def votes_in_def)
  moreover obtain st1 w1 where v: "Http_Handlers.vote A q ?r i (st, w0) = (st1, w1)" by fastforce
  ultimately have st1: "w1 = w" "st_svc st1 = st_svc st'"
    "m_recorded (st_metrics st1) = m_recorded (st_metrics st')" "m_duplicates (st_metrics st1) = m_duplicates (st_metrics st')"
    using run w0 by (auto simp: ObserveHTTP_def Let_def)
  from vote_handler_told [OF ok v [unfolded st1(1)]] fine show ?thesis by (simp add: st1(2-4))
qed

end

end
