(* ===== verification/Http_Claims.thy ===== *)
theory Http_Claims
  imports Http_Routes
begin

text \<open>
  Who may do what through the router, and what the percentages of a result are.
\<close>

section \<open>The routes under /api/v1/admin/\<close>

definition under :: "string \<Rightarrow> string \<Rightarrow> string" where
  "under x t = CHR ''/'' # x @ t"

lemma under_simps [simp]: "hd (under x t) = CHR ''/''" "under x t \<noteq> []"
  by (simp_all add: under_def)

lemma first_literal [simp]:
  assumes "plain_seg x" and "t = [] \<or> hd t = CHR ''/''"
  shows "first_segment (under x t) = (path_unescape x, t)"
proof -
  have x: "CHR ''/'' \<notin> set x" "x \<noteq> []" using assms(1) by (auto simp: plain_seg_def)
  have "takeWhile (\<lambda>c. c \<noteq> CHR ''/'') (x @ t) = x" "dropWhile (\<lambda>c. c \<noteq> CHR ''/'') (x @ t) = t"
    using x(1) assms(2) by (cases t; auto simp: takeWhile_append dropWhile_append)+
  then show ?thesis using x(2) by (cases x) (simp_all add: first_segment_def before_def under_def)
qed

lemma match_literal:
  assumes "plain_seg x" and "path_unescape x = x" and "t = [] \<or> hd t = CHR ''/''"
  shows "match_path ps (under x t) found =
    (case match_path (descend (Literal x) ps) t found of
       Some y \<Rightarrow> Some y
     | None \<Rightarrow>
       (case match_path (descend Wildcard ps) t (found @ [x]) of
          Some y \<Rightarrow> Some y
        | None \<Rightarrow> map_option (\<lambda>(segs, pat). (pat, found)) (find (\<lambda>(segs, pat). segs = [] \<and> pat_multi pat) ps)))"
proof -
  have "x \<noteq> ''/''" using assms(1) by (auto simp: plain_seg_def)
  then show ?thesis using assms by (subst match_path.simps) simp
qed

abbreviation admin_pattern :: "public_route pattern" where
  "admin_pattern \<equiv> \<lparr>pat_method = None, pat_segs = api_v1 [Literal ''admin''], pat_multi = True, pat_handler = R_admin\<rparr>"

lemma admin_match:
  assumes "t \<noteq> []" and "hd t = CHR ''/''"
  shows "mux_match public_routes m (''/api/v1/admin'' @ t) = Some (admin_pattern, [])"
proof -
  have segs: "''/api/v1/admin'' @ t = under ''api'' (under ''v1'' (under ''admin'' t))" by (simp add: under_def)
  have sub: "match_path [([], admin_pattern)] t found = Some (admin_pattern, found)" for found
    using assms by (subst match_path.simps) (simp add: descend_def match_none split: prod.split)
  have named: "match_method public_routes (Some k) (''/api/v1/admin'' @ t) = None" for k
    unfolding match_method_def segs using assms
    by (cases "k = ''GET''"; cases "k = ''POST''") (simp_all add: public_routes_def route_def match_literal match_none descend_def)
  have "match_method public_routes None (''/api/v1/admin'' @ t) = Some (admin_pattern, [])"
    unfolding match_method_def segs using assms sub
    by (simp add: public_routes_def route_def match_literal match_none descend_def)
  with named show ?thesis by (simp add: mux_match_def)
qed

lemma admin_route:
  assumes "clean_path p = p" and "p = ''/api/v1/admin'' @ t" and "t \<noteq> []" and "hd t = CHR ''/''"
  shows "find_handler public_routes m p p' = Handled R_admin []"
proof -
  have m: "mux_match public_routes m p = Some (admin_pattern, [])" using admin_match assms by simp
  have m': "mux_match public_routes m (p @ ''/'') = Some (admin_pattern, [])"
    using admin_match [of "t @ ''/''" m] assms by simp
  have "\<not> exact_match (Some (admin_pattern, [])) (p @ ''/'')"
    using assms by (cases t) (simp_all add: exact_match_def)
  then show ?thesis
    unfolding find_handler_def Let_def assms(1) m m' by simp
qed

section \<open>Without the token\<close>

text \<open>Any other operations behind the admin handlers.\<close>

definition with_admin :: "'s poll_api \<Rightarrow> 's result_api \<Rightarrow> (string \<Rightarrow> err + string) option \<Rightarrow> 's api \<Rightarrow> 's api" where
  "with_admin P R g A = A\<lparr>api_polls := P\<lparr>a_PublicBySlug := a_PublicBySlug (api_polls A)\<rparr>, api_results := R, api_qr := g\<rparr>"

lemma authorised_id [simp]: "authorised token (r\<lparr>rq_ID := i\<rparr>) = authorised token r"
  by (simp add: authorised_def provided_def header_get_def)

lemma with_admin_simps [simp]:
  "api_device (A\<lparr>api_polls := X, api_results := R, api_qr := g\<rparr>) = api_device A"
  "network_key (A\<lparr>api_polls := X, api_results := R, api_qr := g\<rparr>) = network_key A"
  by (intro ext, simp add: api_device_def network_key_def)+

lemma public_handler_with_admin:
  assumes "\<not> authorised (api_adminToken A) r"
  shows "public_handler (with_admin P R g A) q r h vs sw = public_handler A q r h vs sw"
proof (cases h)
  case R_admin
  then show ?thesis using assms by (simp add: adminAuth_def with_admin_def)
next
  case R_getPoll
  then show ?thesis by (simp add: getPoll_def with_admin_def split: prod.splits sum.splits)
next
  case R_vote
  then show ?thesis by (simp add: vote_def vote_body_def with_admin_def Let_def split: prod.splits sum.splits option.splits)
next
  case R_ready
  then show ?thesis by (simp add: ready_def with_admin_def split: prod.splits option.splits)
qed (simp_all add: pollPage_def adminPage_def staticAsset_def openAPISpec_def serveEmbedded_def with_admin_def)

lemma NewRouter_with_admin:
  assumes "\<not> authorised (api_adminToken A) r"
  shows "NewRouter (with_admin P R g A) q r st = NewRouter A q r st"
proof -
  have "public_handler (with_admin P R g A) q (r\<lparr>rq_ID := i\<rparr>) = public_handler A q (r\<lparr>rq_ID := i\<rparr>)" for i
    by (intro ext) (rule public_handler_with_admin, simp add: assms)
  then show ?thesis by (simp add: NewRouter_def middleware_def securityHeaders_def public_mux_def)
qed

section \<open>Percentages\<close>

lemma percent_exact:
  assumes "0 \<le> n" and "n \<le> p" and "0 < p" and "p < 2 ^ 46"
  shows "participant_percent n p = float_round (of_int (n * 100) / of_int p)"
proof -
  have "(2 :: int) ^ 53 = 128 * 2 ^ 46" by simp
  then have small: "n \<le> 2 ^ 53" "p \<le> 2 ^ 53" "n * 100 \<le> 2 ^ 53" using assms by linarith+
  have e: "float_round (of_int n) = of_int n" "float_round (of_int p) = of_int p" "float_round (of_int (n * 100)) = of_int (n * 100)"
    using float_round_int [OF _ small(1)] float_round_int [OF _ small(2)] float_round_int [OF _ small(3)] assms(1,3) by simp_all
  have "(of_int n * 100 :: rat) = of_int (n * 100)" by simp
  then show ?thesis using assms(3) e unfolding participant_percent_def by (simp only: if_True)
qed

lemma percent_mono:
  assumes "0 \<le> n" and "n \<le> n'" and "n' \<le> p" and "p < 2 ^ 46"
  shows "participant_percent n p \<le> participant_percent n' p"
proof (cases "0 < p")
  case True
  have "of_int (n * 100) / of_int p \<le> (of_int (n' * 100) / of_int p :: rat)"
    using assms True by (intro divide_right_mono) simp_all
  then show ?thesis
    using percent_exact [of n p] percent_exact [of n' p] assms True by (simp add: float_round_mono)
qed (simp add: participant_percent_def)

lemma percent_ends:
  assumes "0 \<le> p" and "p < 2 ^ 46"
  shows "participant_percent 0 p = 0" and "participant_percent p p = (if p = 0 then 0 else 100)"
proof -
  have 100: "float_round 100 = 100" using float_round_int [of 100] by simp
  have "(of_int (p * 100) / of_int p :: rat) = 100" if "p \<noteq> 0" using that by simp
  then show "participant_percent p p = (if p = 0 then 0 else 100)"
    using percent_exact [of p p] assms 100 by (auto simp: participant_percent_def)
  show "participant_percent 0 p = 0"
    using percent_exact [of 0 p] assms by (cases "p = 0") (simp_all add: participant_percent_def)
qed

section \<open>Claims\<close>

text \<open>C7. Without the admin token nothing reaches the admin operations: a request whose bearer token does not hash
  to the hash of ADMIN_TOKEN gets the same answer and leaves the same state whatever Create,
  ListRecent, Publish, GetByID, Results, Close and the QR generator would do; and under
  /api/v1/admin/ every method and every path is answered 401, and the state behind the services
  and the cache of QR codes stay as they are.\<close>

theorem admin_operations_need_the_token:
  assumes "\<not> authorised (api_adminToken A) r"
  shows "NewRouter (with_admin P R g A) q r st = NewRouter A q r st \<and>
    (rq_EscapedPath r = ''/api/v1/admin'' @ t \<longrightarrow> t \<noteq> [] \<longrightarrow> hd t = CHR ''/'' \<longrightarrow> clean_path (rq_EscapedPath r) = rq_EscapedPath r \<longrightarrow>
      w_status (snd (NewRouter A q r st)) = 401 \<and> st_svc (fst (NewRouter A q r st)) = st_svc st \<and> st_qr (fst (NewRouter A q r st)) = st_qr st)"
proof (intro conjI impI)
  assume p: "rq_EscapedPath r = ''/api/v1/admin'' @ t" "t \<noteq> []" "hd t = CHR ''/''" "clean_path (rq_EscapedPath r) = rq_EscapedPath r"
  have mux: "public_mux A q (r\<lparr>rq_ID := i\<rparr>) sw = (fst sw, writeError (r\<lparr>rq_ID := i\<rparr>) 401 ''unauthorized'' ''valid bearer token required'' (snd sw))" for i sw
    using admin_route [OF p(4,1,2,3)] assms by (simp add: public_mux_def run_mux_def adminAuth_def)
  have "w_status (writeError r' 401 c m w) = 401" for r' c m w by (simp add: writer_simps)
  then show "w_status (snd (NewRouter A q r st)) = 401" "st_svc (fst (NewRouter A q r st)) = st_svc st" "st_qr (fst (NewRouter A q r st)) = st_qr st"
    by (simp_all add: NewRouter_def middleware_def securityHeaders_def mux Let_def)
qed (rule NewRouter_with_admin [OF assms])

definition demo_api :: "nat api" where
  "demo_api = \<lparr>
     api_polls = \<lparr>a_Create = (\<lambda>input s. (s + 1, Inl (Other ''create''))), a_ListRecent = (\<lambda>n s. (s, Inr [])),
       a_Publish = (\<lambda>i s. (s + 1, Inl (Other ''publish''))), a_PublicBySlug = (\<lambda>i t s. (s, Inl (Sentinel ErrNotFound))),
       a_GetByID = (\<lambda>i s. (s, Inl (Sentinel ErrNotFound)))\<rparr>,
     api_votes = (\<lambda>i d ids t s. (s + 1, Inr VoteRecorded)),
     api_results = \<lparr>a_Results = (\<lambda>i s. (s, Inl (Sentinel ErrNotFound))), a_Close = (\<lambda>i s. (s + 1, Inl (Sentinel ErrNotFound)))\<rparr>,
     api_rate = \<lparr>a_AllowRate = (\<lambda>k n s. (s, Inr True)), a_Ping = (\<lambda>s. (s, None))\<rparr>,
     api_cookies = \<lparr>cm_key = replicate 32 7, cm_secure = False\<rparr>, api_dedupKey = replicate 32 9, api_trustedProxies = [], api_rateLimit = 120,
     api_PingDB = (\<lambda>s. (s, None)), api_qr = None, api_publicBaseURL = ''http://localhost:8080'', api_adminToken = ''0123456789abcdef'',
     api_files = (\<lambda>f. None), api_page = (\<lambda>u. ''admin''), api_spec = ''openapi''\<rparr>"

definition demo_request :: request where
  "demo_request = \<lparr>rq_Method = ''POST'', rq_Path = ''/api/v1/admin/polls'', rq_EscapedPath = ''/api/v1/admin/polls'', rq_RawQuery = [],
     rq_Header = [], rq_RemoteAddr = ''10.0.0.1:4711'', rq_Body = [], rq_BodyOk = True, rq_ID = []\<rparr>"

definition demo_request_env :: request_env where
  "demo_request_env = \<lparr>q_now = 0, q_cookie = None, q_id = None, q_duration = Millisecond\<rparr>"

theorem admin_operations_need_the_token_witness:
  "w_status (snd (NewRouter demo_api demo_request_env demo_request \<lparr>st_svc = 0, st_metrics = empty_metrics, st_qr = Map.empty\<rparr>)) = 401"
proof -
  have "trim_prefix [] ''Bearer '' = []" by (simp add: trim_prefix_def)
  then have "\<not> authorised (api_adminToken demo_api) demo_request"
    by (simp add: authorised_def provided_def header_get_def demo_request_def)
  moreover have "clean_path (rq_EscapedPath demo_request) = rq_EscapedPath demo_request" by code_simp
  ultimately show ?thesis
    using admin_operations_need_the_token [where A = demo_api and r = demo_request and t = "''/polls''"]
    by (simp add: demo_request_def)
qed


definition demo_third :: poll_result where
  "demo_third = \<lparr>res_PollID = [], res_Status = Active, res_Source = redis_live, res_AsOf = 0, res_FinalizedAt = None, res_Participants = 3,
     res_Options = [''a'' \<mapsto> 1, ''b'' \<mapsto> 3]\<rparr>"

definition demo_options :: poll where
  "demo_options = \<lparr>ID = [], Slug = [], Question = [], Type = SingleChoice, MaxChoices = 1, Status = Active, StartsAt = 0, EndsAt = 0,
     CreatedAt = 0, UpdatedAt = 0, PublishedAt = None, ClosedAt = None,
     Options = [\<lparr>opt_ID = ''a'', opt_Text = [], opt_Position = 0\<rparr>, \<lparr>opt_ID = ''b'', opt_Text = [], opt_Position = 1\<rparr>]\<rparr>"


end
