(* ===== verification/Qr_Svg.thy ===== *)
theory Qr_Svg
  imports Domain
begin

text \<open>
  internal/qrsvg/generator.go: the picture of a QR code. The encoder is third-party code: it is a function
  from the content to an error or to the rows of the bitmap, dark modules being \<open>True\<close>.
\<close>

type_synonym bitmap = "bool list list"

section \<open>The generator\<close>

definition module_square :: "nat \<Rightarrow> nat \<Rightarrow> string" where
  "module_square x y = CHR ''M'' # itoa (int x) @ '' '' @ itoa (int y) @ ''h1v1h-1z''"

definition svg_path :: "bitmap \<Rightarrow> string" where
  "svg_path b = concat (map (\<lambda>(y, row). concat (map (\<lambda>(x, dark). if dark then module_square x y else []) (enumerate 0 row))) (enumerate 0 b))"

definition svg_head :: string where
  "svg_head = (let q = [CHR 0x22] in
     ''<?xml version='' @ q @ ''1.0'' @ q @ '' encoding='' @ q @ ''UTF-8'' @ q @ ''?><svg xmlns='' @ q @ ''http://www.w3.org/2000/svg'' @ q @
     '' viewBox='' @ q @ ''0 0 '')"

definition svg_middle :: string where
  "svg_middle = (let q = [CHR 0x22] in
     q @ '' width='' @ q @ ''512'' @ q @ '' height='' @ q @ ''512'' @ q @ '' role='' @ q @ ''img'' @ q @ '' aria-label='' @ q @ ''QR code'' @ q @
     '' shape-rendering='' @ q @ ''crispEdges'' @ q @ ''><rect width='' @ q @ ''100%'' @ q @ '' height='' @ q @ ''100%'' @ q @ '' fill='' @ q @ ''#fff'' @ q @
     ''/><path d='' @ q)"

definition svg_tail :: string where
  "svg_tail = (let q = [CHR 0x22] in q @ '' fill='' @ q @ ''#111827'' @ q @ ''/></svg>'')"

definition svg_text :: "bitmap \<Rightarrow> string" where
  "svg_text b = svg_head @ itoa (int (length b)) @ '' '' @ itoa (int (length b)) @ svg_middle @ svg_path b @ svg_tail"

definition GenerateSVG :: "(string \<Rightarrow> err + bitmap) \<Rightarrow> string \<Rightarrow> err + string" where
  "GenerateSVG encode content =
     (case encode content of
        Inl e \<Rightarrow> Inl e
      | Inr b \<Rightarrow> if b = [] then Inl (Other ''QR encoder returned an empty bitmap'') else Inr (svg_text b))"

section \<open>What the picture shows\<close>

text \<open>The dark modules, row by row.\<close>

definition dark_modules :: "bitmap \<Rightarrow> (nat \<times> nat) list" where
  "dark_modules b = concat (map (\<lambda>(y, row). map (\<lambda>(x, dark). (x, y)) (filter snd (enumerate 0 row))) (enumerate 0 b))"

lemma svg_path_modules: "svg_path b = concat (map (\<lambda>(x, y). module_square x y) (dark_modules b))"
proof -
  have "concat (map (\<lambda>(x, dark). if dark then module_square x y else []) (enumerate n row)) =
      concat (map (\<lambda>(x, y). module_square x y) (map (\<lambda>(x, dark). (x, y)) (filter snd (enumerate n row))))" for n row y
    by (induction row arbitrary: n) auto
  moreover have "concat (map f (concat xss)) = concat (map (\<lambda>xs. concat (map f xs)) xss)" for f :: "nat \<times> nat \<Rightarrow> string" and xss
    by (induction xss) simp_all
  ultimately show ?thesis unfolding svg_path_def dark_modules_def by (simp add: o_def case_prod_beta')
qed

lemma dark_modules_mem:
  "(x, y) \<in> set (dark_modules b) \<longleftrightarrow> y < length b \<and> x < length (b ! y) \<and> b ! y ! x"
  by (auto simp: dark_modules_def in_set_enumerate_eq image_iff)

lemma distinct_dark_modules: "distinct (dark_modules b)"
proof -
  have one: "distinct (map (\<lambda>(x, dark). (x, y)) (filter snd (enumerate n row)))" for n y and row :: "bool list"
  proof -
    have "inj_on (\<lambda>(x, dark). (x, y)) (set (filter snd (enumerate n row)))"
      by (auto simp: inj_on_def in_set_enumerate_eq)
    then show ?thesis by (simp add: distinct_map distinct_enumerate)
  qed
  have "distinct (concat (map (\<lambda>(y, row). map (\<lambda>(x, dark). (x, y)) (filter snd (enumerate 0 row))) (enumerate n b)))" for n
  proof (induction b arbitrary: n)
    case (Cons row b)
    have "\<not> (\<exists>row'. (n, row') \<in> set (enumerate (Suc n) b))" by (auto simp: in_set_enumerate_eq)
    with Cons [of "Suc n"] one show ?case by (fastforce simp: disjoint_iff)
  qed simp
  then show ?thesis by (simp add: dark_modules_def)
qed

lemma itoa_plain: "c \<in> set (itoa (int n)) \<Longrightarrow> c \<noteq> CHR '' '' \<and> c \<noteq> CHR ''h''"
  using itoa_nat_digits [of c n] by (auto simp: itoa_def is_digit_def)

text \<open>A number up to the first separator.\<close>

lemma number_inject:
  assumes "c = CHR '' '' \<or> c = CHR ''h''"
  shows "itoa (int m) @ c # s = itoa (int n) @ c # t \<longleftrightarrow> m = n \<and> s = t"
proof -
  have "c \<notin> set (itoa (int m))" "c \<notin> set (itoa (int n))" using assms itoa_plain by blast+
  moreover have "xs @ c # s = ys @ c # t \<longleftrightarrow> xs = ys \<and> s = t" if "c \<notin> set xs" "c \<notin> set ys" for xs ys
    using that
  proof (induction xs arbitrary: ys)
    case Nil
    then show ?case by (cases ys) auto
  next
    case (Cons a xs)
    then show ?case by (cases ys) auto
  qed
  ultimately show ?thesis by simp
qed

lemma squares_inject:
  "concat (map (\<lambda>(x, y). module_square x y) ms) = concat (map (\<lambda>(x, y). module_square x y) ms') \<Longrightarrow> ms = ms'"
proof (induction ms arbitrary: ms')
  case Nil
  then show ?case by (cases ms') (auto simp: module_square_def)
next
  case (Cons m ms)
  then obtain m' ns where "ms' = m' # ns" by (cases ms') (auto simp: module_square_def split: prod.splits)
  with Cons show ?case by (auto simp: module_square_def number_inject split: prod.splits)
qed

lemma svg_text_inject:
  assumes "svg_text b = svg_text b'"
  shows "length b = length b'" and "dark_modules b = dark_modules b'"
proof -
  from assms have "itoa (int (length b)) @ CHR '' '' # itoa (int (length b)) @ svg_middle @ svg_path b @ svg_tail =
      itoa (int (length b')) @ CHR '' '' # itoa (int (length b')) @ svg_middle @ svg_path b' @ svg_tail"
    by (simp add: svg_text_def)
  then have parts: "length b = length b' \<and> itoa (int (length b)) @ svg_middle @ svg_path b @ svg_tail = itoa (int (length b')) @ svg_middle @ svg_path b' @ svg_tail"
    unfolding number_inject [OF disjI1 [OF refl]] .

  then show n: "length b = length b'" by (rule conjunct1)
  from parts n have "svg_path b = svg_path b'" by simp
  then show "dark_modules b = dark_modules b'" by (intro squares_inject) (simp add: svg_path_modules)
qed

definition square :: "bitmap \<Rightarrow> bool" where
  "square b \<longleftrightarrow> b \<noteq> [] \<and> list_all (\<lambda>row. length row = length b) b"

section \<open>Claims\<close>

text \<open>C40. A QR picture shows its code: it draws a unit square for every dark module of the bitmap and for no
  other place, each inside the view box, so that two contents whose bitmaps differ never get the
  same picture; an empty bitmap is an error.\<close>

theorem picture_shows_the_code:
  assumes "encode s = Inr b" and "encode t = Inr b'" and "square b" and "square b'"
  shows "GenerateSVG encode s = Inr (svg_head @ itoa (int (length b)) @ '' '' @ itoa (int (length b)) @ svg_middle @
      concat (map (\<lambda>(x, y). module_square x y) (dark_modules b)) @ svg_tail) \<and>
    distinct (dark_modules b) \<and>
    (\<forall>x y. (x, y) \<in> set (dark_modules b) \<longleftrightarrow> x < length b \<and> y < length b \<and> b ! y ! x) \<and>
    (GenerateSVG encode s = GenerateSVG encode t \<longleftrightarrow> b = b')"
proof -
  have rows: "length (b ! y) = length b" if "square b" "y < length b" for b y
    using that by (simp add: square_def list_all_length)
  have gen: "GenerateSVG encode s = Inr (svg_text b)" "GenerateSVG encode t = Inr (svg_text b')"
    using assms by (simp_all add: GenerateSVG_def square_def)
  have mem: "(x, y) \<in> set (dark_modules b) \<longleftrightarrow> x < length b \<and> y < length b \<and> b ! y ! x" if "square b" for b x y
    using rows [OF that] by (auto simp: dark_modules_mem)
  have "b = b'" if "svg_text b = svg_text b'"
  proof (rule nth_equalityI)
    note same = svg_text_inject [OF that]
    show "length b = length b'" by (rule same)
    fix y
    assume y: "y < length b"
    show "b ! y = b' ! y"
    proof (rule nth_equalityI)
      show "length (b ! y) = length (b' ! y)" using y same(1) rows assms(3,4) by simp
      fix x
      assume "x < length (b ! y)"
      then show "b ! y ! x = b' ! y ! x"
        using mem [OF assms(3), of x y] mem [OF assms(4), of x y] same y rows [OF assms(3) y] by simp
    qed
  qed
  moreover have "distinct (dark_modules b)" by (rule distinct_dark_modules)
  ultimately show ?thesis using gen mem [OF assms(3)] by (auto simp: svg_text_def svg_path_modules)
qed

theorem picture_shows_the_code_witness:
  "GenerateSVG (\<lambda>s. Inr [[s = ''a'', False], [False, True]]) ''a'' \<noteq> GenerateSVG (\<lambda>s. Inr [[s = ''a'', False], [False, True]]) ''b''"
proof -
  let ?e = "\<lambda>s. Inr [[s = ''a'', False], [False, True]]"
  have "?e ''a'' = Inr [[True, False], [False, True]]" "?e ''b'' = Inr [[False, False], [False, True]]" by simp_all
  note both = picture_shows_the_code [where encode = ?e, OF this]
  have "square [[True, False], [False, True]]" "square [[False, False], [False, True]]" by (simp_all add: square_def)
  from conjunct2 [OF conjunct2 [OF conjunct2 [OF both [OF this]]]] show ?thesis by (simp only:) simp
qed

end
