(* ===== verification/Api_Main.thy ===== *)
theory Api_Main
  imports Config Http_Votes Http_Claims Qr_Svg Service_Close Redis_Limits
begin

text \<open>
  The API process (cmd/api/main.go): what it builds from its configuration, in which order it starts, when it
  serves and with which status it exits.
\<close>

section \<open>Wiring\<close>

definition main_repo :: "config \<Rightarrow> pg \<Rightarrow> repo" where
  "main_repo c srv = \<lparr>server = srv, vote_buckets = VoteBuckets c\<rparr>"

definition main_store :: "config \<Rightarrow> 'r client \<Rightarrow> 'r store" where
  "main_store c cl = \<lparr>client = cl, buckets = nat (VoteBuckets c), retention = RedisRetention c, maxTTL = MaxRedisTTL c\<rparr>"

text \<open>What a request reads of the clock inside the services, and what is embedded in the program.\<close>

record clocks =
  k_get :: time
  k_got :: time
  k_publish :: time
  k_put :: time

record embedded =
  em_encode :: "string \<Rightarrow> err + bitmap"
  em_files :: "string \<Rightarrow> string option"
  em_page :: "string \<Rightarrow> string"
  em_spec :: string

text \<open>An operation that does not use the cache of the process.\<close>

definition on_svc :: "('w \<Rightarrow> 'w \<times> 'a) \<Rightarrow> 'w \<times> poll_cache \<Rightarrow> ('w \<times> poll_cache) \<times> 'a" where
  "on_svc op st = (case op (fst st) of (w, x) \<Rightarrow> ((w, snd st), x))"

definition ping :: "repo \<Rightarrow> 'r store \<Rightarrow> call_env \<Rightarrow> 'r world \<Rightarrow> 'r world \<times> err option" where
  "ping c s e w = (others c s (before e) w, (case link e of Reply ns \<Rightarrow> None | NoReply ns \<Rightarrow> Some (Other ''ping: connection failed'')))"

definition live_allow :: "repo \<Rightarrow> 'r store \<Rightarrow> environment \<Rightarrow> string \<Rightarrow> int \<Rightarrow> 'r world \<Rightarrow> 'r world \<times> (err + bool)" where
  "live_allow c s E key limit = on_redis c s (E C_Allow) (Allow_c key limit)
     (\<lambda>t. AllowRate s (link (E C_Allow)) (api_now (E C_Allow)) t key limit)"

definition live_api :: "config \<Rightarrow> pg \<Rightarrow> 'r client \<Rightarrow> environment \<Rightarrow> clocks \<Rightarrow> embedded \<Rightarrow> ('r world \<times> poll_cache) api" where
  "live_api c srv cl E k em =
     (let r = main_repo c srv; s = main_store c cl in \<lparr>
       api_polls = \<lparr>
         a_Create = (\<lambda>input. on_svc (PollService_Create (live_polls r s E) input)),
         a_ListRecent = (\<lambda>n. on_svc (PollService_ListRecent (live_polls r s E) n)),
         a_Publish = (\<lambda>i. PollService_Publish (live_polls r s E) (live_gates r s E) (k_publish k) (k_put k) i),
         a_PublicBySlug = (\<lambda>slug now. on_svc (PollService_PublicBySlug (live_polls r s E) slug now)),
         a_GetByID = (\<lambda>i. on_svc (PollService_GetByID (live_polls r s E) i))\<rparr>,
       api_votes = (\<lambda>i dev ids now. VoteService_Vote (live_loader r s E) (live_votes r s E) (DedupHMACKey c) (k_get k) (k_got k) i dev ids now),
       api_results = \<lparr>
         a_Results = (\<lambda>i. on_svc (ResultService_Results (live_results r s E) (live_store r s E) i)),
         a_Close = (\<lambda>i. ResultService_Close (live_results r s E) (live_store r s E) i)\<rparr>,
       api_rate = \<lparr>a_AllowRate = (\<lambda>key limit. on_svc (live_allow r s E key limit)), a_Ping = on_svc (ping r s (E C_PingRedis))\<rparr>,
       api_cookies = \<lparr>cm_key = CookieSigningKey c, cm_secure = CookieSecure c\<rparr>, api_dedupKey = DedupHMACKey c,
       api_trustedProxies = TrustedProxies c, api_rateLimit = RateLimitPerMinute c, api_PingDB = on_svc (ping r s (E C_PingDB)),
       api_qr = Some (GenerateSVG (em_encode em)), api_publicBaseURL = PublicBaseURL c, api_adminToken = AdminToken c,
       api_files = em_files em, api_page = em_page em, api_spec = em_spec em\<rparr>)"

section \<open>Start and end of the process\<close>

text \<open>\<open>accepts\<close> says whether the driver accepts the URL of the database; \<open>v\<close> surrounds the check of the buckets.\<close>

datatype started = Exit nat | Serving config

definition start_up :: "environ \<Rightarrow> string list \<Rightarrow> (string \<Rightarrow> bool) \<Rightarrow> pg \<Rightarrow> 'r client \<Rightarrow> environment \<Rightarrow> call_env \<Rightarrow> 'r world \<Rightarrow> 'r world \<times> started" where
  "start_up E order accepts srv cl env' v w =
     (case Config.Load E order of
        Inl e \<Rightarrow> (w, Exit 2)
      | Inr c \<Rightarrow>
        if \<not> accepts (DatabaseURL c) then (w, Exit 1)
        else (let r = main_repo c srv; s = main_store c cl in
          case ping r s (env' C_PingDB) w of
            (w1, Some e) \<Rightarrow> (w1, Exit 1)
          | (w1, None) \<Rightarrow>
            (case ping r s (env' C_PingRedis) w1 of
               (w2, Some e) \<Rightarrow> (w2, Exit 1)
             | (w2, None) \<Rightarrow>
               (case on_db r s v (reading (ValidateActiveBuckets r (failing v))) w2 of
                  (w3, Some e) \<Rightarrow> (w3, Exit 1)
                | (w3, None) \<Rightarrow> (w3, Serving c)))))"

text \<open>While it serves: the worker panics at once without a positive interval, and a panic ends the process with
  status 2; else the listener fails, closed or not, or a signal comes, whatever the shutdown says.\<close>

datatype stop = Listener_failed bool | Signalled

fun serve :: "config \<Rightarrow> stop \<Rightarrow> nat" where
  "serve c (Listener_failed was_closed) = (if SnapshotInterval c \<le> 0 then 2 else if was_closed then 0 else 1)"
| "serve c Signalled = (if SnapshotInterval c \<le> 0 then 2 else 0)"

section \<open>Starting\<close>

lemma start_up_serves:
  assumes "start_up E order accepts srv cl env' v w = (w', Serving c)"
  shows "Config.Load E order = Inr c" and "accepts (DatabaseURL c)" and "ValidateActiveBuckets (main_repo c srv) no_faults (w_db w') = None"
    and "evolves (main_repo c srv) (w_db w) (w_db w')"
    and "\<exists>ns. link (env' C_PingDB) = Reply ns" and "\<exists>ns. link (env' C_PingRedis) = Reply ns"
proof -
  from assms show "\<exists>ns. link (env' C_PingDB) = Reply ns" "\<exists>ns. link (env' C_PingRedis) = Reply ns"
    by (auto simp: start_up_def Let_def ping_def split: sum.splits if_splits prod.splits option.splits delivery.splits)
  from assms have l: "Config.Load E order = Inr c" and o': "accepts (DatabaseURL c)"
    by (auto simp: start_up_def Let_def split: sum.splits if_splits prod.splits option.splits)
  show "Config.Load E order = Inr c" "accepts (DatabaseURL c)" by (fact l o')+
  let ?r = "main_repo c srv" and ?s = "main_store c cl"
  define w2 where "w2 = others ?r ?s (before (env' C_PingRedis)) (others ?r ?s (before (env' C_PingDB)) w)"
  from assms l o' have w3: "on_db ?r ?s v (reading (ValidateActiveBuckets ?r (failing v))) w2 = (w', None)"
    by (auto simp: start_up_def Let_def ping_def w2_def split: if_splits prod.splits option.splits delivery.splits)
  then have "ValidateActiveBuckets ?r (failing v) (w_db w') = None"
    using w_on_db(2,4) [of ?r ?s v "reading (ValidateActiveBuckets ?r (failing v))" w2] by (simp add: reading_def)
  then show "ValidateActiveBuckets ?r no_faults (w_db w') = None" by (simp add: buckets_None no_faults_def)
  have "w_db w' = db_run ?r (o_writes (before v)) (w_db w2)"
    using w3 w_on_db(2) [of ?r ?s v "reading (ValidateActiveBuckets ?r (failing v))" w2] by (simp add: reading_def)
  then have "evolves ?r (w_db w2) (w_db w')" by (simp add: db_run_evolves)
  moreover have "evolves ?r (w_db w) (w_db w2)"
    unfolding w2_def others_def by (simp add: evolves_trans [OF db_run_evolves db_run_evolves])
  ultimately show "evolves ?r (w_db w) (w_db w')" using evolves_trans by blast
qed

section \<open>Voting over HTTP\<close>

locale live_http = live_voting "main_store cfg cl" look "main_repo cfg srv" E r0 t0 T
  for cfg :: config and cl :: "'r client" and look and srv :: pg and E r0 t0 T +
  fixes k :: clocks and em :: embedded and C :: poll_cache and d0 :: db
  assumes cache: "cache_ok C"

text \<open>What the service may send to the store for a request: the poll was cached, or it was read from the tables
  as they were at some moment \<open>d\<close> between \<open>d0\<close> and those of the world \<open>w\<close>.\<close>

definition may_cast :: "config \<Rightarrow> pg \<Rightarrow> environment \<Rightarrow> clocks \<Rightarrow> poll_cache \<Rightarrow> db \<Rightarrow> 'r world \<Rightarrow> string \<Rightarrow> string \<Rightarrow> string list \<Rightarrow> time \<Rightarrow>
    vote_command \<Rightarrow> bool" where
  "may_cast cfg srv E k C d0 w i dev ids now cmd \<longleftrightarrow> (\<exists>p d. running p now \<and> ValidateSelection p ids = None \<and>
     evolves (main_repo cfg srv) d0 d \<and> evolves (main_repo cfg srv) d (w_db w) \<and>
     (cached C (k_get k) i = Some p \<or> GetByID (main_repo cfg srv) (failing (E C_Get)) i d = Inr p) \<and>
     cmd = \<lparr>vc_PollID = ID p, vc_DeviceHash = DeviceHash (DedupHMACKey cfg) (ID p) dev, vc_OptionIDs = ids, vc_EndsAt = EndsAt p\<rparr>)"

lemma on_redis_evolves: "evolves c (w_db w) (w_db (fst (on_redis c s e k f w)))"
  by (simp add: on_redis_def Let_def split_beta others_def db_run_evolves)

text \<open>The tables of a vote go through the state in which its poll was read.\<close>

lemma Vote_reads:
  assumes "cache_ok C" and p: "cached C clk i = Some p \<or> cached C clk i = None \<and> snd (live_loader c s E i w) = Inr p"
    and run: "VoteService_Vote (live_loader c s E) (live_votes c s E) key clk clk' i dev ids now (w, C) = ((w', C'), y)"
  shows "\<exists>d. evolves c (w_db w) d \<and> evolves c d (w_db w') \<and> (cached C clk i = Some p \<or> GetByID c (failing (E C_Get)) i d = Inr p)"
proof -
  obtain w1 C1 x where g: "cache_get clk clk' i (vote_loader (live_loader c s E)) (w, C) = ((w1, C1), x)"
    by (metis prod.collapse)
  note got = cache_get_cases [OF assms(1), where now = clk and i = i and now' = clk' and loader = "vote_loader (live_loader c s E)" and s = w]
  have "w' = w1 \<or> (\<exists>cmd. w' = fst (live_votes c s E cmd w1))"
    using run g by (auto simp: VoteService_Vote_def Let_def split_beta split: sum.splits if_splits option.splits)
  then have w': "evolves c (w_db w1) (w_db w')"
    using on_redis_evolves [of c w1] by (auto simp: live_votes_def intro: evolves.none)
  show ?thesis
  proof (cases "cached C clk i")
    case None
    let ?d = "db_run c (o_writes (before (E C_Get))) (w_db w)"
    have "w1 = fst (live_loader c s E i w)"
      using got g None by (auto simp: vote_loader_def split: prod.splits sum.splits if_splits)
    then have "w_db w1 = ?d" by (simp add: live_loader_def w_on_db reading_def)
    moreover have "GetByID c (failing (E C_Get)) i ?d = Inr p"
      using p None by (simp add: live_loader_def w_on_db reading_def)
    ultimately show ?thesis using w' db_run_evolves by metis
  next
    case (Some q)
    then have "w1 = w" using got g by simp
    with w' p Some show ?thesis by (metis evolves.none option.distinct(1))
  qed
qed

lemma live_allow_ledger:
  assumes "recorded s r0 w" and "live_allow c s E key limit w = (w', x)"
  shows "recorded s r0 w' \<and> evolves c (w_db w) (w_db w') \<and>
    (\<exists>xs. set xs \<subseteq> foreign E \<and> cast_ballots s (w_calls w') = xs @ cast_ballots s (w_calls w))"
proof -
  let ?e = "E C_Allow" and ?k = "Allow_c key limit"
  let ?op = "\<lambda>t. AllowRate s (link ?e) (api_now ?e) t key limit"
  have w': "w' = fst (on_redis c s ?e ?k ?op w)" using assms(2) by (simp add: live_allow_def)
  have calls: "w_calls w' = w_calls w @ (o_calls (before ?e) @ [(link ?e, api_now ?e, w_now w + o_later (before ?e), ?k)])"
    by (simp add: w' w_calls_on_redis)
  have "called (o_calls (before ?e) @ [(link ?e, api_now ?e, t, ?k)]) \<subseteq> foreign E" for t
  proof -
    have "called (o_calls (before ?e) @ [(link ?e, api_now ?e, t, ?k)]) = called (o_calls (before ?e))" by (simp add: called_def)
    then show ?thesis by (auto simp: foreign_def)
  qed
  note ours = this
  let ?h = "o_calls (before ?e) @ [(link ?e, api_now ?e, w_now w + o_later (before ?e), ?k)]"
  obtain xs where "set xs \<subseteq> called ?h" "cast_ballots s (w_calls w @ ?h) = xs @ cast_ballots s (w_calls w)"
    using cast_ballots_grow [of ?h s "w_calls w"] by blast
  then have "set xs \<subseteq> foreign E" "cast_ballots s (w_calls w') = xs @ cast_ballots s (w_calls w)"
    using subset_trans [OF _ ours] unfolding calls by simp_all
  moreover have "recorded s r0 w'" unfolding w' by (rule recorded_on_redis [OF assms(1)]) simp
  moreover have "evolves c (w_db w) (w_db w')" unfolding w' by (rule on_redis_evolves)
  ultimately show ?thesis by blast
qed

sublocale live_http \<subseteq> http: ballot_api "live_api cfg srv cl E k em"
  "\<lambda>st. recorded (main_store cfg cl) r0 (fst st) \<and> snd st = C \<and> evolves (main_repo cfg srv) d0 (w_db (fst st))"
  "\<lambda>st. in_bounds (main_store cfg cl) t0 T (fst st)" "\<lambda>st. cast_ballots (main_store cfg cl) (w_calls (fst st))" "foreign E"
  "\<lambda>st. may_cast cfg srv E k C d0 (fst st)"
proof (unfold_locales, goal_cases)
  case (1 st key n st' x)
  then have "on_svc (live_allow (main_repo cfg srv) (main_store cfg cl) E key n) st = (st', x)" by (simp add: live_api_def Let_def)
  then obtain w' where w': "live_allow (main_repo cfg srv) (main_store cfg cl) E key n (fst st) = (w', x)" "st' = (w', snd st)"
    by (auto simp: on_svc_def Let_def split: prod.splits)
  from live_allow_ledger [OF _ w'(1)] 1(1) w'(2) show ?case
    using evolves_trans [of "main_repo cfg srv" "w_db (fst st)" "w_db w'" d0] by auto
next
  case (2 st i dev ids now st' y)
  let ?c = "main_repo cfg srv" and ?s = "main_store cfg cl"
  obtain w w' C' where st: "st = (w, C)" "st' = (w', C')" "recorded ?s r0 w" "evolves ?c d0 (w_db w)"
    using 2(1) by (cases st; cases st') auto
  have run: "VoteService_Vote (live_loader ?c ?s E) (live_votes ?c ?s E) (DedupHMACKey cfg) (k_get k) (k_got k) i dev ids now (w, C) =
      ((w', C'), y)"
    using 2(2) st by (simp add: live_api_def Let_def)
  have read: "\<exists>d. evolves ?c d0 d \<and> evolves ?c d (w_db w') \<and> (cached C (k_get k) i = Some p \<or> GetByID ?c (failing (E C_Get)) i d = Inr p)"
    if "cached C (k_get k) i = Some p \<or> cached C (k_get k) i = None \<and> snd (live_loader ?c ?s E i w) = Inr p" for p
    using Vote_reads [OF cache that run] evolves_trans [OF _ st(4)] by blast
  from live_outcome [OF st(3) cache _ run] 2(3) st(2) show ?case
    unfolding may_cast_def st using read by (simp only: fst_conv snd_conv) blast
qed

context live_http
begin

lemmas http_outcome = http.vote_request_told

end

section \<open>Claims\<close>

text \<open>C30. The API serves only what is safe to serve, and stays so: when the start-up comes to serving, the
  configuration is one that Load accepts (in whatever order it walks its map), the database and
  Redis have answered, the store and the repository use the same positive number of vote buckets,
  and every active poll is on that number, now and after any writes of processes with that
  configuration. Otherwise the process exits, with status 2 exactly for a configuration that is not
  accepted and with 1 for everything else.\<close>

theorem api_serves_only_when_safe:
  assumes "start_up E order accepts srv cl env' v w = (w', x)" and "key_order order" and "postgres_server srv" and "db_inv (w_db w)"
  shows "case x of
      Serving c \<Rightarrow> Config.Load E order = Inr c \<and> safe_config c \<and> accepts (DatabaseURL c) \<and>
        (\<exists>ns. link (env' C_PingDB) = Reply ns) \<and> (\<exists>ns. link (env' C_PingRedis) = Reply ns) \<and>
        0 < buckets (main_store c cl) \<and> int (buckets (main_store c cl)) = vote_buckets (main_repo c srv) \<and>
        (\<forall>d. evolves (main_repo c srv) (w_db w') d \<longrightarrow> ValidateActiveBuckets (main_repo c srv) no_faults d = None)
    | Exit n \<Rightarrow> n \<in> {1, 2} \<and> (n = 2 \<longleftrightarrow> (\<exists>e. Config.Load E order = Inl e))"
proof (cases x)
  case (Serving c)
  note up = start_up_serves [OF assms(1) [unfolded Serving]]
  have safe: "safe_config c" by (rule Load_safe [OF up(1) assms(2)])
  then have n: "0 < buckets (main_store c cl)" "int (buckets (main_store c cl)) = vote_buckets (main_repo c srv)"
    by (simp_all add: safe_config_def main_store_def main_repo_def)
  have srv: "postgres_server (server (main_repo c srv))" using assms(3) by (simp add: main_repo_def)
  have "db_inv (w_db w')" using postgres_server.inv_evolves [OF srv up(4) refl assms(4)] .
  from active_buckets_kept [OF srv this _ up(3)] up safe n show ?thesis by (simp add: Serving)
next
  case (Exit n)
  then show ?thesis using assms(1)
    by (auto simp: start_up_def Let_def split: sum.splits if_splits prod.splits option.splits)
qed

theorem api_serves_only_when_safe_witness:
  "\<exists>w'. start_up demo_environ duration_keys (\<lambda>url. True) Pg Mem (demo_env 0) (demo_env 0 C_ListActive) (demo_world demo_db) = (w', Serving demo_loaded) \<and>
     0 < buckets (main_store demo_loaded Mem)"
proof -
  have "ValidateActiveBuckets (main_repo demo_loaded Pg) no_faults demo_db = None"
    by (simp add: buckets_None no_faults_def demo_state demo_rows)
  then obtain w' where w': "start_up demo_environ duration_keys (\<lambda>url. True) Pg Mem (demo_env 0) (demo_env 0 C_ListActive) (demo_world demo_db) =
      (w', Serving demo_loaded)"
    by (simp add: start_up_def demo_Load ping_def demo_env_def on_db_def others_def none_else_def db_run_def reading_def demo_world_def Let_def)
  have "key_order duration_keys" by (simp add: key_order_def duration_keys_def)
  from api_serves_only_when_safe [OF w' this] demo_server demo_inv w' show ?thesis
    by (simp add: demo_repo_def demo_world_def)
qed

text \<open>A configuration with a snapshot interval of zero is served, and the process crashes.\<close>

lemma zero_interval_crashes: "serve (c\<lparr>SnapshotInterval := 0\<rparr>) x = 2"
  by (cases x) simp_all

lemma http_vote_outcome:
  assumes "redis_server cl look" and "look r0 t0 = Map.empty" and "recorded (main_store cfg cl) r0 w" and "cache_ok C" and "votes_in r i"
    and "NewRouter (live_api cfg srv cl E k em) q r \<lparr>st_svc = (w, C), st_metrics = m, st_qr = Q\<rparr> = (st', res)"
    and "in_bounds (main_store cfg cl) t0 T (fst (st_svc st'))"
  shows "w_status res \<in> {200, 201, 400, 404, 409, 415, 422, 429, 503} \<and>
    vote_told (foreign E) (\<lambda>cmd. \<exists>ids dev ck. chosen r = Some ids \<and> api_device (live_api cfg srv cl E k em) q r = Inr (dev, ck) \<and>
        may_cast cfg srv E k C (w_db w) (fst (st_svc st')) i dev ids (q_now q) cmd)
      (w_status res) (cast_ballots (main_store cfg cl) (w_calls w)) (cast_ballots (main_store cfg cl) (w_calls (fst (st_svc st')))) \<and>
    m_recorded (st_metrics st') = m_recorded m + (if w_status res = 201 then 1 else 0) \<and>
    m_duplicates (st_metrics st') = m_duplicates m + (if w_status res = 200 then 1 else 0)"
proof -
  have L: "live_http cfg cl look r0 t0 C"
    using assms(1,2,4) by (intro live_http.intro live_voting.intro live_voting_axioms.intro live_http_axioms.intro) (simp_all add: main_store_def)
  show ?thesis
    using live_http.http_outcome [OF L, where st = "\<lparr>st_svc = (w, C), st_metrics = m, st_qr = Q\<rparr>" and ?d0.0 = "w_db w", OF _ assms(5,6,7)]
      assms(3) evolves.none by simp
qed


section \<open>A vote, step by step\<close>

definition demo_config :: config where
  "demo_config = demo_loaded\<lparr>VoteBuckets := 2, RedisRetention := 168 * Hour, MaxRedisTTL := 720 * Hour\<rparr>"

lemma demo_wired [simp]: "main_store demo_config Mem = demo_store"
  by (simp add: main_store_def demo_config_def demo_store_def)

lemma demo_read_wired: "GetByID (main_repo c Pg) f i d = GetByID demo_repo f i d"
  by (simp add: GetByID_def main_repo_def demo_repo_def)

definition demo_body :: string where
  "demo_body = (let q = [CHR 0x22] in ''{'' @ q @ ''option_ids'' @ q @ '':['' @ q @ demo_yes @ q @ '']}'')"

definition demo_ballot_request :: request where
  "demo_ballot_request = \<lparr>rq_Method = ''POST'', rq_Path = seg_path [''api'', ''v1'', ''polls'', demo_id, ''votes''],
     rq_EscapedPath = seg_path [''api'', ''v1'', ''polls'', demo_id, ''votes''], rq_RawQuery = [],
     rq_Header = [(''Content-Type'', ''application/json'')], rq_RemoteAddr = ''192.0.2.10:4711'', rq_Body = demo_body, rq_BodyOk = True, rq_ID = []\<rparr>"

lemma demo_votes_in: "votes_in demo_ballot_request demo_id"
proof -
  have "IsUUID demo_id" by code_simp
  then show ?thesis by (simp add: votes_in_def demo_ballot_request_def)
qed

lemma demo_json: "snd (requireJSON (demo_ballot_request\<lparr>rq_ID := x\<rparr>) w)" "fst (requireJSON (demo_ballot_request\<lparr>rq_ID := x\<rparr>) w) = w"
proof -
  have parts: "media_type_ok ''application/json''" "Go_Http.to_lower ''application/json'' = ''application/json''"
    "Go_Http.before (CHR '';'') ''application/json'' = ''application/json''" "media_params 0 Map.empty []"
    by code_simp+
  have "trim_space ''application/json'' = ''application/json''" by (rule trim_space_plain) (simp_all add: is_space_def)
  then have "ParseMediaType ''application/json'' = Some ''application/json''" using parts by (simp add: ParseMediaType_def)
  then show "snd (requireJSON (demo_ballot_request\<lparr>rq_ID := x\<rparr>) w)" "fst (requireJSON (demo_ballot_request\<lparr>rq_ID := x\<rparr>) w) = w"
    by (simp_all add: requireJSON_def header_get_def demo_ballot_request_def)
qed

lemma demo_chosen: "chosen demo_ballot_request = Some [demo_yes]"
proof -
  have v: "json_value demo_body = Some (JObj [(''option_ids'', JArr [JStr demo_yes])], [])" and l: "length demo_body \<le> 32 * 1024"
    by code_simp+
  have t: "json_string demo_yes = Some demo_yes" "json_string ''option_ids'' = Some ''option_ids''" by (simp_all add: json_string_ascii)
  have "voteRequest (JObj [(''option_ids'', JArr [JStr demo_yes])]) ([], 0) = Some ([demo_yes], 1)"
    by (simp add: voteRequest_def decode_struct_def field_of_def decode_slice_def decode_string_def t)
  with v l show ?thesis by (simp add: chosen_def decodeJSON_def demo_ballot_request_def slice_of_def)
qed

lemma demo_option_ok: "bad_option {} [demo_yes] = None"
  by code_simp

definition demo_ballot_env :: request_env where
  "demo_ballot_env = \<lparr>q_now = Second, q_cookie = Some (replicate 32 1), q_id = Some (replicate 12 5), q_duration = Millisecond\<rparr>"

definition demo_clocks :: clocks where
  "demo_clocks = \<lparr>k_get = 0, k_got = 0, k_publish = 0, k_put = 0\<rparr>"

definition demo_embedded :: embedded where
  "demo_embedded = \<lparr>em_encode = (\<lambda>s. Inl (Other ''content too long'')), em_files = (\<lambda>f. None), em_page = (\<lambda>u. []), em_spec = []\<rparr>"

abbreviation demo_live :: "(mem world \<times> poll_cache) api" where
  "demo_live \<equiv> live_api demo_config Pg Mem (demo_env Second) demo_clocks demo_embedded"

lemma demo_device: "\<exists>dev ck. api_device demo_live demo_ballot_env demo_ballot_request = Inr (dev, ck)"
  by (simp add: api_device_def DeviceID_def demo_ballot_request_def demo_ballot_env_def header_values_def request_cookie_def Let_def)

interpretation demo_http: live_http demo_config Mem mem_look Pg "demo_env Second" "[]" 0 Hour demo_clocks demo_embedded "NewPollCache 5" demo_active
  by (intro live_http.intro live_voting.intro live_voting_axioms.intro live_http_axioms.intro cache_ok_new)
     (use demo_redis demo_mem(2) in \<open>simp_all add: demo_store_def\<close>)

text \<open>The rate limiter lets the first request of the minute through.\<close>

lemma demo_no_rate: "mem_look (store_run demo_store demo_calls []) Second (rate_key h now) = None"
proof -
  have gates: "mem_look (fst (run_steps (map (set_gate demo_store 0 demo_id ''active'' d) bs) r)) 0 (rate_key h now) = mem_look r 0 (rate_key h now)"
    if "0 < px Mem d" for bs d r
  proof (induction bs arbitrary: r)
    case (Cons b bs)
    have "mem_look (fst (exec Mem 0 (SET_PX (GateKey demo_id b) ''active'' (px Mem d)) r)) 0 (rate_key h now) = mem_look r 0 (rate_key h now)"
      using redis_server.SET_PX_state [OF mem.redis_server_axioms that, of 0 "GateKey demo_id b" "''active''" r]
      by (simp add: rate_key_def GateKey_def)
    with Cons show ?case by (simp add: set_gate_def demo_store_def split_beta)
  qed simp
  have "store_run demo_store demo_calls [] = fst (run_steps (map (set_gate demo_store 0 demo_id ''active'' (TTL demo_store Hour 0)) [0..<2]) [])"
    by (simp add: demo_calls_def SetupGates_def deliver_def demo_store_def split_beta Let_def)
  moreover have pos: "0 < px Mem (TTL demo_store Hour 0)" unfolding demo_ttls by (simp add: Mem_def mem_px_def duration_unit_defs)
  ultimately have "mem_look (store_run demo_store demo_calls []) 0 (rate_key h now) = mem_look [] 0 (rate_key h now)"
    using gates [OF pos] by simp
  then have "mem_look (store_run demo_store demo_calls []) 0 (rate_key h now) = None" using demo_mem(2) by simp
  then show ?thesis using mem_look_later [of 0 Second] by (simp add: unexpired_def duration_unit_defs)
qed

lemma demo_allowed: "snd (AllowRate demo_store (Reply []) Second Second h 120 (store_run demo_store demo_calls [])) = Inr True"
  using redis_server.AllowRate_window [OF demo_mem(1) refl, where ns = "[]" and c = 0 and d = "s_after Second 65" and h = h and now = Second and t = Second
      and r = "store_run demo_store demo_calls []" and limit = 120] demo_no_rate
  by (simp add: window_def in64_def)

abbreviation demo_key_text :: string where
  "demo_key_text \<equiv> network_key demo_live demo_ballot_request"

definition demo_limited :: "invocation list" where
  "demo_limited = demo_calls @ [(Reply [], Second, Second, Allow_c demo_key_text 120)]"

definition demo_after_limit :: "mem world" where
  "demo_after_limit = demo_running\<lparr>w_redis := store_run demo_store demo_limited [], w_calls := demo_limited\<rparr>"

lemma demo_box: "history_box demo_store demo_limited = history_box demo_store demo_calls"
  by (simp add: demo_limited_def history_box_append history_events_def delivered_def)

lemma demo_allow_step:
  "live_allow c demo_store (demo_env Second) demo_key_text 120 demo_running = (demo_after_limit, Inr True)"
  using demo_allowed [of demo_key_text]
  by (simp add: live_allow_def on_redis_def others_def demo_env_def none_else_def db_run_def demo_running_def demo_after_limit_def
      demo_limited_def store_run_append Let_def split_beta)

definition demo_cmd :: "string \<Rightarrow> vote_command" where
  "demo_cmd dev = \<lparr>vc_PollID = demo_id, vc_DeviceHash = DeviceHash (DedupHMACKey demo_config) demo_id dev, vc_OptionIDs = [demo_yes], vc_EndsAt = Hour\<rparr>"

definition demo_recorded :: "string \<Rightarrow> invocation list" where
  "demo_recorded dev = demo_limited @ [(Reply [], Second, Second, Record_c (demo_cmd dev))]"

lemma demo_recorded_ok: "history_ok demo_store 0 Second Hour (demo_recorded dev)"
  using demo_TTL(1) DeviceHash_plain [of "DedupHMACKey demo_config" demo_id dev] demo_store_ok
  by (simp add: demo_recorded_def demo_limited_def demo_cmd_def history_ok_def demo_calls_def history_events_def delivered_def
      gate_events_def demo_store_def duration_unit_defs numeral_2_eq_2)

lemma demo_answer: "vote_answer 2 Second (demo_cmd dev) (history_box demo_store demo_limited) = Inr VoteRecorded"
proof -
  have "Bucket h 2 < 2" for h by (simp add: Bucket_less)
  then show ?thesis
    unfolding demo_box using demo_gate_open demo_no_ballots by (simp add: vote_answer_def voters_def cast_ballots_def demo_cmd_def)
qed

lemma demo_record_step:
  "Record demo_store (Reply []) Second Second (demo_cmd dev) (store_run demo_store demo_limited []) =
     (store_run demo_store (demo_recorded dev) [], Inr VoteRecorded)"
proof -
  have "snd (Record demo_store (Reply []) Second Second (demo_cmd dev) (store_run demo_store demo_limited [])) = Inr VoteRecorded"
    using Record_after_history [OF demo_mem demo_recorded_ok [unfolded demo_recorded_def]] demo_answer
    by (simp add: demo_store_def ran_before_def)
  then show ?thesis by (simp add: prod_eq_iff demo_recorded_def store_run_append)
qed

lemma demo_service_votes:
  "\<exists>C'. VoteService_Vote (live_loader (main_repo demo_config Pg) demo_store (demo_env Second))
      (live_votes (main_repo demo_config Pg) demo_store (demo_env Second)) (DedupHMACKey demo_config) 0 0 demo_id dev [demo_yes] Second
      (demo_after_limit, NewPollCache 5) =
    ((demo_after_limit\<lparr>w_redis := store_run demo_store (demo_recorded dev) [], w_calls := demo_recorded dev\<rparr>, C'), Inr VoteRecorded)"
proof -
  have run: "\<not> Second < 0" "Second < Hour" by (simp_all add: duration_unit_defs)
  have cmd: "\<lparr>vc_PollID = demo_id, vc_DeviceHash = DeviceHash (DedupHMACKey demo_config) demo_id dev, vc_OptionIDs = [demo_yes], vc_EndsAt = Hour\<rparr> = demo_cmd dev"
    by (simp add: demo_cmd_def)
  have db: "w_db demo_after_limit = demo_active" "w_now demo_after_limit = Second" "w_redis demo_after_limit = store_run demo_store demo_limited []"
    "w_calls demo_after_limit = demo_limited"
    by (simp_all add: demo_after_limit_def demo_running_def)
  show ?thesis
    using demo_record_step [of dev] run
    by (simp add: VoteService_Vote_def cache_get_def entry_for_def NewPollCache_def cache_hit_def zero_entry_def
        vote_loader_def live_loader_def on_db_def reading_def others_def demo_env_def none_else_def db_run_def db demo_read_wired
        demo_poll_loaded demo_poll_fields running_def demo_selection demo_poll_simps live_votes_def on_redis_def cmd
        demo_recorded_def Let_def split_beta)
qed

abbreviation demo_start :: "(mem world \<times> poll_cache) api_state" where
  "demo_start \<equiv> \<lparr>st_svc = (demo_running, NewPollCache 5), st_metrics = empty_metrics, st_qr = Map.empty\<rparr>"

lemma demo_live_parts:
  "a_AllowRate (api_rate demo_live) h n st = on_svc (live_allow (main_repo demo_config Pg) demo_store (demo_env Second) h n) st"
  "api_rateLimit demo_live = 120"
  "api_votes demo_live i dev ids now st = VoteService_Vote (live_loader (main_repo demo_config Pg) demo_store (demo_env Second))
      (live_votes (main_repo demo_config Pg) demo_store (demo_env Second)) (DedupHMACKey demo_config) 0 0 i dev ids now st"
proof -
  have "RateLimitPerMinute demo_config = 120" by (simp add: demo_config_def demo_loaded_def)
  then show "a_AllowRate (api_rate demo_live) h n st = on_svc (live_allow (main_repo demo_config Pg) demo_store (demo_env Second) h n) st"
    "api_rateLimit demo_live = 120"
    "api_votes demo_live i dev ids now st = VoteService_Vote (live_loader (main_repo demo_config Pg) demo_store (demo_env Second))
      (live_votes (main_repo demo_config Pg) demo_store (demo_env Second)) (DedupHMACKey demo_config) 0 0 i dev ids now st"
    by (simp_all add: live_api_def Let_def demo_clocks_def)
qed

lemma decodeJSON_id [simp]: "decodeJSON (r\<lparr>rq_ID := x\<rparr>) d y = decodeJSON r d y"
  by (simp add: decodeJSON_def)

lemma network_key_id [simp]: "network_key A (r\<lparr>rq_ID := x\<rparr>) = network_key A r"
  by (simp add: network_key_def header_get_def)

lemma demo_handler_votes:
  "\<exists>st' res dev. Http_Handlers.vote demo_live demo_ballot_env (demo_ballot_request\<lparr>rq_ID := x\<rparr>) demo_id (demo_start, w) = (st', res) \<and>
     w_status res = 201 \<and> fst (st_svc st') = demo_stage (demo_recorded dev)"
proof -
  obtain dev ck where d: "api_device demo_live demo_ballot_env demo_ballot_request = Inr (dev, ck)" using demo_device by blast
  obtain C' where v: "VoteService_Vote (live_loader (main_repo demo_config Pg) demo_store (demo_env Second))
      (live_votes (main_repo demo_config Pg) demo_store (demo_env Second)) (DedupHMACKey demo_config) 0 0 demo_id dev [demo_yes] Second
      (demo_after_limit, NewPollCache 5) =
    ((demo_after_limit\<lparr>w_redis := store_run demo_store (demo_recorded dev) [], w_calls := demo_recorded dev\<rparr>, C'), Inr VoteRecorded)"
    using demo_service_votes by blast
  obtain req where req: "decodeJSON demo_ballot_request voteRequest ([], 0) = Some req" "slice_of req = [demo_yes]"
    using demo_chosen by (auto simp: chosen_def)
  have i: "IsUUID demo_id" using demo_votes_in by (simp add: votes_in_def)
  have q: "q_now demo_ballot_env = Second" by (simp add: demo_ballot_env_def)
  have "vote_body demo_live demo_ballot_env (demo_ballot_request\<lparr>rq_ID := x\<rparr>) demo_id [demo_yes] (demo_start, w) =
      send_vote (demo_ballot_request\<lparr>rq_ID := x\<rparr>) ck (Inr VoteRecorded) (demo_start\<lparr>st_svc := (demo_after_limit\<lparr>w_redis := store_run demo_store (demo_recorded dev) [],
        w_calls := demo_recorded dev\<rparr>, C')\<rparr>, w)"
    by (simp add: vote_body_def demo_live_parts on_svc_def demo_allow_step d q v)
  moreover have "demo_after_limit\<lparr>w_redis := store_run demo_store (demo_recorded dev) [], w_calls := demo_recorded dev\<rparr> = demo_stage (demo_recorded dev)"
    by (simp add: demo_after_limit_def demo_running_def demo_stage_def)
  moreover have "decodeJSON (demo_ballot_request\<lparr>rq_ID := x\<rparr>) voteRequest ([], 0) = Some req"
    using req(1) by simp
  ultimately show ?thesis
    using i demo_json [of x w] req(2) demo_option_ok
    by (auto simp: vote_def split_beta send_vote_def Let_def writer_simps count_recorded_def simp del: bad_option.simps)
qed

lemma demo_request_votes:
  "\<exists>st' res dev. NewRouter demo_live demo_ballot_env demo_ballot_request demo_start = (st', res) \<and>
     w_status res = 201 \<and> fst (st_svc st') = demo_stage (demo_recorded dev)"
proof -
  let ?i = "request_id demo_ballot_env demo_ballot_request"
  obtain w0 where w0: "NewRouter demo_live demo_ballot_env demo_ballot_request demo_start =
      (let (st1, w1) = public_mux demo_live demo_ballot_env (demo_ballot_request\<lparr>rq_ID := ?i\<rparr>) (demo_start, w0) in
       (st1\<lparr>st_metrics := ObserveHTTP (routePattern demo_ballot_request) (rq_Method demo_ballot_request) (w_status w1) (q_duration demo_ballot_env) (st_metrics st1)\<rparr>, w1))"
    by (rule NewRouter_sends)
  have mux: "public_mux demo_live demo_ballot_env (demo_ballot_request\<lparr>rq_ID := ?i\<rparr>) (demo_start, w0) =
      Http_Handlers.vote demo_live demo_ballot_env (demo_ballot_request\<lparr>rq_ID := ?i\<rparr>) demo_id (demo_start, w0)"
    using demo_votes_in vote_route [OF IsUUID_plain, of demo_id] by (simp add: public_mux_def run_mux_def votes_in_def)
  obtain st1 res dev where "Http_Handlers.vote demo_live demo_ballot_env (demo_ballot_request\<lparr>rq_ID := ?i\<rparr>) demo_id (demo_start, w0) = (st1, res)"
    "w_status res = 201" "fst (st_svc st1) = demo_stage (demo_recorded dev)"
    using demo_handler_votes by blast
  then show ?thesis unfolding w0 mux by simp blast
qed

lemma demo_voted_in_bounds: "in_bounds demo_store 0 Hour (demo_stage (demo_recorded dev))"
  using demo_recorded_ok by (simp add: in_bounds_def demo_stage_def)


end
