(* ===== verification/Vote_To_Result.thy ===== *)
theory Vote_To_Result
  imports Api_Main
begin

text \<open>
  The way of a vote through the whole program: from the request that the API answers with 201, over the
  ballot in Redis, to the final result that closing stores in PostgreSQL. The process that closes may be
  another one than the one that took the vote.
\<close>

section \<open>Polls that are read twice\<close>

text \<open>Cached polls were read from the tables, under the id that they have.\<close>

definition cache_read :: "repo \<Rightarrow> db \<Rightarrow> poll_cache \<Rightarrow> bool" where
  "cache_read c d C \<longleftrightarrow> (\<forall>t i p. cached C t i = Some p \<longrightarrow> read_from d p \<and> uuid_in (server c) i = Some (ID p))"

lemma cache_read_new: "cache_read c d (NewPollCache ttl)"
  by (simp add: cache_read_def cached_def NewPollCache_def)

lemma cache_read_later:
  assumes "cache_read c d C" and "evolves c' d d'" and "postgres_server (server c')" and "db_inv d"
  shows "cache_read c d' C"
  using assms(1) postgres_server.read_from_evolves [OF assms(3,2) refl assms(4)] by (auto simp: cache_read_def)

text \<open>Loading a poll for a vote keeps this.\<close>

lemma cache_read_get:
  assumes "cache_read c (w_db w) C" and "cache_ok C" and "postgres_server (server c)" and "db_inv (w_db w)"
    and g: "cache_get clk clk' i (vote_loader (live_loader c s E)) (w, C) = ((w', C'), x)"
  shows "cache_read c (w_db w') C'"
proof -
  note got = cache_get_cases [OF assms(2), where now = clk and i = i and now' = clk' and loader = "vote_loader (live_loader c s E)" and s = w]
  show ?thesis
  proof (cases "cached C clk i")
    case (Some p)
    then show ?thesis using got g assms(1) by simp
  next
    case None
    let ?d = "db_run c (o_writes (before (E C_Get))) (w_db w)"
    have same: "fst (vote_loader (live_loader c s E) i w) = fst (live_loader c s E i w)"
      by (simp add: vote_loader_def split: prod.split sum.split)
    have "w' = fst (live_loader c s E i w)" using None got g same by auto
    then have w': "w_db w' = ?d" by (simp add: live_loader_def w_on_db reading_def)
    have inv: "db_inv ?d" by (rule postgres_server.inv_evolves [OF assms(3) db_run_evolves refl assms(4)])
    have old: "cache_read c ?d C" by (rule cache_read_later [OF assms(1) db_run_evolves assms(3,4)])
    have new: "read_from ?d p \<and> uuid_in (server c) i = Some (ID p)" if "snd (vote_loader (live_loader c s E) i w) = Inr p" for p
    proof -
      have "snd (live_loader c s E i w) = Inr p"
        using that by (auto simp: vote_loader_def split: prod.splits sum.splits if_splits)
      then have "GetByID c (failing (E C_Get)) i ?d = Inr p" by (simp add: live_loader_def w_on_db reading_def)
      from GetByID_read [OF inv this] show ?thesis by auto
    qed
    from None got g have C': "\<forall>t j. cached C' t j = (case snd (vote_loader (live_loader c s E) i w) of
        Inr p \<Rightarrow> if j = i then (if t < clk' + cache_ttl C then Some p else None) else cached C t j
      | Inl e \<Rightarrow> cached C t j)" by auto
    show ?thesis
      unfolding cache_read_def w'
    proof (intro allI impI)
      fix t j p
      assume "cached C' t j = Some p"
      then consider "cached C t j = Some p" | "j = i" "snd (vote_loader (live_loader c s E) i w) = Inr p"
        using C' by (auto split: sum.splits if_splits)
      then show "read_from ?d p \<and> uuid_in (server c) j = Some (ID p)"
        using old new by cases (auto simp: cache_read_def)
    qed
  qed
qed

text \<open>Two polls that were read under one id, at any two moments, have the same options.\<close>

lemma read_twice:
  assumes "postgres_server (server c)" and "db_inv d"
    and "read_from d p" and "uuid_in (server c) i = Some (ID p)" and "read_from d q" and "uuid_in (server c) i = Some (ID q)"
  shows "ID p = ID q" and "optionIDs p = optionIDs q"
  using assms read_from_id(3) [OF assms(1-3)] read_from_id(3) [OF assms(1,2,5)] by (simp_all add: optionIDs_def)

lemma may_cast_read:
  assumes "may_cast cfg srv E k C d0 w i dev ids now cmd" and "postgres_server srv" and "db_inv d0" and "cache_read (main_repo cfg srv) d0 C"
  obtains p where "cmd = \<lparr>vc_PollID = ID p, vc_DeviceHash = DeviceHash (DedupHMACKey cfg) (ID p) dev, vc_OptionIDs = ids, vc_EndsAt = EndsAt p\<rparr>"
    and "ValidateSelection p ids = None" and "read_from (w_db w) p" and "uuid_in srv i = Some (ID p)"
proof -
  let ?c = "main_repo cfg srv"
  have srv: "postgres_server (server ?c)" "server ?c = srv" using assms(2) by (simp_all add: main_repo_def)
  from assms(1) obtain p d where p: "ValidateSelection p ids = None" "evolves ?c d0 d" "evolves ?c d (w_db w)"
    "cached C (k_get k) i = Some p \<or> GetByID ?c (failing (E C_Get)) i d = Inr p"
    "cmd = \<lparr>vc_PollID = ID p, vc_DeviceHash = DeviceHash (DedupHMACKey cfg) (ID p) dev, vc_OptionIDs = ids, vc_EndsAt = EndsAt p\<rparr>"
    by (auto simp: may_cast_def)
  have inv: "db_inv d" by (rule postgres_server.inv_evolves [OF srv(1) p(2) refl assms(3)])
  have "read_from d p \<and> uuid_in srv i = Some (ID p)"
    using p(4) cache_read_later [OF assms(4) p(2) srv(1) assms(3)] GetByID_read [OF inv, of ?c "failing (E C_Get)" i p] srv(2)
    by (auto simp: cache_read_def)
  with that p(1,5) postgres_server.read_from_evolves [OF srv(1) p(3) refl inv] show thesis by blast
qed

section \<open>Ballots that are there\<close>

lemma ballots_of_voter:
  assumes "distinct (voters bl)" and "(p, h, ids) \<in> set bl"
  shows "filter (\<lambda>(q, g, os). q = p \<and> g = h) bl = [(p, h, ids)]"
  using assms
proof (induction bl)
  case (Cons b bl)
  obtain q g os where b: "b = (q, g, os)" by (cases b)
  have gone: "filter (\<lambda>(q, g, os). q = p \<and> g = h) bl = []" if "(p, h) \<notin> set (voters bl)"
    using that by (force simp: voters_def filter_empty_conv)
  show ?case
  proof (cases "b = (p, h, ids)")
    case True
    with Cons.prems(1) gone show ?thesis by (simp add: voters_def)
  next
    case False
    then have m: "(p, h, ids) \<in> set bl" using Cons.prems(2) by simp
    then have "(p, h) \<in> set (voters bl)" by (force simp: voters_def)
    moreover have "(q, g) \<notin> set (voters bl)" using Cons.prems(1) b by (simp add: voters_def)
    ultimately have "\<not> (q = p \<and> g = h)" by blast
    moreover have "distinct (voters bl)" using Cons.prems(1) by (simp add: voters_def)
    ultimately show ?thesis using Cons.IH m b by simp
  qed
qed simp

lemma ballots_counted:
  assumes "(p, h, ids) \<in> set bl"
  shows "0 < ballots_for p bl" and "k \<in> set ids \<Longrightarrow> 0 < ballots_choosing p k bl"
  using assms unfolding ballots_for_def ballots_choosing_def by (force simp: filter_empty_conv)+

lemma cast_ballots_kept: "b \<in> set (cast_ballots s h) \<Longrightarrow> b \<in> set (cast_ballots s (h @ h'))"
  using cast_ballots_grow [of h' s h] by auto

text \<open>A history only grows while a poll is closed.\<close>

definition grows :: "'r world \<Rightarrow> 'r world \<Rightarrow> bool" where
  "grows w w' \<longleftrightarrow> (\<exists>h. w_calls w' = w_calls w @ h)"

lemma grows_on: "grows w (fst (on_db c s e op w))" "grows w (fst (on_redis c s e k f w))"
  by (simp_all add: grows_def w_on_db w_calls_on_redis)

lemma live_calls_grow:
  "j_GetByID (live_results c s F) i w = (w', x) \<Longrightarrow> grows w w'"
  "j_LoadResult (live_results c s F) i w = (w', y) \<Longrightarrow> grows w w'"
  "j_SaveSnapshot (live_results c s F) p t fin w = (w', y) \<Longrightarrow> grows w w'"
  "j_CloseGates (live_store c s F) u e w = (w', z) \<Longrightarrow> grows w w'"
  "j_Totals (live_store c s F) u ids w = (w', v) \<Longrightarrow> grows w w'"
  by (auto simp: live_results_def live_store_def grows_on dest!: arg_cong [where f = fst])

lemma Close_grows:
  assumes "ResultService_Close (live_results c s F) (live_store c s F) i (w, C) = ((w', C'), y)"
  shows "grows w w'"
  using assms
  by (auto simp: ResultService_Close_def Let_def split: prod.splits sum.splits option.splits if_splits dest!: live_calls_grow)
    (auto simp: grows_def)

text \<open>What 201 leaves behind: a ballot of a poll that was read from the tables.\<close>

lemma recorded_ballot:
  assumes "postgres_server srv" and "redis_server cl look" and "look r0 t0 = Map.empty"
    and "world_ok (main_store cfg cl) r0 w" and "cache_ok C" and "cache_read (main_repo cfg srv) (w_db w) C" and "votes_in rq i"
    and "NewRouter (live_api cfg srv cl E k em) q rq \<lparr>st_svc = (w, C), st_metrics = m, st_qr = Q\<rparr> = (st1, res)"
    and "in_bounds (main_store cfg cl) t0 T (fst (st_svc st1))" and "w_status res = 201"
  obtains p dev ck ids where "api_device (live_api cfg srv cl E k em) q rq = Inr (dev, ck)" and "chosen rq = Some ids"
    and "ids \<noteq> []" and "set ids \<subseteq> set (optionIDs p)" and "db_inv (w_db (fst (st_svc st1)))" and "read_from (w_db (fst (st_svc st1))) p"
    and "uuid_in srv i = Some (ID p)"
    and "(ID p, DeviceHash (DedupHMACKey cfg) (ID p) dev, ids) \<in> set (cast_ballots (main_store cfg cl) (w_calls (fst (st_svc st1))))"
proof -
  let ?s = "main_store cfg cl" and ?c = "main_repo cfg srv" and ?w = "fst (st_svc st1)"
  have srv: "postgres_server (server ?c)" using assms(1) by (simp add: main_repo_def)
  have inv: "db_inv (w_db w)" and rec: "recorded ?s r0 w" using assms(4) by (simp_all add: world_ok_def)
  from http_vote_outcome [OF assms(2,3) rec assms(5,7-9)] assms(10) obtain cmd ids dev ck xs where
    cmd: "chosen rq = Some ids" "api_device (live_api cfg srv cl E k em) q rq = Inr (dev, ck)"
      "may_cast cfg srv E k C (w_db w) ?w i dev ids (q_now q) cmd" "cast_ballots ?s (w_calls ?w) = ballot_of cmd # xs @ cast_ballots ?s (w_calls w)"
    by (auto simp: vote_told_def)
  from may_cast_read [OF cmd(3) assms(1) inv assms(6)] obtain p where p:
    "cmd = \<lparr>vc_PollID = ID p, vc_DeviceHash = DeviceHash (DedupHMACKey cfg) (ID p) dev, vc_OptionIDs = ids, vc_EndsAt = EndsAt p\<rparr>"
    "ValidateSelection p ids = None" "read_from (w_db ?w) p" "uuid_in srv i = Some (ID p)" by blast
  have "evolves ?c (w_db w) (w_db ?w)" using cmd(3) evolves_trans by (auto simp: may_cast_def)
  note inv1 = postgres_server.inv_evolves [OF srv this refl inv]
  have "ids \<noteq> []" "set ids \<subseteq> set (optionIDs p)" using p(2) by (simp_all add: ValidateSelection_None_iff optionIDs_def)
  moreover have "(ID p, DeviceHash (DedupHMACKey cfg) (ID p) dev, ids) \<in> set (cast_ballots ?s (w_calls ?w))"
    unfolding cmd(4) p(1) by (simp add: ballot_of_def)
  ultimately show thesis using that cmd(1,2) p(3,4) inv1 by blast
qed

section \<open>Claims\<close>

text \<open>C4. Every accepted vote is in the final result, once. A request to vote is answered with 201, by a process whose
  cache holds only polls that it read. Later, after any other calls and writes, some process on the same
  servers closes the poll, under the conditions under which closing counts: the gates are not opened again
  while it runs and nothing final or newer is stored when it saves. Then the ballots of the request's
  device in this poll are exactly one, with the option IDs of the request's body; it is among the
  participants of the result, and every option that it chose has the number of all ballots that
  chose it, this one included; and this result is what LoadResult answers from then on.\<close>

theorem accepted_vote_is_in_the_result:
  assumes "postgres_server srv" and "redis_server cl look" and "look r0 t0 = Map.empty" and "store_ok (main_store cfg cl)"
    and "world_ok (main_store cfg cl) r0 w" and "cache_ok C" and "cache_read (main_repo cfg srv) (w_db w) C" and "votes_in rq i"
    and "NewRouter (live_api cfg srv cl E k em) q rq \<lparr>st_svc = (w, C), st_metrics = m, st_qr = Q\<rparr> = (st1, res)"
    and "in_bounds (main_store cfg cl) t0 T (fst (st_svc st1))" and "w_status res = 201"
    and "evolves (main_repo cfg srv) (w_db (fst (st_svc st1))) (w_db w2)" and "w_calls w2 = w_calls (fst (st_svc st1)) @ h"
    and "recorded (main_store cfg cl) r0 w2" and "server c = srv"
    and "\<forall>x \<in> set (o_calls (before (F C_Totals)) @ o_calls (before (F C_Save))). \<not> opened_by (ID p) x"
    and "failing (F C_Save) = no_faults" and "inside (F C_Save) = (\<lambda>_. [])"
    and "j_GetByID (live_results c (main_store cfg cl) F) i w2 = (w3, Inr p)" and "Status p = Active"
    and "ResultService_Close (live_results c (main_store cfg cl) F) (live_store c (main_store cfg cl) F) i (w2, C2) = ((w4, C4), Inr (p', r))"
    and "history_ok (main_store cfg cl) t0 t1 T (w_calls w4)"
    and "existing_final c (ID p) (db_at_save c F w2) = None"
    and "\<forall>x. rr_at (db_at_save c F w2) (ID p) = Some x \<longrightarrow> rr_captured_at x \<le> ts srv (api_now (F C_Totals))"
  shows "\<exists>dev ck ids. api_device (live_api cfg srv cl E k em) q rq = Inr (dev, ck) \<and> chosen rq = Some ids \<and>
    ids \<noteq> [] \<and> set ids \<subseteq> set (optionIDs p) \<and>
    filter (\<lambda>(a, g, os). a = ID p \<and> g = DeviceHash (DedupHMACKey cfg) (ID p) dev) (cast_ballots (main_store cfg cl) (w_calls w4)) =
      [(ID p, DeviceHash (DedupHMACKey cfg) (ID p) dev, ids)] \<and>
    res_Participants r = int (ballots_for (ID p) (cast_ballots (main_store cfg cl) (w_calls w4))) \<and> 0 < res_Participants r \<and>
    (\<forall>o' \<in> set ids. res_Options r o' = Some (int (ballots_choosing (ID p) o' (cast_ballots (main_store cfg cl) (w_calls w4)))) \<and>
      0 < the (res_Options r o')) \<and>
    (\<forall>d. evolves c (w_db w4) d \<longrightarrow> snd (LoadResult c no_faults (\<lambda>x. x) (ID p) d) = Inr r)"
proof -
  let ?s = "main_store cfg cl" and ?c = "main_repo cfg srv" and ?w1 = "fst (st_svc st1)"
  have srv: "postgres_server (server ?c)" "postgres_server (server c)" "server ?c = srv"
    using assms(1,15) by (simp_all add: main_repo_def)
  obtain p0 dev ck ids where device: "api_device (live_api cfg srv cl E k em) q rq = Inr (dev, ck)" "chosen rq = Some ids"
    and ids: "ids \<noteq> []" "set ids \<subseteq> set (optionIDs p0)" and inv1: "db_inv (w_db ?w1)"
    and p0: "read_from (w_db ?w1) p0" "uuid_in srv i = Some (ID p0)"
    and ballot: "(ID p0, DeviceHash (DedupHMACKey cfg) (ID p0) dev, ids) \<in> set (cast_ballots ?s (w_calls ?w1))"
    by (rule recorded_ballot [OF assms(1-3,5-11)])
  note inv2 = postgres_server.inv_evolves [OF srv(1) assms(12) refl inv1]
  let ?d = "db_run c (o_writes (before (F C_Get))) (w_db w2)"
  note inv3 = postgres_server.inv_evolves [OF srv(2) db_run_evolves refl inv2, of "o_writes (before (F C_Get))"]
  have later: "read_from ?d p0"
    using postgres_server.read_from_evolves [OF srv(1) assms(12) refl inv1 p0(1)]
      postgres_server.read_from_evolves [OF srv(2) db_run_evolves refl inv2] by blast
  have "GetByID c (failing (F C_Get)) i ?d = Inr p"
    using assms(19) by (simp add: live_results_def prod_eq_iff w_on_db reading_def)
  from GetByID_read [OF inv3 this] have p: "read_from ?d p" "uuid_in srv i = Some (ID p)" using assms(15) by auto
  have same: "ID p0 = ID p" "optionIDs p0 = optionIDs p"
    by (rule read_twice [OF srv(2) inv3 later _ p(1), unfolded assms(15), OF p0(2) p(2)])+
  have ok2: "world_ok ?s r0 w2" using inv2 assms(14) by (simp add: world_ok_def)
  have close: "res_Participants r = int (ballots_for (ID p) (cast_ballots ?s (w_calls w4))) \<and>
      res_Options r = (\<lambda>k. if k \<in> set (optionIDs p) then Some (int (ballots_choosing (ID p) k (cast_ballots ?s (w_calls w4)))) else None) \<and>
      (\<forall>d. evolves c (w_db w4) d \<longrightarrow> snd (LoadResult c no_faults (\<lambda>x. x) (ID p) d) = Inr r)"
  proof -
    have cl: "redis_server (client ?s) look" using assms(2) by (simp add: main_store_def)
    have shut: "\<forall>x \<in> set (o_calls (before (F C_Totals)) @ o_calls (before (F C_Save)) @ []). \<not> opened_by (ID p) x"
      using assms(16) by simp
    show ?thesis
      using Close_outcome [OF srv(2) cl assms(3,4) ok2 shut assms(17-23) assms(24) [folded assms(15)]]
      unfolding append_Nil2 by blast
  qed
  have calls: "\<exists>h'. w_calls w4 = w_calls ?w1 @ h'"
    using Close_grows [OF assms(21)] assms(13) by (auto simp: grows_def)
  have b: "(ID p, DeviceHash (DedupHMACKey cfg) (ID p) dev, ids) \<in> set (cast_ballots ?s (w_calls w4))"
    using calls cast_ballots_kept [OF ballot] by (auto simp: same)
  note one = ballots_of_voter [OF cast_ballots_voters b]
  have opts: "res_Options r o' = Some (int (ballots_choosing (ID p) o' (cast_ballots ?s (w_calls w4)))) \<and> 0 < the (res_Options r o')"
    if "o' \<in> set ids" for o'
    using close ids(2) ballots_counted(2) [OF b that] that by (auto simp: same)
  have n: "0 < res_Participants r" using close ballots_counted(1) [OF b] by simp
  show ?thesis
    by (intro exI [of _ dev] exI [of _ ck] exI [of _ ids] conjI device ids [unfolded same(2)] one n ballI opts conjunct1 [OF close]
        conjunct2 [OF conjunct2 [OF close]])
qed

section \<open>A concrete run\<close>

text \<open>The request of the demonstration is answered with 201, and then the poll is closed.\<close>

lemma demo_http_ballot: "cast_ballots demo_store (demo_recorded dev) = [(demo_id, DeviceHash (DedupHMACKey demo_config) demo_id dev, [demo_yes])]"
proof -
  have "history_box demo_store (demo_recorded dev) =
      vote_box (buckets demo_store) Second (demo_cmd dev) (history_box demo_store demo_limited)"
    unfolding demo_recorded_def by (simp add: history_box_vote ran_def)
  moreover have "buckets demo_store = 2" by (simp add: demo_store_def)
  moreover have "ballots (history_box demo_store demo_limited) = []" using demo_no_ballots by (simp add: demo_box cast_ballots_def)
  ultimately have "cast_ballots demo_store (demo_recorded dev) = [ballot_of (demo_cmd dev)]"
    using demo_answer [of dev] by (simp add: cast_ballots_def vote_box_ballots ballot_of_def)
  then show ?thesis by (simp add: ballot_of_def demo_cmd_def)
qed

lemma demo_http_closes_ok: "history_ok demo_store 0 Second Hour (demo_summed (demo_recorded dev))"
  using demo_TTL(1) DeviceHash_plain [of "DedupHMACKey demo_config" demo_id dev] demo_store_ok
  by (simp add: demo_recorded_def demo_limited_def demo_cmd_def history_ok_def demo_calls_def history_events_def delivered_def
      gate_events_def demo_store_def demo_shut_def demo_summed_def peek_events_def duration_unit_defs numeral_2_eq_2)

lemma demo_calm_env: "calm_close (demo_env Second)"
  by (simp add: calm_close_def)

lemma demo_stage_read:
  "j_GetByID (live_results demo_repo demo_store (demo_env Second)) demo_id (demo_stage h) = (demo_stage h, Inr demo_poll)"
  by (simp add: live_results_def on_db_def others_def reading_def demo_env_def none_else_def db_run_def demo_stage_def
      demo_poll_loaded)

theorem accepted_vote_is_in_the_result_witness:
  "\<exists>st res r. NewRouter demo_live demo_ballot_env demo_ballot_request demo_start = (st, res) \<and> w_status res = 201 \<and>
     snd (ResultService_Close (live_results demo_repo demo_store (demo_env Second)) (live_store demo_repo demo_store (demo_env Second))
       demo_id (fst (st_svc st), NewPollCache 5)) = Inr (demo_poll\<lparr>Status := Closed, ClosedAt := res_FinalizedAt r\<rparr>, r) \<and>
     0 < res_Participants r \<and> 0 < the (res_Options r demo_yes)"
proof -
  let ?E = "demo_env Second"
  obtain st res dev where vote: "NewRouter demo_live demo_ballot_env demo_ballot_request demo_start = (st, res)"
    and res: "w_status res = 201" and w: "fst (st_svc st) = demo_stage (demo_recorded dev)"
    using demo_request_votes by blast
  obtain w4 r where close: "ResultService_Close (live_results demo_repo demo_store ?E) (live_store demo_repo demo_store ?E) demo_id
      (demo_stage (demo_recorded dev), NewPollCache 5) =
     ((w4, cache_delete demo_id (NewPollCache 5)), Inr (demo_poll\<lparr>Status := Closed, ClosedAt := res_FinalizedAt r\<rparr>, r))"
    and calls: "w_calls w4 = demo_summed (demo_recorded dev)"
    using demo_closes [OF demo_calm_env demo_http_closes_ok demo_http_ballot demo_stage_read, where C = "NewPollCache 5"] by blast
  have ok: "world_ok (main_store demo_config Mem) [] demo_running"
    using demo_running_recorded demo_active_inv by (simp add: world_ok_def) (simp add: demo_running_def)
  have save: "db_at_save demo_repo ?E (demo_stage (demo_recorded dev)) = demo_active"
    by (simp add: db_at_save_def demo_env_def none_else_def db_run_def demo_stage_def)
  have there: "postgres_server Pg" "redis_server Mem mem_look" "store_ok (main_store demo_config Mem)"
    using demo_server demo_redis demo_store_ok by (simp_all add: demo_repo_simps demo_store_def)
  have bounds: "in_bounds (main_store demo_config Mem) 0 Hour (fst (st_svc st))" using demo_voted_in_bounds by (simp add: w)
  have between: "evolves c (w_db (fst (st_svc st))) (w_db (demo_stage (demo_recorded dev)))"
    "w_calls (demo_stage (demo_recorded dev)) = w_calls (fst (st_svc st)) @ []" "recorded (main_store demo_config Mem) [] (demo_stage (demo_recorded dev))" for c
    unfolding w by (rule evolves.none) (simp_all add: recorded_def demo_stage_def)
  have env: "\<forall>x \<in> set (o_calls (before (?E C_Totals)) @ o_calls (before (?E C_Save))). \<not> opened_by (ID demo_poll) x"
    "failing (?E C_Save) = no_faults" "inside (?E C_Save) = (\<lambda>_. [])"
    by (simp_all add: demo_env_def none_else_def)
  have hist: "history_ok (main_store demo_config Mem) 0 Second Hour (w_calls w4)" using demo_http_closes_ok by (simp add: calls)
  have none: "existing_final demo_repo (ID demo_poll) (db_at_save demo_repo ?E (demo_stage (demo_recorded dev))) = None"
    "\<forall>x. rr_at (db_at_save demo_repo ?E (demo_stage (demo_recorded dev))) (ID demo_poll) = Some x \<longrightarrow> rr_captured_at x \<le> ts Pg (api_now (?E C_Totals))"
    unfolding save by (simp_all add: demo_poll_ids demo_nothing_stored)
  from accepted_vote_is_in_the_result [OF there(1,2) demo_mem(2) there(3) ok cache_ok_new cache_read_new demo_votes_in vote bounds res
      between demo_repo_simps(1) env demo_stage_read [folded demo_wired] demo_poll_fields(1) close [folded demo_wired] hist none]
  obtain ids where "chosen demo_ballot_request = Some ids" "0 < res_Participants r" "\<forall>o' \<in> set ids. 0 < the (res_Options r o')"
    by blast
  with vote res close w demo_chosen show ?thesis by (intro exI [of _ st] exI [of _ res] exI [of _ r]) simp
qed

end
