(* ===== verification/Migrate.thy ===== *)
theory Migrate
  imports Domain
begin

text \<open>
  \<open>Migrate\<close> (internal/postgres/migrate.go): any number of processes migrate one database at the same
  time. A step of a process is one statement that PostgreSQL executes; a transaction takes effect
  at its commit, in one step. The tables are a state \<open>'d\<close>, and \<open>script s d\<close> is what PostgreSQL makes of
  them by the migration script \<open>s\<close> (which contains no transaction commands), or None for an error.
  A statement can fail, a reply can be lost, and a process can die at any point, which ends its
  session and so releases its advisory lock.
\<close>

section \<open>Files\<close>

record dir_entry =
  de_name :: string
  de_dir :: bool
  de_content :: string

definition migration_names :: "dir_entry list \<Rightarrow> string list" where
  "migration_names files = sort (map de_name (filter (\<lambda>e. \<not> de_dir e \<and> has_suffix (de_name e) ''.sql'') files))"

definition read_file :: "dir_entry list \<Rightarrow> string \<Rightarrow> string option" where
  "read_file files n = map_option de_content (find (\<lambda>e. de_name e = n) files)"

section \<open>Processes\<close>

text \<open>Where a process is: before the CREATE TABLE, before the lock, before the look whether the first of the
  names was applied, before the transaction for a name, before the deferred unlock with what
  \<open>Migrate\<close> returns, and at its end.\<close>

datatype mig_pc = Mig_create | Mig_lock | Mig_check "string list" | Mig_apply string "string list"
  | Mig_unlock "err option" | Mig_done "err option"

text \<open>\<open>applied\<close> is the table \<open>schema_migrations\<close>, None when it does not exist, in the order of the inserts.\<close>

record 'd mig_state =
  applied :: "string list option"
  schema :: 'd
  holder :: "nat option"
  mig_at :: "nat \<Rightarrow> mig_pc"

abbreviation goto :: "nat \<Rightarrow> mig_pc \<Rightarrow> 'd mig_state \<Rightarrow> 'd mig_state" where
  "goto t x s \<equiv> s\<lparr>mig_at := (mig_at s)(t := x)\<rparr>"

definition mig_error :: err where
  "mig_error = Other ''postgres: call failed''"

definition migration_error :: "string \<Rightarrow> err" where
  "migration_error n = Other (''migration '' @ n @ '': postgres: call failed'')"

text \<open>The transaction of one migration: the script, then the insert, which the primary key refuses for a
  version that is there.\<close>

definition mig_tx :: "(string \<Rightarrow> 'd \<Rightarrow> 'd option) \<Rightarrow> dir_entry list \<Rightarrow> string \<Rightarrow> 'd mig_state \<Rightarrow> 'd mig_state option" where
  "mig_tx script files n s =
     (case (applied s, read_file files n) of
        (Some vs, Some body) \<Rightarrow>
          (case script body (schema s) of
             None \<Rightarrow> None
           | Some d \<Rightarrow> if n \<in> set vs then None else Some (s\<lparr>applied := Some (vs @ [n]), schema := d\<rparr>))
      | _ \<Rightarrow> None)"

inductive mig_step :: "(string \<Rightarrow> 'd \<Rightarrow> 'd option) \<Rightarrow> dir_entry list \<Rightarrow> 'd mig_state \<Rightarrow> nat \<Rightarrow> 'd mig_state \<Rightarrow> bool"
  for script files where
  create: "mig_at s t = Mig_create \<Longrightarrow> mig_step script files s t
    (goto t Mig_lock (s\<lparr>applied := (case applied s of None \<Rightarrow> Some [] | Some vs \<Rightarrow> Some vs)\<rparr>))"
| create_fails: "mig_at s t = Mig_create \<Longrightarrow> mig_step script files s t (goto t (Mig_done (Some mig_error)) s)"
| acquire: "mig_at s t = Mig_lock \<Longrightarrow> holder s = None \<Longrightarrow>
    mig_step script files s t (goto t (Mig_check (migration_names files)) (s\<lparr>holder := Some t\<rparr>))"
| acquire_fails: "mig_at s t = Mig_lock \<Longrightarrow> mig_step script files s t (goto t (Mig_done (Some mig_error)) s)"
| check_applied: "mig_at s t = Mig_check (n # ns) \<Longrightarrow> applied s = Some vs \<Longrightarrow> n \<in> set vs \<Longrightarrow>
    mig_step script files s t (goto t (Mig_check ns) s)"
| check_new: "mig_at s t = Mig_check (n # ns) \<Longrightarrow> applied s = Some vs \<Longrightarrow> n \<notin> set vs \<Longrightarrow>
    mig_step script files s t (goto t (Mig_apply n ns) s)"
| check_fails: "mig_at s t = Mig_check (n # ns) \<Longrightarrow> mig_step script files s t (goto t (Mig_unlock (Some mig_error)) s)"
| all_checked: "mig_at s t = Mig_check [] \<Longrightarrow> mig_step script files s t (goto t (Mig_unlock None) s)"
| apply_commits: "mig_at s t = Mig_apply n ns \<Longrightarrow> mig_tx script files n s = Some s' \<Longrightarrow>
    mig_step script files s t (goto t (Mig_check ns) s')"
| apply_fails: "mig_at s t = Mig_apply n ns \<Longrightarrow> mig_step script files s t (goto t (Mig_unlock (Some (migration_error n))) s)"
| apply_reply_lost: "mig_at s t = Mig_apply n ns \<Longrightarrow> mig_tx script files n s = Some s' \<Longrightarrow>
    mig_step script files s t (goto t (Mig_unlock (Some (migration_error n))) s')"
| release: "mig_at s t = Mig_unlock x \<Longrightarrow> mig_step script files s t (goto t (Mig_done x) (s\<lparr>holder := None\<rparr>))"
| release_fails: "mig_at s t = Mig_unlock x \<Longrightarrow> mig_step script files s t (goto t (Mig_done x) s)"
| dies: "\<forall>x. mig_at s t \<noteq> Mig_done x \<Longrightarrow> mig_step script files s t
    (goto t (Mig_done (Some mig_error)) (s\<lparr>holder := (if holder s = Some t then None else holder s)\<rparr>))"
| session_ends: "mig_at s t = Mig_done x \<Longrightarrow> holder s = Some t \<Longrightarrow> mig_step script files s t (s\<lparr>holder := None\<rparr>)"

text \<open>A database that holds the first migrations of the list (or none), and processes that have not begun.\<close>

fun run_scripts :: "(string \<Rightarrow> 'd \<Rightarrow> 'd option) \<Rightarrow> dir_entry list \<Rightarrow> string list \<Rightarrow> 'd \<Rightarrow> 'd option" where
  "run_scripts script files [] d = Some d"
| "run_scripts script files (n # ns) d =
     (case read_file files n of None \<Rightarrow> None | Some body \<Rightarrow>
        (case script body d of None \<Rightarrow> None | Some d' \<Rightarrow> run_scripts script files ns d'))"

definition migrated :: "(string \<Rightarrow> 'd \<Rightarrow> 'd option) \<Rightarrow> dir_entry list \<Rightarrow> 'd \<Rightarrow> string list \<Rightarrow> 'd mig_state \<Rightarrow> bool" where
  "migrated script files d0 vs s \<longleftrightarrow>
     run_scripts script files vs d0 = Some (schema s) \<and> applied s \<in> (if vs = [] then {None, Some []} else {Some vs})"

inductive mig_reach :: "(string \<Rightarrow> 'd \<Rightarrow> 'd option) \<Rightarrow> dir_entry list \<Rightarrow> 'd \<Rightarrow> 'd mig_state \<Rightarrow> bool"
  for script files d0 where
  start: "migrated script files d0 vs s \<Longrightarrow> prefix vs (migration_names files) \<Longrightarrow> holder s = None \<Longrightarrow>
    (\<And>t. mig_at s t = Mig_create) \<Longrightarrow> mig_reach script files d0 s"
| step: "mig_reach script files d0 s \<Longrightarrow> mig_step script files s t s' \<Longrightarrow> mig_reach script files d0 s'"

section \<open>The invariant\<close>

text \<open>A process past the lock holds it and knows that the names it has passed are in the table.\<close>

definition passed :: "string list \<Rightarrow> string list \<Rightarrow> string list \<Rightarrow> bool" where
  "passed names vs ns \<longleftrightarrow> (\<exists>pre. names = pre @ ns \<and> set pre \<subseteq> set vs)"

fun pc_ok :: "string list \<Rightarrow> 'd mig_state \<Rightarrow> nat \<Rightarrow> mig_pc \<Rightarrow> bool" where
  "pc_ok names s t Mig_create = True"
| "pc_ok names s t Mig_lock = (applied s \<noteq> None)"
| "pc_ok names s t (Mig_check ns) = (holder s = Some t \<and> (\<exists>vs. applied s = Some vs \<and> passed names vs ns))"
| "pc_ok names s t (Mig_apply n ns) =
     (holder s = Some t \<and> (\<exists>vs. applied s = Some vs \<and> passed names vs (n # ns) \<and> n \<notin> set vs))"
| "pc_ok names s t (Mig_unlock x) = (holder s = Some t \<and> (x = None \<longrightarrow> applied s = Some names))"
| "pc_ok names s t (Mig_done x) = (x = None \<longrightarrow> applied s = Some names)"

definition mig_ok :: "(string \<Rightarrow> 'd \<Rightarrow> 'd option) \<Rightarrow> dir_entry list \<Rightarrow> 'd \<Rightarrow> 'd mig_state \<Rightarrow> bool" where
  "mig_ok script files d0 s \<longleftrightarrow>
     (\<exists>vs. prefix vs (migration_names files) \<and> migrated script files d0 vs s) \<and>
     (\<forall>t. pc_ok (migration_names files) s t (mig_at s t))"

lemma run_scripts_snoc:
  "run_scripts script files (ns @ [n]) d =
     (case run_scripts script files ns d of None \<Rightarrow> None | Some d' \<Rightarrow>
        (case read_file files n of None \<Rightarrow> None | Some body \<Rightarrow> script body d'))"
  by (induction ns arbitrary: d) (auto split: option.splits)

lemma prefix_passed:
  assumes "distinct names" and "prefix vs names" and "passed names vs (n # ns)" and "n \<notin> set vs"
  shows "names = vs @ n # ns"
proof -
  obtain pre where pre: "names = pre @ n # ns" "set pre \<subseteq> set vs" using assms(3) by (auto simp: passed_def)
  obtain zs where zs: "names = vs @ zs" using assms(2) by (auto simp: prefix_def)
  have "length vs \<le> length pre"
  proof (rule ccontr)
    assume "\<not> ?thesis"
    then have "vs ! length pre = n" and "length pre < length vs"
      using pre(1) zs by (metis nth_append nth_append_length not_le, simp)
    then show False using assms(4) nth_mem by metis
  qed
  moreover have "length pre \<le> length vs"
    using pre(2) assms(1) pre(1) by (metis card_mono distinct_append distinct_card List.finite_set card_length order_trans)
  ultimately show ?thesis using pre(1) zs by simp
qed

lemma pc_ok_goto [simp]: "pc_ok names (goto u y s) t x = pc_ok names s t x"
  by (cases x) simp_all

lemma passed_all [simp]: "passed names vs names"
  by (simp add: passed_def)

lemma passed_next: "passed names vs (n # ns) \<Longrightarrow> n \<in> set vs \<Longrightarrow> passed names vs ns"
  unfolding passed_def by (metis append.assoc append_Cons append_Nil insert_subset list.simps(15) set_append Un_subset_iff empty_subsetI list.set(1))

lemma passed_Nil: "passed names vs [] \<Longrightarrow> set names \<subseteq> set vs"
  by (simp add: passed_def)

lemma passed_mono: "passed names vs ns \<Longrightarrow> set vs \<subseteq> set ws \<Longrightarrow> passed names ws ns"
  by (fastforce simp: passed_def)

lemma prefix_all: "distinct names \<Longrightarrow> prefix vs names \<Longrightarrow> set names \<subseteq> set vs \<Longrightarrow> vs = names"
  by (auto simp: prefix_def) (metis inf.absorb2 set_empty)

lemma mig_tx_cases:
  assumes "mig_tx script files n s = Some s'" and "migrated script files d0 vs s" and "applied s = Some vs"
  shows "migrated script files d0 (vs @ [n]) s' \<and> applied s' = Some (vs @ [n]) \<and> holder s' = holder s \<and> mig_at s' = mig_at s"
  using assms by (auto simp: mig_tx_def migrated_def run_scripts_snoc split: option.splits if_splits)

text \<open>What a step of one process may do to the others.\<close>

definition frame :: "string list \<Rightarrow> nat \<Rightarrow> 'd mig_state \<Rightarrow> 'd mig_state \<Rightarrow> bool" where
  "frame names t s s' \<longleftrightarrow>
     (\<forall>u. u \<noteq> t \<longrightarrow> mig_at s' u = mig_at s u \<and> (holder s = Some u \<longrightarrow> holder s' = Some u)) \<and>
     (applied s \<noteq> None \<longrightarrow> applied s' = applied s \<or> (holder s = Some t \<and> applied s \<noteq> Some names \<and> applied s' \<noteq> None))"

lemma pc_ok_frame:
  assumes "frame names t s s'" and "u \<noteq> t" and "pc_ok names s u (mig_at s u)"
  shows "pc_ok names s' u (mig_at s' u)"
proof -
  have u: "mig_at s' u = mig_at s u" "holder s = Some u \<Longrightarrow> holder s' = Some u \<and> applied s' = applied s"
    if "applied s \<noteq> None"
    using assms(1,2) that by (auto simp: frame_def)
  have d: "applied s = Some names \<Longrightarrow> applied s' = Some names" "applied s \<noteq> None \<Longrightarrow> applied s' \<noteq> None"
    using assms(1) by (auto simp: frame_def)
  have "mig_at s' u = mig_at s u" using assms(1,2) by (auto simp: frame_def)
  moreover have "holder s = Some u \<Longrightarrow> holder s' = Some u" using assms(1,2) by (auto simp: frame_def)
  ultimately show ?thesis using assms(3) u d by (cases "mig_at s u") auto
qed

lemma mig_ok_step:
  assumes names: "names = migration_names files" "distinct names" and step: "mig_step script files s t s'" and ok: "mig_ok script files d0 s"
  shows "mig_ok script files d0 s'"
proof -
  obtain vs where vs: "prefix vs names" "migrated script files d0 vs s" and pcs: "\<And>u. pc_ok names s u (mig_at s u)"
    using ok names(1) by (auto simp: mig_ok_def)
  have some: "applied s = Some ws \<Longrightarrow> ws = vs" for ws using vs(2) by (auto simp: migrated_def split: if_splits)
  have me: "pc_ok names s t (mig_at s t)" by (rule pcs)
  have goal: ?thesis if "frame names t s s'" "pc_ok names s' t (mig_at s' t)" "prefix ws names" "migrated script files d0 ws s'" for ws
    using that pc_ok_frame [OF that(1)] pcs names(1) unfolding mig_ok_def by metis
  have tx: "names = vs @ n # ns \<and> applied s = Some vs \<and> holder s = Some t" if "mig_at s t = Mig_apply n ns" for n ns
    using me that some prefix_passed [OF names(2) vs(1)] by auto
  have tx': "frame names t s (goto t x s1) \<and> holder s1 = Some t \<and> applied s1 = Some (vs @ [n]) \<and> prefix (vs @ [n]) names \<and>
      migrated script files d0 (vs @ [n]) (goto t x s1) \<and> passed names (vs @ [n]) ns"
    if "mig_at s t = Mig_apply n ns" "mig_tx script files n s = Some s1" for n ns s1 x
    using mig_tx_cases [OF that(2) vs(2)] tx [OF that(1)]
    by (auto simp: frame_def migrated_def passed_def)
  from step show ?thesis
  proof cases
    case create
    then show ?thesis using vs by (intro goal [OF _ _ vs(1)]) (auto simp: frame_def migrated_def split: option.splits if_splits)
  next
    case acquire
    then show ?thesis using vs me by (intro goal [OF _ _ vs(1)]) (auto simp: frame_def migrated_def names(1) [symmetric])
  next
    case (check_applied n ns ws)
    then show ?thesis using vs me passed_next by (intro goal [OF _ _ vs(1)]) (auto simp: frame_def migrated_def)
  next
    case all_checked
    then have "vs = names" using me some passed_Nil prefix_all [OF names(2) vs(1)] by auto
    then show ?thesis using all_checked vs me some by (intro goal [OF _ _ vs(1)]) (auto simp: frame_def migrated_def)
  next
    case (apply_commits n ns s1)
    from tx' [OF apply_commits(2,3)] apply_commits(1) show ?thesis by (intro goal [of "vs @ [n]"]) auto
  next
    case (apply_reply_lost n ns s1)
    from tx' [OF apply_reply_lost(2,3)] apply_reply_lost(1) show ?thesis by (intro goal [of "vs @ [n]"]) auto
  qed ((rule goal [OF _ _ vs(1)]; use vs me in \<open>auto simp: frame_def migrated_def split: if_splits\<close>)+)
qed

lemma mig_reach_ok:
  assumes "mig_reach script files d0 s" and "distinct (migration_names files)"
  shows "mig_ok script files d0 s"
  using assms(1)
proof induction
  case (start vs s)
  then show ?case by (auto simp: mig_ok_def)
next
  case (step s t s')
  show ?case by (rule mig_ok_step [OF refl assms(2) step.hyps(2) step.IH])
qed

section \<open>Claims\<close>

text \<open>C37. However many processes migrate at once, and wherever they fail or die, the database holds exactly the
  first migrations of the list, each applied once and in the order of their names; at most one
  process is at work on them; and a process that reports success has seen all of them applied.\<close>

theorem migrations_apply_once_in_order:
  assumes "mig_reach script files d0 s" and "distinct (map de_name files)"
  shows "(\<exists>vs. prefix vs (migration_names files) \<and> distinct vs \<and> run_scripts script files vs d0 = Some (schema s) \<and>
      (applied s = Some vs \<or> applied s = None \<and> vs = [])) \<and>
    (mig_at s t = Mig_done None \<longrightarrow> applied s = Some (migration_names files)) \<and>
    (mig_at s t = Mig_apply n ns \<longrightarrow> mig_at s u = Mig_apply n' ns' \<longrightarrow> t = u)"
proof -
  have d: "distinct (migration_names files)" using assms(2) by (simp add: migration_names_def distinct_map_filter)
  from mig_reach_ok [OF assms(1) d] obtain vs where
    vs: "prefix vs (migration_names files)" "migrated script files d0 vs s" and pcs: "\<And>u. pc_ok (migration_names files) s u (mig_at s u)"
    by (auto simp: mig_ok_def)
  have "distinct vs" using vs(1) d by (auto simp: prefix_def)
  with vs pcs [of t] pcs [of u] show ?thesis by (auto simp: migrated_def split: if_splits)
qed

text \<open>How many more steps a process takes at most.\<close>

fun steps_left :: "nat \<Rightarrow> mig_pc \<Rightarrow> nat" where
  "steps_left k Mig_create = 2 * k + 6"
| "steps_left k Mig_lock = 2 * k + 5"
| "steps_left k (Mig_check ns) = 2 * length ns + 3"
| "steps_left k (Mig_apply n ns) = 2 * length ns + 4"
| "steps_left k (Mig_unlock x) = 2"
| "steps_left k (Mig_done x) = 0"

definition fuel :: "dir_entry list \<Rightarrow> nat \<Rightarrow> 'd mig_state \<Rightarrow> nat" where
  "fuel files t s = steps_left (length (migration_names files)) (mig_at s t) + (if holder s = Some t then 1 else 0)"

inductive mig_run :: "(string \<Rightarrow> 'd \<Rightarrow> 'd option) \<Rightarrow> dir_entry list \<Rightarrow> 'd mig_state \<Rightarrow> nat list \<Rightarrow> 'd mig_state \<Rightarrow> bool"
  for script files where
  mig_none: "mig_run script files s [] s"
| mig_more: "mig_step script files s t s' \<Longrightarrow> mig_run script files s' ts s'' \<Longrightarrow> mig_run script files s (t # ts) s''"

lemma mig_tx_frame: "mig_tx script files n s = Some s' \<Longrightarrow> holder s' = holder s \<and> mig_at s' = mig_at s"
  by (auto simp: mig_tx_def split: option.splits if_splits)

lemma fuel_step:
  assumes "mig_step script files s t s'" and "pc_ok (migration_names files) s t (mig_at s t)"
  shows "fuel files t s' < fuel files t s \<and> (u \<noteq> t \<longrightarrow> fuel files u s' = fuel files u s)"
  using assms
proof cases
  case dies
  then show ?thesis using assms(2) by (cases "mig_at s t") (auto simp: fuel_def)
qed (use assms(2) in \<open>auto simp: fuel_def dest!: mig_tx_frame\<close>)

lemma fuel_run:
  assumes "mig_run script files s ts s'" and "distinct (migration_names files)" and "mig_ok script files d0 s"
  shows "count_list ts t + fuel files t s' \<le> fuel files t s"
  using assms(1,3)
proof induction
  case (mig_more s u s1 ts s2)
  have "pc_ok (migration_names files) s u (mig_at s u)" using mig_more.prems by (simp add: mig_ok_def)
  from fuel_step [OF mig_more.hyps(1) this, of t]
  show ?case using mig_more.IH [OF mig_ok_step [OF refl assms(2) mig_more.hyps(1) mig_more.prems]] by auto
qed simp


section \<open>A concrete run\<close>

definition demo_files :: "dir_entry list" where
  "demo_files = [\<lparr>de_name = ''001_init.sql'', de_dir = False, de_content = ''CREATE TABLE polls''\<rparr>,
     \<lparr>de_name = ''embed.go'', de_dir = False, de_content = ''package migrations''\<rparr>]"

definition demo_script :: "string \<Rightarrow> string list \<Rightarrow> string list option" where
  "demo_script body d = Some (d @ [body])"

definition demo_mig :: "string list option \<Rightarrow> string list \<Rightarrow> nat option \<Rightarrow> mig_pc \<Rightarrow> string list mig_state" where
  "demo_mig vs d h x = \<lparr>applied = vs, schema = d, holder = h, mig_at = (\<lambda>_. Mig_create)(0 := x)\<rparr>"

lemma demo_names: "migration_names demo_files = [''001_init.sql'']"
  by (simp add: migration_names_def demo_files_def has_suffix_def)

lemma demo_tx: "mig_tx demo_script demo_files ''001_init.sql'' (demo_mig (Some []) [] h x) =
    Some (demo_mig (Some [''001_init.sql'']) [''CREATE TABLE polls''] h x)"
  by (simp add: mig_tx_def demo_mig_def read_file_def demo_files_def demo_script_def)

lemma demo_mig_steps:
  "mig_step demo_script demo_files (demo_mig None [] None Mig_create) 0 (demo_mig (Some []) [] None Mig_lock)"
  "mig_step demo_script demo_files (demo_mig (Some []) [] None Mig_lock) 0 (demo_mig (Some []) [] (Some 0) (Mig_check [''001_init.sql'']))"
  "mig_step demo_script demo_files (demo_mig (Some []) [] (Some 0) (Mig_check [''001_init.sql''])) 0
     (demo_mig (Some []) [] (Some 0) (Mig_apply ''001_init.sql'' []))"
  "mig_step demo_script demo_files (demo_mig (Some []) [] (Some 0) (Mig_apply ''001_init.sql'' [])) 0
     (demo_mig (Some [''001_init.sql'']) [''CREATE TABLE polls''] (Some 0) (Mig_check []))"
  "mig_step demo_script demo_files (demo_mig (Some [''001_init.sql'']) [''CREATE TABLE polls''] (Some 0) (Mig_check [])) 0
     (demo_mig (Some [''001_init.sql'']) [''CREATE TABLE polls''] (Some 0) (Mig_unlock None))"
  "mig_step demo_script demo_files (demo_mig (Some [''001_init.sql'']) [''CREATE TABLE polls''] (Some 0) (Mig_unlock None)) 0
     (demo_mig (Some [''001_init.sql'']) [''CREATE TABLE polls''] None (Mig_done None))"
  using mig_step.create [of "demo_mig None [] None Mig_create" 0 demo_script demo_files]
    mig_step.acquire [of "demo_mig (Some []) [] None Mig_lock" 0 demo_script demo_files]
    mig_step.check_new [of "demo_mig (Some []) [] (Some 0) (Mig_check [''001_init.sql''])" 0 "''001_init.sql''" "[]" "[]" demo_script demo_files]
    mig_step.apply_commits [of "demo_mig (Some []) [] (Some 0) (Mig_apply ''001_init.sql'' [])" 0 "''001_init.sql''" "[]", OF _ demo_tx]
    mig_step.all_checked [of "demo_mig (Some [''001_init.sql'']) [''CREATE TABLE polls''] (Some 0) (Mig_check [])" 0 demo_script demo_files]
    mig_step.release [of "demo_mig (Some [''001_init.sql'']) [''CREATE TABLE polls''] (Some 0) (Mig_unlock None)" 0 None demo_script demo_files]
  by (simp_all add: demo_mig_def demo_names)

lemma demo_mig_start: "mig_reach demo_script demo_files [] (demo_mig None [] None Mig_create)"
  by (rule mig_reach.start [where vs = "[]"]) (simp_all add: migrated_def demo_mig_def)

lemma demo_distinct: "distinct (map de_name demo_files)"
  by (simp add: demo_files_def)

lemma demo_mig_reached: "mig_reach demo_script demo_files [] (demo_mig (Some [''001_init.sql'']) [''CREATE TABLE polls''] None (Mig_done None))"
  by (rule demo_mig_start [THEN mig_reach.step, OF demo_mig_steps(1), THEN mig_reach.step, OF demo_mig_steps(2),
      THEN mig_reach.step, OF demo_mig_steps(3), THEN mig_reach.step, OF demo_mig_steps(4),
      THEN mig_reach.step, OF demo_mig_steps(5), THEN mig_reach.step, OF demo_mig_steps(6)])

theorem migrations_apply_once_in_order_witness:
  "applied (demo_mig (Some [''001_init.sql'']) [''CREATE TABLE polls''] None (Mig_done None)) = Some (migration_names demo_files)"
  using migrations_apply_once_in_order [OF demo_mig_reached demo_distinct, of 0] by (simp add: demo_mig_def)


end
