(* ===== verification/Migrate_Main.thy ===== *)
theory Migrate_Main
  imports Migrate Config
begin

text \<open>
  The command that migrates (cmd/migrate/main.go): its exit status from its arguments, its environment and
  what \<open>Migrate\<close> reports. \<open>accepts\<close> says whether the driver accepts the URL of the database.
\<close>

definition migrate_main :: "string list \<Rightarrow> environ \<Rightarrow> (string \<Rightarrow> bool) \<Rightarrow> err option \<Rightarrow> nat" where
  "migrate_main args E accepts report =
     (if length args \<noteq> 2 \<or> args ! 1 \<noteq> ''up'' then 2
      else if E ''DATABASE_URL'' = [] then 2
      else if \<not> accepts (E ''DATABASE_URL'') then 1
      else (case report of Some e \<Rightarrow> 1 | None \<Rightarrow> 0))"

text \<open>A deployment can rely on the exit status of the command: it is 0 only when every migration is applied,
  once and in order, whatever other processes migrated, failed or died meanwhile; it is 2 when the
  command was not asked to migrate a database, and 1 when it tried and failed.\<close>

theorem migrate_status_is_reliable:
  assumes "mig_reach script files d0 s" and "distinct (map de_name files)" and "mig_at s t = Mig_done report"
  shows "(migrate_main args E accepts report = 0 \<longrightarrow> applied s = Some (migration_names files) \<and>
      run_scripts script files (migration_names files) d0 = Some (schema s)) \<and>
    (migrate_main args E accepts report = 2 \<longleftrightarrow> (\<forall>prog. args \<noteq> [prog, ''up'']) \<or> E ''DATABASE_URL'' = []) \<and>
    migrate_main args E accepts report \<le> 2"
proof -
  have "distinct (migration_names files)" using assms(2) by (simp add: migration_names_def distinct_map_filter)
  with assms(1) have ok: "mig_ok script files d0 s" by (rule mig_reach_ok)
  then have "report = None \<Longrightarrow> applied s = Some (migration_names files)"
    using assms(3) unfolding mig_ok_def by (metis pc_ok.simps(6))
  moreover have "applied s = Some vs \<Longrightarrow> run_scripts script files vs d0 = Some (schema s)" for vs
    using ok by (auto simp: mig_ok_def migrated_def split: if_splits)
  moreover have "(length args = 2 \<and> args ! 1 = ''up'') \<longleftrightarrow> (\<exists>prog. args = [prog, ''up''])"
    by (auto simp: length_Suc_conv numeral_2_eq_2)
  ultimately show ?thesis by (auto simp: migrate_main_def split: option.splits)
qed

theorem migrate_status_is_reliable_witness:
  "migrate_main [''migrate'', ''up''] (\<lambda>k. ''postgres://example'') (\<lambda>url. True) None = 0 \<and>
   applied (demo_mig (Some [''001_init.sql'']) [''CREATE TABLE polls''] None (Mig_done None)) = Some (migration_names demo_files)"
proof -
  let ?s = "demo_mig (Some [''001_init.sql'']) [''CREATE TABLE polls''] None (Mig_done None)"
  have "mig_at ?s 0 = Mig_done None" by (simp add: demo_mig_def)
  moreover have "migrate_main [''migrate'', ''up''] (\<lambda>k. ''postgres://example'') (\<lambda>url. True) None = 0" by (simp add: migrate_main_def)
  ultimately show ?thesis
    using migrate_status_is_reliable [OF demo_mig_reached demo_distinct, where t = 0 and report = None] by blast
qed

end
