(* ===== verification/Spec2Isabelle.thy ===== *)
theory Spec2Isabelle
  imports Go_Base64 Service_Results Vote_To_Result Migrate_Main
begin

text \<open>
  A model of the poll service, a Go program in front of PostgreSQL and Redis, with the theorems that make
  it correct. An administrator creates polls, publishes and closes them; clients vote once per device.
  PostgreSQL keeps the polls and their stored results, Redis keeps who voted and how often each option was
  chosen, and a worker copies the totals from Redis to PostgreSQL.

  \<^bold>\<open>The parts and their theories.\<close> The directory cmd/ holds two commands, internal/ the packages; each
  definition has the name of the Go function that it translates.

  \<^item> The standard library, as far as the source uses it: \<open>Prelude\<close> (instants, durations, signed 64-bit
    wrap-around, calls whose reply can be lost), \<open>Go_Strings\<close>, \<open>Go_Encoding\<close>, \<open>Go_Base64\<close>, \<open>Go_Crypto\<close> (SHA-256 and
    HMAC on 32-bit words), \<open>Go_Float\<close> and \<open>Go_Float_Order\<close> (rounding to a \<open>float64\<close>), \<open>Go_Json\<close>, \<open>Go_Time\<close>, \<open>Go_Net\<close>,
    \<open>Go_Http\<close> and \<open>Go_Config\<close>.
  \<^item> internal/domain: \<open>Domain\<close>. Polls are records, errors a datatype with the sentinels of errors.go.
  \<^item> internal/redisstore: \<open>Redis_Server\<close> (what the server promises, and the instance \<open>Mem\<close>), \<open>Redis_Store\<close> (keys,
    scripts and operations), \<open>Redis_Totals\<close>, \<open>Redis_Ballots\<close> (the abstract box of ballots and the simulation),
    \<open>Redis_Correct\<close>, \<open>Redis_History\<close>, \<open>Redis_Props\<close> and \<open>Redis_Limits\<close>.
  \<^item> internal/postgres: \<open>Postgres_Tables\<close> (schema and statements), \<open>Postgres_Repo\<close> (polls.go and results.go),
    \<open>Postgres_Invariant\<close>, \<open>Postgres_Save\<close>, \<open>Postgres_Evolve\<close>, \<open>Postgres_Props\<close>, \<open>Postgres_Claims\<close>,
    \<open>Postgres_Results\<close>; \<open>Migrate\<close> is migrate.go, a step relation of processes that migrate at the same time.
  \<^item> internal/identity: \<open>Identity\<close>. internal/qrsvg: \<open>Qr_Svg\<close>. internal/config: \<open>Config\<close>.
  \<^item> internal/service and internal/worker: \<open>Service_Cache\<close> (the cache as a data structure), \<open>Cache_Threads\<close> (the
    same under concurrent calls, as a step relation), \<open>Services\<close> (the operations over their interfaces, and the
    worker), \<open>Service_World\<close> (the services on PostgreSQL and Redis with other processes at work),
    \<open>Service_Publish\<close>, \<open>Service_Vote\<close>, \<open>Service_Close\<close>, \<open>Worker\<close> (the life of the snapshot worker) and
    \<open>Service_Results\<close>.
  \<^item> internal/httpapi: \<open>Http_Response\<close> (response.go and the writer of the middleware), \<open>Http_Metrics\<close>,
    \<open>Http_Handlers\<close>, \<open>Http_Router\<close> (middleware.go, router.go), \<open>Http_Routes\<close> (which handler a path leads to),
    \<open>Http_Labels\<close>, \<open>Http_Claims\<close> and \<open>Http_Votes\<close>.
  \<^item> cmd/api: \<open>Api_Main\<close>; cmd/migrate: \<open>Migrate_Main\<close>.
  \<^item> \<open>Vote_To_Result\<close> composes them: from the request of a vote to the final result that counts it.

  \<^bold>\<open>State and effects.\<close> A Go string is a list of bytes. An error is a value of the sum type, every early
  return a branch. A call over the network gets the outcome of the link as an argument: the request is
  lost, or it is executed one or more times (the client library repeats a script) and the reply arrives or
  is lost. The tables, the Redis server and the caches are passed explicitly; what other processes do
  between two calls is an argument as well (\<open>w_calls\<close>, histories of \<open>Redis_History\<close>, writes of
  \<open>Postgres_Evolve\<close>), and theorems hold for every such interleaving. Where threads or processes share locks, the
  model is an inductive step relation (\<open>cache_step\<close>, \<open>mig_step\<close>). Integers of 64 bits wrap around
  where the source lets them.

  \<^bold>\<open>Interfaces.\<close> Locales state what one part relies on: \<open>redis_server\<close> and \<open>postgres_server\<close> the
  documented behaviour of the servers, \<open>codec\<close> an encoding with its decoder, \<open>publishing\<close>, \<open>balloting\<close> and
  \<open>closing\<close> what a service asks of its repository and store, \<open>ballot_api\<close> what the handler of a
  vote asks of the service and the rate limiter, \<open>snapshotting\<close> and \<open>working\<close> what a snapshot and the loop of the
  worker ask of theirs. The locales \<open>live_publishing\<close>, \<open>live_voting\<close>, \<open>live_closing\<close>, \<open>live_service\<close>,
  \<open>live_ticks\<close> and \<open>live_http\<close> wire the definitions of the code together as main does; sublocales show that they keep those
  contracts, and each is interpreted on the concrete server instances.

  \<^bold>\<open>What is shown.\<close> For Redis: any interleaving of calls is simulated by a box with one ballot per
  device, so that counters are tallies, and gates, markers and totals live and change as documented.
  For PostgreSQL: an invariant of the tables that every write keeps, permanence of definitions, of closed
  polls and of final results, atomicity of failed writes, and round trips. For the services: publishing opens the
  gates or compensates, a vote adds exactly the ballot it reports, closing counts every accepted vote, results are
  the ballots, and the worker only copies them, for every active poll. For
  the cache: one load per entry, no stale poll after a deletion, no deadlock. For HTTP: who may reach an
  operation, which response every request gets, what the metrics count, and what a vote means from its request to
  the ballots in Redis and on to the final result in PostgreSQL. For the processes: a configuration that is accepted is safe, the API serves only after
  its checks, migrations are applied once and in order, and the exit statuses mean what they say.

  \<^bold>\<open>Bounds and fuel.\<close> The parser of JSON has twice the length of the body and one as fuel, which is more than
  any value of that length needs; those of media types and of durations have the length of their text, of which
  each round takes at least one byte. All other recursion is structural or has a termination proof. The
  loop of the worker takes the finite list of its ticks.

  \<^bold>\<open>Not modelled.\<close> The text of JSON responses (a response body is the tree that is encoded), log lines, the
  expansion of the admin template and the embedded files (parameters), the HTTP server with its timeouts, TLS
  and signals, the pools of the database drivers, and third-party code: pgx, go-redis, the servers and the
  encoder of QR codes are parameters with hypotheses where something is relied on. The JavaScript of
  the web pages, the OpenAPI document, deployment files and load tests are outside the Go program.
\<close>

end
